(* ===== verification/Minos_Prelude.thy ===== *)
theory Minos_Prelude
  imports Main "HOL-Library.Word" "HOL-Library.Monad_Syntax" "HOL-Library.State_Monad"
begin

unbundle bit_operations_syntax

text \<open>
  Shared vocabulary of the development: the C integer types of the kernel as
  fixed-width words, the reading of a result \<open>None\<close> as undefined behaviour of
  the C program, the collections of rewrite rules the component theories extend,
  and the facts on words, lists and bounded loops that more than one component
  uses.
\<close>

section \<open>C types\<close>

type_synonym u8 = "8 word"
type_synonym u16 = "16 word"
type_synonym u32 = "32 word"
type_synonym u64 = "64 word"

text \<open>
  A C call whose behaviour the language leaves undefined (an access outside an
  array, a read through an invalid pointer) or that never returns is \<^term>\<open>None\<close>;
  every other call is \<^term>\<open>Some r\<close>.  The status codes of the kernel's interfaces
  are the C values: 0 for success and -1 for failure.
\<close>

type_synonym 'a c_result = "'a option"

section \<open>Collections\<close>

named_theorems run_simps \<open>equations that run one primitive of a driver\<close>
named_theorems safe_intros \<open>calls that do not run into undefined behaviour\<close>
named_theorems inv_intros \<open>operations that keep a component's invariant\<close>

section \<open>Words\<close>

lemma unat_plus_one_le:
  fixes a b :: "'a::len word"
  assumes "a < b"
  shows "unat (a + 1) = unat a + 1"
proof -
  have "unat b < 2 ^ LENGTH('a)"
    by (rule unsigned_less)
  then have "unat a + 1 < 2 ^ LENGTH('a)"
    using assms unfolding word_less_nat_alt by linarith
  then show ?thesis
    by (simp add: unat_word_ariths)
qed

lemma unat_of_nat_small:
  "n < 2 ^ LENGTH('a) \<Longrightarrow> unat (of_nat n :: 'a::len word) = n"
  by (simp add: unsigned_of_nat take_bit_nat_eq_self)

lemma word_unat_eqI:
  fixes a b :: "'a::len word"
  shows "unat a = unat b \<Longrightarrow> a = b"
  by (simp add: word_unat_eq_iff)

lemma and_mask_mod: "(v :: 'a::len word) AND mask n = v mod 2 ^ n"
  by (simp add: take_bit_eq_mask [symmetric] take_bit_eq_mod)

lemma and_not_mask: "(a :: 'a::len word) AND NOT (mask n) = a - a mod 2 ^ n"
proof -
  have "a AND NOT (mask n) = a - (a AND mask n)"
    by (metis (no_types, lifting) and.commute and.right_idem bit.conj_cancel_left
        bit.conj_xor_distrib2 bit.xor_compl_right diff_0_right disjunctive_and_not_eq_xor
        disjunctive_diff_eq_and_not mask_0 mask_1 word_and_not word_bw_lcs(1) word_not_not)
  then show ?thesis by (simp add: and_mask_mod)
qed

lemma unat_u64_bound: "unat (v :: u64) < 2 ^ 64"
proof -
  have "unat v < 2 ^ LENGTH(64)" by (rule unsigned_less)
  then show ?thesis by simp
qed

lemma unat_u32_bound: "unat (v :: u32) < 2 ^ 32"
proof -
  have "unat v < 2 ^ LENGTH(32)" by (rule unsigned_less)
  then show ?thesis by simp
qed

lemma unat_widen_u32 [simp]: "unat (ucast (c :: u32) :: u64) = unat c"
proof -
  have "unat c < 2 ^ 64"
    using unat_u32_bound [of c] by (rule less_trans) simp
  then show ?thesis
    by (simp add: unsigned_ucast_eq take_bit_nat_eq_self)
qed

lemma of_nat_unat_u32: "(of_nat (unat (c :: u32)) :: u64) = ucast c"
  using unat_u32_bound [of c] by (intro word_unat_eqI) (simp add: unat_of_nat_small)

lemma unat_page_down [simp]: "unat ((a :: u64) AND - 4096) = unat a div 4096 * 4096"
proof -
  have "a AND - 4096 = a div 4096 * 4096"
    using and_not_mask [of a 12] by (simp add: mask_eq_exp_minus_1 minus_mod_eq_div_mult)
  moreover have "unat a div 4096 * 4096 < 2 ^ 64"
    using unat_u64_bound [of a] by (rule le_less_trans [rotated]) simp
  ultimately show ?thesis
    by (simp add: unat_word_ariths)
qed

section \<open>Finite ranges\<close>

lemma all_below: "list_all P [0..<k] \<Longrightarrow> n < k \<Longrightarrow> P n"
  by (simp add: list_all_iff)

lemma unat_ucast_mod:
  "unat (ucast (w :: 'a :: len word) :: 'b :: len word) = unat w mod 2 ^ LENGTH('b)"
  by (simp add: unsigned_ucast_eq take_bit_eq_mod)

text \<open>A number is the sum of its bytes.\<close>

lemma nat_bytes4:
  "(n :: nat) mod 256 + 256 * (n div 256 mod 256) + 65536 * (n div 65536 mod 256) + 16777216 * (n div 16777216) = n"
proof -
  have "n div 256 div 256 = n div 65536" "n div 65536 div 256 = n div 16777216"
    by (simp_all add: div_mult2_eq [symmetric])
  then show ?thesis
    using div_mult_mod_eq [of n 256] div_mult_mod_eq [of "n div 256" 256] div_mult_mod_eq [of "n div 65536" 256]
    by linarith
qed

section \<open>Loops\<close>

text \<open>A loop over the values of its variable, with a body that may fail.\<close>

fun for_each :: "('a \<Rightarrow> 's \<Rightarrow> 's c_result) \<Rightarrow> 'a list \<Rightarrow> 's \<Rightarrow> 's c_result" where
  "for_each f [] s = Some s"
| "for_each f (x # xs) s = f x s \<bind> for_each f xs"

lemma for_each_none [simp]: "for_each f [] = Some"
  by (simp add: fun_eq_iff)

lemma for_each_append: "for_each f (xs @ ys) s = for_each f xs s \<bind> for_each f ys"
  by (induction f xs s rule: for_each.induct) (auto split: Option.bind_splits)

lemma for_each_nest: "for_each (\<lambda>y. for_each f (g y)) ys s = for_each f (concat (map g ys)) s"
proof (induction ys arbitrary: s)
  case (Cons y ys)
  then show ?case by (cases "for_each f (g y) s") (simp_all add: for_each_append)
qed simp

lemma for_each_map: "for_each f (map g xs) = for_each (\<lambda>x. f (g x)) xs"
proof (rule ext)
  fix s
  show "for_each f (map g xs) s = for_each (\<lambda>x. f (g x)) xs s"
  proof (induction xs arbitrary: s)
    case (Cons x xs)
    then show ?case by (cases "f (g x) s") simp_all
  qed simp
qed

lemma for_each_cong: "(\<And>x s. x \<in> set xs \<Longrightarrow> f x s = g x s) \<Longrightarrow> for_each f xs s = for_each g xs s"
proof (induction xs arbitrary: s)
  case (Cons x xs)
  then show ?case by (cases "g x s") simp_all
qed simp

text \<open>An invariant of the body is one of the loop.\<close>

lemma for_each_invariant:
  assumes "I s" and "\<And>x s. x \<in> set xs \<Longrightarrow> I s \<Longrightarrow> \<exists>s'. f x s = Some s' \<and> I s'"
  shows "\<exists>s'. for_each f xs s = Some s' \<and> I s'"
  using assms
proof (induction xs arbitrary: s)
  case Nil
  then show ?case by simp
next
  case (Cons x xs)
  then obtain s1 where "f x s = Some s1" "I s1" by fastforce
  then show ?case using Cons.IH [of s1] Cons.prems(2) by simp
qed

end
