(* ===== verification/Minos_PortIO.thy ===== *)
theory Minos_PortIO
  imports Minos_Prelude
begin

text \<open>
  The x86 port instructions of \<^verbatim>\<open>kernel/kernel.h\<close>.  The hardware behind the ports
  is not part of the repository: it is a parameter \<open>hw\<close>, four functions on a
  device state of any type.  The machine state keeps that device state, the list
  of port accesses made so far (a ghost field, oldest first), the text sent to
  the serial log by components other than the serial driver, and the serial
  driver's own flag.
\<close>

section \<open>Hardware as a parameter\<close>

record 'd hw =
  hw_inb :: "u16 \<Rightarrow> 'd \<Rightarrow> u8 \<times> 'd"
  hw_outb :: "u16 \<Rightarrow> u8 \<Rightarrow> 'd \<Rightarrow> 'd"
  hw_inw :: "u16 \<Rightarrow> 'd \<Rightarrow> u16 \<times> 'd"
  hw_outw :: "u16 \<Rightarrow> u16 \<Rightarrow> 'd \<Rightarrow> 'd"

datatype port_event =
    In8 u16 u8
  | Out8 u16 u8
  | In16 u16 u16
  | Out16 u16 u16

record 'd machine =
  dev :: 'd
  trace :: "port_event list"
  klog :: string
  serial_initialized :: bool

section \<open>Port instructions (kernel.h)\<close>

definition outb :: "'d hw \<Rightarrow> u16 \<Rightarrow> u8 \<Rightarrow> (('d, 'm) machine_scheme, unit) state" where
  "outb hw port val =
     State (\<lambda>m. ((), m\<lparr>dev := hw_outb hw port val (dev m), trace := trace m @ [Out8 port val]\<rparr>))"

definition inb :: "'d hw \<Rightarrow> u16 \<Rightarrow> (('d, 'm) machine_scheme, u8) state" where
  "inb hw port =
     State (\<lambda>m. case hw_inb hw port (dev m) of
       (v, d) \<Rightarrow> (v, m\<lparr>dev := d, trace := trace m @ [In8 port v]\<rparr>))"

definition outw :: "'d hw \<Rightarrow> u16 \<Rightarrow> u16 \<Rightarrow> (('d, 'm) machine_scheme, unit) state" where
  "outw hw port val =
     State (\<lambda>m. ((), m\<lparr>dev := hw_outw hw port val (dev m), trace := trace m @ [Out16 port val]\<rparr>))"

definition inw :: "'d hw \<Rightarrow> u16 \<Rightarrow> (('d, 'm) machine_scheme, u16) state" where
  "inw hw port =
     State (\<lambda>m. case hw_inw hw port (dev m) of
       (v, d) \<Rightarrow> (v, m\<lparr>dev := d, trace := trace m @ [In16 port v]\<rparr>))"

definition io_wait :: "'d hw \<Rightarrow> (('d, 'm) machine_scheme, unit) state" where
  "io_wait hw = outb hw 0x80 0"

text \<open>Text sent to the serial log by the other components.\<close>

definition log_text :: "string \<Rightarrow> (('d, 'm) machine_scheme, unit) state" where
  "log_text t = State (\<lambda>m. ((), m\<lparr>klog := klog m @ t\<rparr>))"

lemma run_outb [run_simps]:
  "run_state (outb hw port val) m
     = ((), m\<lparr>dev := hw_outb hw port val (dev m), trace := trace m @ [Out8 port val]\<rparr>)"
  by (simp add: outb_def)

lemma run_inb [run_simps]:
  "run_state (inb hw port) m =
     (fst (hw_inb hw port (dev m)),
      m\<lparr>dev := snd (hw_inb hw port (dev m)),
        trace := trace m @ [In8 port (fst (hw_inb hw port (dev m)))]\<rparr>)"
  by (simp add: inb_def split_beta)

lemma run_outw [run_simps]:
  "run_state (outw hw port val) m
     = ((), m\<lparr>dev := hw_outw hw port val (dev m), trace := trace m @ [Out16 port val]\<rparr>)"
  by (simp add: outw_def)

lemma run_inw [run_simps]:
  "run_state (inw hw port) m =
     (fst (hw_inw hw port (dev m)),
      m\<lparr>dev := snd (hw_inw hw port (dev m)),
        trace := trace m @ [In16 port (fst (hw_inw hw port (dev m)))]\<rparr>)"
  by (simp add: inw_def split_beta)

lemma run_io_wait [run_simps]:
  "run_state (io_wait hw) m
     = ((), m\<lparr>dev := hw_outb hw 0x80 0 (dev m), trace := trace m @ [Out8 0x80 0]\<rparr>)"
  by (simp add: io_wait_def run_outb)

lemma run_log_text [run_simps]:
  "run_state (log_text t) m = ((), m\<lparr>klog := klog m @ t\<rparr>)"
  by (simp add: log_text_def)

section \<open>Bounded polling\<close>

text \<open>
  The shape \<^verbatim>\<open>while (!done() && --timeout) pause;\<close> of the drivers: the loop returns the
  value of the counter when it leaves, 0 after the last poll has failed.
\<close>

fun poll :: "(('d, 'm) machine_scheme, bool) state \<Rightarrow> nat \<Rightarrow> (('d, 'm) machine_scheme, nat) state" where
  "poll done 0 = State_Monad.return 0"
| "poll done (Suc n) = do {
     b \<leftarrow> done;
     if b then State_Monad.return (Suc n) else poll done n
   }"

section \<open>Reading the trace\<close>

fun written_to :: "u16 \<Rightarrow> port_event list \<Rightarrow> u8 list" where
  "written_to p [] = []"
| "written_to p (Out8 q v # es) = (if q = p then v # written_to p es else written_to p es)"
| "written_to p (e # es) = written_to p es"

lemma written_to_append [simp]: "written_to p (es @ fs) = written_to p es @ written_to p fs"
  by (induction p es rule: written_to.induct) auto

fun is_output :: "port_event \<Rightarrow> bool" where
  "is_output (Out8 p v) = True"
| "is_output (Out16 p v) = True"
| "is_output (In8 p v) = False"
| "is_output (In16 p v) = False"

definition outputs :: "port_event list \<Rightarrow> port_event list" where
  "outputs es = filter is_output es"

lemma outputs_append [simp]: "outputs (es @ fs) = outputs es @ outputs fs"
  by (simp add: outputs_def)

lemma outputs_simps [simp]:
  "outputs [] = []"
  "outputs (Out8 p v # es) = Out8 p v # outputs es"
  "outputs (Out16 p w # es) = Out16 p w # outputs es"
  "outputs (In8 p v # es) = outputs es"
  "outputs (In16 p w # es) = outputs es"
  by (simp_all add: outputs_def)

section \<open>Operations that only read\<close>

text \<open>
  \<open>m'\<close> differs from \<open>m\<close> in the device state and in port reads added to the trace.
\<close>

definition only_reads :: "nat \<Rightarrow> ('d, 'm) machine_scheme \<Rightarrow> ('d, 'm) machine_scheme \<Rightarrow> bool" where
  "only_reads n m m' \<longleftrightarrow> (\<exists>d es. m' = m\<lparr>dev := d, trace := trace m @ es\<rparr>
     \<and> outputs es = [] \<and> length es \<le> n)"

lemma only_reads_refl [intro]: "only_reads n m m"
  unfolding only_reads_def by (rule exI [of _ "dev m"], rule exI [of _ "[]"]) simp

lemma only_reads_trans:
  assumes "only_reads j m m'" and "only_reads k m' m''"
  shows "only_reads (j + k) m m''"
proof -
  obtain d es where 1: "m' = m\<lparr>dev := d, trace := trace m @ es\<rparr>" "outputs es = []" "length es \<le> j"
    using assms(1) by (auto simp: only_reads_def)
  obtain d' es' where 2: "m'' = m'\<lparr>dev := d', trace := trace m' @ es'\<rparr>" "outputs es' = []" "length es' \<le> k"
    using assms(2) by (auto simp: only_reads_def)
  show ?thesis
    using 1 2 unfolding only_reads_def
    by (intro exI [of _ d'] exI [of _ "es @ es'"]) simp
qed

lemma only_reads_mono: "only_reads j m m' \<Longrightarrow> j \<le> k \<Longrightarrow> only_reads k m m'"
  by (force simp: only_reads_def)

lemma only_reads_inb [simp]: "only_reads (Suc n) m (snd (run_state (inb hw p) m))"
  unfolding only_reads_def run_simps
  by (intro exI [of _ "snd (hw_inb hw p (dev m))"] exI [of _ "[In8 p (fst (hw_inb hw p (dev m)))]"]) simp

lemma only_reads_outputs: "only_reads n m m' \<Longrightarrow> outputs (trace m') = outputs (trace m)"
  by (auto simp: only_reads_def)

lemma only_reads_more:
  "only_reads n m m' \<Longrightarrow> machine.more m' = machine.more m \<and> klog m' = klog m
     \<and> serial_initialized m' = serial_initialized m"
  by (auto simp: only_reads_def)

text \<open>A polling loop only reads, at most once per count, and answers at most its count.\<close>

lemma poll_only_reads:
  assumes "\<And>m. only_reads 1 m (snd (run_state done m))"
  shows "only_reads n m (snd (run_state (poll done n) m))"
proof (induction n arbitrary: m)
  case 0
  then show ?case by auto
next
  case (Suc n)
  have first: "only_reads 1 m (snd (run_state done m))" by (rule assms)
  show ?case
    using only_reads_trans [OF first Suc.IH] only_reads_mono [OF first, of "Suc n"]
    by (simp add: split_beta)
qed

lemma poll_le: "fst (run_state (poll done n) m) \<le> n"
  by (induction n arbitrary: m) (auto simp: split_beta le_SucI)

text \<open>The loop reports success only when its last poll succeeded, which was one of \<open>n\<close>.\<close>

lemma poll_success:
  assumes "fst (run_state (poll done n) m) \<noteq> 0"
  shows "\<exists>m1. run_state done m1 = (True, snd (run_state (poll done n) m))"
  using assms
proof (induction n arbitrary: m)
  case 0
  then show ?case by simp
next
  case (Suc n)
  obtain b m1 where b: "run_state done m = (b, m1)" by (cases "run_state done m")
  show ?case
  proof (cases b)
    case True
    then show ?thesis using b by auto
  next
    case False
    then show ?thesis using Suc.IH [of m1] Suc.prems b by simp
  qed
qed

lemma poll_ready:
  "run_state done m = (True, m') \<Longrightarrow> 0 < n \<Longrightarrow> run_state (poll done n) m = (n, m')"
  by (cases n) simp_all

end
