(* ===== verification/Minos_Serial.thy ===== *)
theory Minos_Serial
  imports Minos_PortIO
begin

text \<open>
  The COM1 driver of \<^verbatim>\<open>kernel/serial.c\<close>: initialisation, polled output of
  characters and strings, decimal and hexadecimal numbers, and \<^verbatim>\<open>serial_printf\<close>.
  The transmit loops have no bound in the source, so every function that sends is
  partial: \<^term>\<open>None\<close> when a poll loop never ends or a format string runs off its
  end.  The theory shows what the driver writes to the port when the UART does
  become ready, and relates the number formats to the numbers.
\<close>

section \<open>The driver (serial.c)\<close>

definition COM1_PORT :: u16 where "COM1_PORT = 0x3F8"

definition serial_init :: "'d hw \<Rightarrow> (('d, 'm) machine_scheme, int) state" where
  "serial_init hw = do {
     outb hw (COM1_PORT + 1) 0x00;
     outb hw (COM1_PORT + 3) 0x80;
     outb hw (COM1_PORT + 0) 0x01;
     outb hw (COM1_PORT + 1) 0x00;
     outb hw (COM1_PORT + 3) 0x03;
     outb hw (COM1_PORT + 2) 0xC7;
     outb hw (COM1_PORT + 4) 0x0B;
     outb hw (COM1_PORT + 4) 0x1E;
     outb hw (COM1_PORT + 0) 0xAE;
     v \<leftarrow> inb hw (COM1_PORT + 0);
     if v \<noteq> 0xAE then do {
       outb hw (COM1_PORT + 4) 0x0F;
       State (\<lambda>m. ((), m\<lparr>serial_initialized := True\<rparr>));
       State_Monad.return 0
     } else do {
       outb hw (COM1_PORT + 4) 0x0F;
       State (\<lambda>m. ((), m\<lparr>serial_initialized := True\<rparr>));
       State_Monad.return 0
     }
   }"

definition is_transmit_empty :: "'d hw \<Rightarrow> (('d, 'm) machine_scheme, bool) state" where
  "is_transmit_empty hw = do {
     v \<leftarrow> inb hw (COM1_PORT + 5);
     State_Monad.return (v AND 0x20 \<noteq> 0)
   }"

partial_function (option) wait_transmit_empty ::
    "'d hw \<Rightarrow> ('d, 'm) machine_scheme \<Rightarrow> ('d, 'm) machine_scheme c_result" where
  "wait_transmit_empty hw m =
     (case run_state (is_transmit_empty hw) m of
        (ready, m') \<Rightarrow> if ready then Some m' else wait_transmit_empty hw m')"

definition byte_of_char :: "char \<Rightarrow> u8" where
  "byte_of_char c = of_char c"

definition serial_putc ::
    "'d hw \<Rightarrow> char \<Rightarrow> ('d, 'm) machine_scheme \<Rightarrow> ('d, 'm) machine_scheme c_result" where
  "serial_putc hw c m = do {
     let m0 = (if serial_initialized m then m else snd (run_state (serial_init hw) m));
     m1 \<leftarrow> (if c = CHR 0x0A
             then do {
               m' \<leftarrow> wait_transmit_empty hw m0;
               Some (snd (run_state (outb hw COM1_PORT 0x0D) m'))
             }
             else Some m0);
     m2 \<leftarrow> wait_transmit_empty hw m1;
     Some (snd (run_state (outb hw COM1_PORT (byte_of_char c)) m2))
   }"

fun puts_loop ::
    "'d hw \<Rightarrow> string \<Rightarrow> ('d, 'm) machine_scheme \<Rightarrow> ('d, 'm) machine_scheme c_result" where
  "puts_loop hw [] m = Some m"
| "puts_loop hw (c # cs) m = do { m' \<leftarrow> serial_putc hw c m; puts_loop hw cs m' }"

text \<open>The argument of \<^verbatim>\<open>serial_puts\<close> is a pointer (\<^term>\<open>None\<close> is null).\<close>

definition serial_puts ::
    "'d hw \<Rightarrow> string option \<Rightarrow> ('d, 'm) machine_scheme \<Rightarrow> ('d, 'm) machine_scheme c_result" where
  "serial_puts hw str m = (case str of None \<Rightarrow> Some m | Some s \<Rightarrow> puts_loop hw s m)"

lemma serial_puts_Some [simp]: "serial_puts hw (Some s) m = puts_loop hw s m"
  by (simp add: serial_puts_def)

text \<open>The digits of a number in the order the loops store them, least significant first.\<close>

function dec_digits :: "u64 \<Rightarrow> string" where
  "dec_digits val =
     (if val = 0 then [] else char_of (48 + unat (val mod 10)) # dec_digits (val div 10))"
  by pat_completeness auto
termination
proof (relation "measure unat")
  fix val :: u64
  assume "val \<noteq> 0"
  then have "0 < unat val" by (simp add: unat_gt_0)
  then show "(val div 10, val) \<in> measure unat"
    by (simp add: unat_div)
qed simp

definition serial_put_dec ::
    "'d hw \<Rightarrow> u64 \<Rightarrow> ('d, 'm) machine_scheme \<Rightarrow> ('d, 'm) machine_scheme c_result" where
  "serial_put_dec hw val m =
     (if val = 0 then serial_putc hw (CHR ''0'') m
      else puts_loop hw (rev (dec_digits val)) m)"

definition hex_chars :: string where "hex_chars = ''0123456789ABCDEF''"

function hex_digits :: "u64 \<Rightarrow> string" where
  "hex_digits val =
     (if val = 0 then [] else (hex_chars ! unat (val AND 0xF)) # hex_digits (drop_bit 4 val))"
  by pat_completeness auto
termination
proof (relation "measure unat")
  fix val :: u64
  assume "val \<noteq> 0"
  then have "0 < unat val" by (simp add: unat_gt_0)
  then show "(drop_bit 4 val, val) \<in> measure unat"
    by (simp add: drop_bit_eq_div unat_div)
qed simp

declare dec_digits.simps [simp del] hex_digits.simps [simp del]

definition serial_put_hex ::
    "'d hw \<Rightarrow> u64 \<Rightarrow> ('d, 'm) machine_scheme \<Rightarrow> ('d, 'm) machine_scheme c_result" where
  "serial_put_hex hw val m = do {
     m1 \<leftarrow> serial_puts hw (Some ''0x'') m;
     (if val = 0 then serial_putc hw (CHR ''0'') m1
      else puts_loop hw (rev (hex_digits val)) m1)
   }"

text \<open>
  The variable arguments: a string pointer (\<^term>\<open>None\<close> is null), an \<^verbatim>\<open>int\<close> holding
  a character, or a 64-bit number.  Reading an argument of another kind, or one
  that was not passed, is undefined.
\<close>

datatype fmt_arg = Str "string option" | Chr char | Num u64

text \<open>The \<^verbatim>\<open>switch\<close> on the character after a percent sign.\<close>

definition printf_directive ::
    "'d hw \<Rightarrow> char \<Rightarrow> fmt_arg list \<Rightarrow> ('d, 'm) machine_scheme
      \<Rightarrow> (fmt_arg list \<times> ('d, 'm) machine_scheme) c_result" where
  "printf_directive hw d args m =
     (if d = CHR ''s'' then
        (case args of
           Str s # rest \<Rightarrow> map_option (Pair rest)
             (serial_puts hw (Some (case s of Some t \<Rightarrow> t | None \<Rightarrow> ''(null)'')) m)
         | _ \<Rightarrow> None)
      else if d = CHR ''c'' then
        (case args of Chr k # rest \<Rightarrow> map_option (Pair rest) (serial_putc hw k m) | _ \<Rightarrow> None)
      else if d = CHR ''d'' \<or> d = CHR ''u'' then
        (case args of Num u # rest \<Rightarrow> map_option (Pair rest) (serial_put_dec hw u m) | _ \<Rightarrow> None)
      else if d = CHR ''x'' \<or> d = CHR ''p'' then
        (case args of Num x # rest \<Rightarrow> map_option (Pair rest) (serial_put_hex hw x m) | _ \<Rightarrow> None)
      else if d = CHR ''%'' then map_option (Pair args) (serial_putc hw (CHR ''%'') m)
      else do {
        m' \<leftarrow> serial_putc hw (CHR ''%'') m;
        map_option (Pair args) (serial_putc hw d m')
      })"

text \<open>
  A percent sign at the end of the format makes the loop step over the
  terminating null and read on past the string.
\<close>

fun serial_printf ::
    "'d hw \<Rightarrow> string \<Rightarrow> fmt_arg list \<Rightarrow> ('d, 'm) machine_scheme \<Rightarrow> ('d, 'm) machine_scheme c_result" where
  "serial_printf hw [] args m = Some m"
| "serial_printf hw (c # cs) args m =
     (if c \<noteq> CHR ''%'' then do { m' \<leftarrow> serial_putc hw c m; serial_printf hw cs args m' }
      else (case cs of
          [] \<Rightarrow> None
        | d # ds \<Rightarrow> do {
            (rest, m') \<leftarrow> printf_directive hw d args m;
            serial_printf hw ds rest m' }))"

section \<open>The text of a formatted message\<close>

definition dec_text :: "u64 \<Rightarrow> string" where
  "dec_text v = (if v = 0 then ''0'' else rev (dec_digits v))"

definition hex_text :: "u64 \<Rightarrow> string" where
  "hex_text v = ''0x'' @ (if v = 0 then ''0'' else rev (hex_digits v))"

definition directive_text :: "char \<Rightarrow> fmt_arg list \<Rightarrow> (string \<times> fmt_arg list) option" where
  "directive_text d args =
     (if d = CHR ''s'' then
        (case args of Str s # rest \<Rightarrow> Some (case s of Some t \<Rightarrow> t | None \<Rightarrow> ''(null)'', rest)
         | _ \<Rightarrow> None)
      else if d = CHR ''c'' then
        (case args of Chr k # rest \<Rightarrow> Some ([k], rest) | _ \<Rightarrow> None)
      else if d = CHR ''d'' \<or> d = CHR ''u'' then
        (case args of Num u # rest \<Rightarrow> Some (dec_text u, rest) | _ \<Rightarrow> None)
      else if d = CHR ''x'' \<or> d = CHR ''p'' then
        (case args of Num x # rest \<Rightarrow> Some (hex_text x, rest) | _ \<Rightarrow> None)
      else if d = CHR ''%'' then Some (''%'', args)
      else Some ([CHR ''%'', d], args))"

fun format_text :: "string \<Rightarrow> fmt_arg list \<Rightarrow> string option" where
  "format_text [] args = Some []"
| "format_text (c # cs) args =
     (if c \<noteq> CHR ''%'' then map_option (\<lambda>t. c # t) (format_text cs args)
      else (case cs of
          [] \<Rightarrow> None
        | d # ds \<Rightarrow>
            (case directive_text d args of
               None \<Rightarrow> None
             | Some (t, rest) \<Rightarrow> map_option (\<lambda>u. t @ u) (format_text ds rest))))"

text \<open>On the wire every line feed is preceded by a carriage return.\<close>

fun wire_text :: "string \<Rightarrow> u8 list" where
  "wire_text [] = []"
| "wire_text (c # cs) =
     (if c = CHR 0x0A then [0x0D, byte_of_char c] else [byte_of_char c]) @ wire_text cs"

lemma wire_text_append [simp]: "wire_text (s @ t) = wire_text s @ wire_text t"
  by (induction s) auto

text \<open>Messages of the other components, formatted as \<^verbatim>\<open>serial_printf\<close> does.\<close>

definition log_fmt :: "string \<Rightarrow> fmt_arg list \<Rightarrow> (('d, 'm) machine_scheme, unit) state" where
  "log_fmt fmt args = log_text (case format_text fmt args of Some t \<Rightarrow> t | None \<Rightarrow> [])"

lemma run_log_fmt [run_simps]:
  "run_state (log_fmt fmt args) m
     = ((), m\<lparr>klog := klog m @ (case format_text fmt args of Some t \<Rightarrow> t | None \<Rightarrow> [])\<rparr>)"
  by (simp add: log_fmt_def run_log_text)

section \<open>What the driver sends\<close>

text \<open>
  The contract of the 16550 UART that the transmit loops rely on: a status read
  that does not show an empty transmit register brings the device closer to being
  ready, and reads and writes of the port keep the device in its working states.
\<close>

locale uart =
  fixes hw :: "'d hw"
    and working :: "'d \<Rightarrow> bool"
    and busy :: "'d \<Rightarrow> nat"
  assumes poll_working: "working d \<Longrightarrow> working (snd (hw_inb hw (COM1_PORT + 5) d))"
    and poll_progress: "working d \<Longrightarrow> fst (hw_inb hw (COM1_PORT + 5) d) AND 0x20 = 0 \<Longrightarrow>
      busy (snd (hw_inb hw (COM1_PORT + 5) d)) < busy d"
    and send_working: "working d \<Longrightarrow> working (hw_outb hw COM1_PORT v d)"
begin

text \<open>
  A machine whose UART works and whose driver is set up, reached from \<open>m\<close> by
  writing exactly the bytes \<open>bs\<close> to the data port.
\<close>

definition sent_from ::
    "('d, 'm) machine_scheme \<Rightarrow> u8 list \<Rightarrow> ('d, 'm) machine_scheme \<Rightarrow> bool" where
  "sent_from m bs m' \<longleftrightarrow> working (dev m') \<and> serial_initialized m'
     \<and> outputs (trace m') = outputs (trace m) @ map (Out8 COM1_PORT) bs"

definition ready :: "('d, 'm) machine_scheme \<Rightarrow> bool" where
  "ready m \<longleftrightarrow> working (dev m) \<and> serial_initialized m"

lemma sent_from_ready: "sent_from m bs m' \<Longrightarrow> ready m'"
  by (simp add: sent_from_def ready_def)

lemma sent_from_refl: "ready m \<Longrightarrow> sent_from m [] m"
  by (simp add: sent_from_def ready_def)

lemma sent_from_trans: "sent_from m bs m' \<Longrightarrow> sent_from m' cs m'' \<Longrightarrow> sent_from m (bs @ cs) m''"
  by (simp add: sent_from_def)

lemma wait_returns:
  fixes m :: "('d, 'm) machine_scheme"
  assumes "ready m"
  shows "\<exists>m'. wait_transmit_empty hw m = Some m' \<and> sent_from m [] m'"
  using assms
proof (induction "busy (dev m)" arbitrary: m rule: less_induct)
  case less
  let ?r = "hw_inb hw (COM1_PORT + 5) (dev m)"
  let ?m = "m\<lparr>dev := snd ?r, trace := trace m @ [In8 (COM1_PORT + 5) (fst ?r)]\<rparr>"
  have unfold: "wait_transmit_empty hw m
      = (if fst ?r AND 0x20 \<noteq> 0 then Some ?m else wait_transmit_empty hw ?m)"
    by (subst wait_transmit_empty.simps) (simp add: is_transmit_empty_def run_simps)
  have ok: "sent_from m [] ?m"
    using less.prems poll_working by (simp add: sent_from_def ready_def)
  show ?case
  proof (cases "fst ?r AND 0x20 = 0")
    case False
    then show ?thesis using unfold ok by auto
  next
    case True
    have "busy (dev ?m) < busy (dev m)"
      using poll_progress [OF _ True] less.prems by (simp add: ready_def)
    from less.hyps [OF this sent_from_ready [OF ok]] show ?thesis
      using unfold True sent_from_trans [OF ok] by fastforce
  qed
qed

lemma outb_sends:
  "ready m \<Longrightarrow> sent_from m [b] (snd (run_state (outb hw COM1_PORT b) m))"
  by (simp add: sent_from_def ready_def run_simps send_working)

lemma wait_then_send:
  assumes "ready m"
  shows "\<exists>m'. wait_transmit_empty hw m = Some m'
     \<and> sent_from m [b] (snd (run_state (outb hw COM1_PORT b) m'))"
  using wait_returns [OF assms] outb_sends sent_from_ready sent_from_trans by fastforce

lemma putc_sends:
  assumes "ready m"
  shows "\<exists>m'. serial_putc hw c m = Some m' \<and> sent_from m (wire_text [c]) m'"
proof (cases "c = CHR 0x0A")
  case True
  obtain m1 where m1: "wait_transmit_empty hw m = Some m1"
    "sent_from m [0x0D] (snd (run_state (outb hw COM1_PORT 0x0D) m1))"
    using wait_then_send [OF assms] by blast
  obtain m2 where "wait_transmit_empty hw (snd (run_state (outb hw COM1_PORT 0x0D) m1)) = Some m2"
    "sent_from (snd (run_state (outb hw COM1_PORT 0x0D) m1)) [byte_of_char c]
       (snd (run_state (outb hw COM1_PORT (byte_of_char c)) m2))"
    using wait_then_send [OF sent_from_ready [OF m1(2)]] by blast
  with m1 True assms show ?thesis
    using sent_from_trans [OF m1(2)] by (auto simp: serial_putc_def ready_def Let_def)
next
  case False
  then show ?thesis
    using wait_then_send [OF assms, of "byte_of_char c"] assms
    by (auto simp: serial_putc_def ready_def Let_def)
qed

lemma puts_sends:
  "ready m \<Longrightarrow> \<exists>m'. puts_loop hw t m = Some m' \<and> sent_from m (wire_text t) m'"
proof (induction t arbitrary: m)
  case Nil
  then show ?case by (simp add: sent_from_refl)
next
  case (Cons c t)
  obtain m1 where m1: "serial_putc hw c m = Some m1" "sent_from m (wire_text [c]) m1"
    using putc_sends [OF Cons.prems] by blast
  obtain m2 where "puts_loop hw t m1 = Some m2" "sent_from m1 (wire_text t) m2"
    using Cons.IH [OF sent_from_ready [OF m1(2)]] by blast
  with m1 show ?case
    using sent_from_trans [OF m1(2), of "wire_text t" m2] by simp
qed

lemma put_dec_sends:
  "ready m \<Longrightarrow> \<exists>m'. serial_put_dec hw v m = Some m' \<and> sent_from m (wire_text (dec_text v)) m'"
  using putc_sends [of m "CHR ''0''"] puts_sends [of m "rev (dec_digits v)"]
  by (simp add: serial_put_dec_def dec_text_def)

lemma put_hex_sends:
  assumes "ready m"
  shows "\<exists>m'. serial_put_hex hw v m = Some m' \<and> sent_from m (wire_text (hex_text v)) m'"
proof -
  obtain m1 where m1: "puts_loop hw ''0x'' m = Some m1" "sent_from m (wire_text ''0x'') m1"
    using puts_sends [OF assms] by blast
  note r = sent_from_ready [OF m1(2)]
  obtain m2 where "(if v = 0 then serial_putc hw (CHR ''0'') m1
      else puts_loop hw (rev (hex_digits v)) m1) = Some m2"
    "sent_from m1 (wire_text (if v = 0 then ''0'' else rev (hex_digits v))) m2"
    using putc_sends [OF r, of "CHR ''0''"] puts_sends [OF r, of "rev (hex_digits v)"]
    by (cases "v = 0") auto
  moreover have "serial_put_hex hw v m = (if v = 0 then serial_putc hw (CHR ''0'') m1
      else puts_loop hw (rev (hex_digits v)) m1)"
    by (simp only: serial_put_hex_def serial_puts_Some m1(1) Option.bind.simps)
  ultimately show ?thesis
    using sent_from_trans [OF m1(2)] by (simp only: hex_text_def wire_text_append) blast
qed

lemma directive_sends:
  assumes r: "ready m"
  shows "(case directive_text d args of
            None \<Rightarrow> printf_directive hw d args m = None
          | Some (t, rest) \<Rightarrow> \<exists>m'. printf_directive hw d args m = Some (rest, m')
              \<and> sent_from m (wire_text t) m')"
proof -
  obtain m1 where m1: "serial_putc hw (CHR ''%'') m = Some m1" "sent_from m (wire_text ''%'') m1"
    using putc_sends [OF r] by blast
  obtain m2 where m2: "serial_putc hw d m1 = Some m2" "sent_from m1 (wire_text [d]) m2"
    using putc_sends [OF sent_from_ready [OF m1(2)]] by blast
  have lit: "sent_from m (wire_text [CHR ''%'', d]) m2"
    using sent_from_trans [OF m1(2) m2(2)] by simp
  show ?thesis
    using puts_sends [OF r] putc_sends [OF r] put_dec_sends [OF r] put_hex_sends [OF r] m1 m2 lit
    unfolding printf_directive_def directive_text_def
    by (auto simp del: wire_text.simps split: list.split fmt_arg.split)
qed

lemma printf_sends:
  "ready m \<Longrightarrow>
     (case format_text fmt args of
        None \<Rightarrow> serial_printf hw fmt args m = None
      | Some t \<Rightarrow> \<exists>m'. serial_printf hw fmt args m = Some m' \<and> sent_from m (wire_text t) m')"
proof (induction fmt args arbitrary: m rule: format_text.induct)
  case (1 args)
  then show ?case by (simp add: sent_from_refl)
next
  case (2 c cs args)
  show ?case
  proof (cases "c = CHR ''%''")
    case False
    obtain m1 where m1: "serial_putc hw c m = Some m1" "sent_from m (wire_text [c]) m1"
      using putc_sends [OF "2.prems"] by blast
    show ?thesis
      using "2.IH"(1) [OF False sent_from_ready [OF m1(2)]] m1 False
        sent_from_trans [OF m1(2)]
      by (fastforce split: option.splits)
  next
    case pct: True
    show ?thesis
    proof (cases cs)
      case Nil
      then show ?thesis using pct by simp
    next
      case (Cons d ds)
      show ?thesis
      proof (cases "directive_text d args")
        case None
        then show ?thesis
          using directive_sends [OF "2.prems", of d args] pct Cons by simp
      next
        case (Some p)
        obtain t rest where p: "p = (t, rest)" by (cases p)
        obtain m1 where m1: "printf_directive hw d args m = Some (rest, m1)"
            "sent_from m (wire_text t) m1"
          using directive_sends [OF "2.prems", of d args] Some p by auto
        have "\<not> c \<noteq> CHR ''%''" using pct by simp
        from "2.IH"(2) [OF this Cons Some p [symmetric] sent_from_ready [OF m1(2)]] show ?thesis
          using m1 pct Cons Some p sent_from_trans [OF m1(2)]
          by (fastforce split: option.splits)
      qed
    qed
  qed
qed

end

section \<open>A UART\<close>

text \<open>
  A 16550 as the driver sees it: the divisor latch and loopback bits, a
  transmitter that stays busy for some polls after a byte, and the bytes on the
  line.  It meets the contract, and shows that the contract can be met.
\<close>

record uart_dev =
  u_lcr :: u8
  u_mcr :: u8
  u_loop :: u8
  u_wait :: nat
  u_line :: "u8 list"

definition uart_outb :: "u16 \<Rightarrow> u8 \<Rightarrow> uart_dev \<Rightarrow> uart_dev" where
  "uart_outb p v d =
     (if p = 0x3F8 then
        (if u_lcr d AND 0x80 \<noteq> 0 then d
         else if u_mcr d AND 0x10 \<noteq> 0 then d\<lparr>u_loop := v\<rparr>
         else d\<lparr>u_wait := 3, u_line := u_line d @ [v]\<rparr>)
      else if p = 0x3FB then d\<lparr>u_lcr := v\<rparr>
      else if p = 0x3FC then d\<lparr>u_mcr := v\<rparr>
      else d)"

definition uart_inb :: "u16 \<Rightarrow> uart_dev \<Rightarrow> u8 \<times> uart_dev" where
  "uart_inb p d =
     (if p = 0x3F8 then (u_loop d, d)
      else if p = 0x3FD then (if u_wait d = 0 then 0x60 else 0, d\<lparr>u_wait := u_wait d - 1\<rparr>)
      else (0xFF, d))"

definition uart_hw :: "uart_dev hw" where
  "uart_hw = \<lparr>hw_inb = uart_inb, hw_outb = uart_outb,
     hw_inw = (\<lambda>p d. (0xFFFF, d)), hw_outw = (\<lambda>p v d. d)\<rparr>"

interpretation com1: uart uart_hw "\<lambda>d. True" u_wait
  by unfold_locales (auto simp: uart_hw_def uart_inb_def COM1_PORT_def split: if_splits)

section \<open>Numbers\<close>

fun dec_value_from :: "nat \<Rightarrow> string \<Rightarrow> nat" where
  "dec_value_from a [] = a"
| "dec_value_from a (c # cs) = dec_value_from (10 * a + (of_char c - 48)) cs"

fun hex_digit_value :: "char \<Rightarrow> nat" where
  "hex_digit_value c = (if (of_char c :: nat) < 58 then of_char c - 48 else of_char c - 55)"

fun hex_value_from :: "nat \<Rightarrow> string \<Rightarrow> nat" where
  "hex_value_from a [] = a"
| "hex_value_from a (c # cs) = hex_value_from (16 * a + hex_digit_value c) cs"

lemma dec_value_from_append: "dec_value_from a (s @ t) = dec_value_from (dec_value_from a s) t"
  by (induction s arbitrary: a) auto

lemma hex_value_from_append: "hex_value_from a (s @ t) = hex_value_from (hex_value_from a s) t"
  by (induction s arbitrary: a) auto

lemma of_char_digit: "n < 10 \<Longrightarrow> (of_char (char_of (48 + n) :: char) :: nat) = 48 + n"
  by simp

lemma hex_digit_roundtrip: "n < 16 \<Longrightarrow> hex_digit_value (hex_chars ! n) = n"
  by (rule all_below [of "\<lambda>n. hex_digit_value (hex_chars ! n) = n" 16]) code_simp

lemma low_nibble_mod: "(v :: u64) AND 0xF = v mod 16"
  using and_mask_mod [of v 4] by (simp add: mask_eq_exp_minus_1)

lemma dec_digits_value: "dec_value_from 0 (rev (dec_digits v)) = unat v"
proof (induction v rule: dec_digits.induct)
  case (1 v)
  show ?case
  proof (cases "v = 0")
    case True
    then show ?thesis by (simp add: dec_digits.simps)
  next
    case False
    have "unat (v mod 10) < 10"
      by (simp add: unat_mod)
    moreover have "unat v = 10 * unat (v div 10) + unat (v mod 10)"
      by (simp add: unat_mod unat_div)
    ultimately show ?thesis
      using "1.IH" [OF False] False
      by (simp add: dec_digits.simps [of v] dec_value_from_append of_char_digit
          del: of_char_of char_of_def)
  qed
qed

lemma hex_digits_value: "hex_value_from 0 (rev (hex_digits v)) = unat v"
proof (induction v rule: hex_digits.induct)
  case (1 v)
  show ?case
  proof (cases "v = 0")
    case True
    then show ?thesis by (simp add: hex_digits.simps)
  next
    case False
    have "unat (v mod 16) < 16"
      by (simp add: unat_mod)
    moreover have "unat v = 16 * unat (drop_bit 4 v) + unat (v mod 16)"
      by (simp add: unat_mod unat_div drop_bit_eq_div)
    ultimately show ?thesis
      using "1.IH" [OF False] False
      by (simp add: hex_digits.simps [of v] hex_value_from_append hex_digit_roundtrip low_nibble_mod
          del: hex_digit_value.simps)
  qed
qed

text \<open>A number below \<open>base ^ n\<close> has at most \<open>n\<close> digits: the loops stay inside their buffers.\<close>

lemma dec_digits_length: "unat v < 10 ^ n \<Longrightarrow> length (dec_digits v) \<le> n"
proof (induction n arbitrary: v)
  case 0
  then show ?case by (simp add: dec_digits.simps unat_eq_0)
next
  case (Suc n)
  then have "unat (v div 10) < 10 ^ n"
    by (simp add: unat_div less_mult_imp_div_less mult.commute)
  then show ?case
    using Suc.IH by (simp add: dec_digits.simps [of v])
qed

lemma hex_digits_length: "unat v < 16 ^ n \<Longrightarrow> length (hex_digits v) \<le> n"
proof (induction n arbitrary: v)
  case 0
  then show ?case by (simp add: hex_digits.simps unat_eq_0)
next
  case (Suc n)
  then have "unat (drop_bit 4 v) < 16 ^ n"
    by (simp add: drop_bit_eq_div unat_div less_mult_imp_div_less mult.commute)
  then show ?case
    using Suc.IH by (simp add: hex_digits.simps [of v])
qed

section \<open>Properties\<close>

text \<open>
  C19: on a working UART \<^verbatim>\<open>serial_printf\<close> always returns, and the only bytes it
  writes are those of the formatted text, in order, each line feed preceded by a
  carriage return; it fails exactly when the format and the arguments do not fit.
\<close>

theorem serial_printf_sends_format:
  assumes "uart hw working busy"
    and "working (dev m)" and "serial_initialized m"
  shows "(case format_text fmt args of
            None \<Rightarrow> serial_printf hw fmt args m = None
          | Some t \<Rightarrow> \<exists>m'. serial_printf hw fmt args m = Some m'
              \<and> outputs (trace m') = outputs (trace m) @ map (Out8 COM1_PORT) (wire_text t))"
proof -
  have "uart.ready working m"
    using assms by (simp add: uart.ready_def [OF assms(1)])
  from uart.printf_sends [OF assms(1) this, of fmt args] show ?thesis
    by (auto simp: uart.sent_from_def [OF assms(1)] split: option.splits)
qed

definition sample_uart :: "uart_dev machine" where
  "sample_uart = \<lparr>dev = \<lparr>u_lcr = 3, u_mcr = 0x0F, u_loop = 0, u_wait = 2, u_line = []\<rparr>,
     trace = [], klog = [], serial_initialized = True\<rparr>"

theorem serial_printf_sends_format_witness:
  "uart uart_hw (\<lambda>d. True) u_wait \<and> serial_initialized sample_uart
   \<and> (\<exists>m'. serial_printf uart_hw ''a%c'' [Chr (CHR ''b'')] sample_uart = Some m'
        \<and> outputs (trace m') = [Out8 COM1_PORT 97, Out8 COM1_PORT 98])"
proof -
  have init: "serial_initialized sample_uart"
    by (simp add: sample_uart_def)
  have "format_text ''a%c'' [Chr (CHR ''b'')] = Some ''ab''"
    by (simp add: directive_text_def)
  moreover have "outputs (trace sample_uart) = []"
    by (simp add: sample_uart_def)
  ultimately show ?thesis
    using serial_printf_sends_format
        [OF com1.uart_axioms, of sample_uart "''a%c''" "[Chr (CHR ''b'')]"] init com1.uart_axioms
    by (simp add: byte_of_char_def)
qed

text \<open>
  \<^verbatim>\<open>serial_put_dec\<close> prints the number it is given: reading the decimal text back
  gives the value, and the digits of any 64-bit number fill at most 20 bytes of
  the 32-byte buffer.
\<close>

lemma serial_dec_roundtrip:
  "dec_value_from 0 (dec_text v) = unat v \<and> length (dec_digits v) \<le> 20"
proof -
  have "unat v < 10 ^ 20"
    using unat_u64_bound [of v] by (rule less_le_trans) simp
  then show ?thesis
    by (cases "v = 0") (simp_all add: dec_text_def dec_digits_value dec_digits_length)
qed

text \<open>
  \<^verbatim>\<open>serial_put_hex\<close> prints the number after its \<^verbatim>\<open>0x\<close> prefix, and the digits of
  any 64-bit number fit the 16-byte buffer exactly.
\<close>

lemma serial_hex_roundtrip:
  "hex_value_from 0 (drop 2 (hex_text v)) = unat v \<and> length (hex_digits v) \<le> 16"
proof -
  have "unat v < 16 ^ 16"
    using unat_u64_bound [of v] by simp
  then show ?thesis
    by (cases "v = 0") (simp_all add: hex_text_def hex_digits_value hex_digits_length)
qed

end
