(* ===== verification/Minos_Boot.thy ===== *)
theory Minos_Boot
  imports Minos_Serial
begin

text \<open>
  The UEFI loader of \<^verbatim>\<open>boot/bootx64.c\<close> with the structures of \<^verbatim>\<open>boot/efi.h\<close> and
  \<^verbatim>\<open>boot/bootinfo.h\<close>: the CPU vendor string, the accounting of the memory map with
  saturating sums, the loop that grows the buffer for the map, and \<^verbatim>\<open>efi_main\<close> up to
  the jump into the kernel.  The firmware is a parameter: its services are
  functions on a firmware state of any type, and the memory it fills is a function
  from addresses to descriptors.
\<close>

section \<open>Firmware types (efi.h)\<close>

definition EFI_SUCCESS :: u64 where "EFI_SUCCESS = 0"
definition EFI_ERROR_MASK :: u64 where "EFI_ERROR_MASK = push_bit 63 1"
definition EFI_ERROR :: "u64 \<Rightarrow> bool" where "EFI_ERROR status \<longleftrightarrow> status AND EFI_ERROR_MASK \<noteq> 0"
definition EFI_BUFFER_TOO_SMALL :: u64 where "EFI_BUFFER_TOO_SMALL = EFI_ERROR_MASK OR 5"
definition EFI_OUT_OF_RESOURCES :: u64 where "EFI_OUT_OF_RESOURCES = EFI_ERROR_MASK OR 12"
definition EFI_INVALID_PARAMETER :: u64 where "EFI_INVALID_PARAMETER = EFI_ERROR_MASK OR 2"
definition EFI_NOT_FOUND :: u64 where "EFI_NOT_FOUND = EFI_ERROR_MASK OR 14"

lemmas efi_status_defs =
  EFI_SUCCESS_def EFI_ERROR_MASK_def EFI_ERROR_def EFI_BUFFER_TOO_SMALL_def
  EFI_OUT_OF_RESOURCES_def EFI_INVALID_PARAMETER_def EFI_NOT_FOUND_def

datatype efi_memory_type =
    EfiReservedMemoryType | EfiLoaderCode | EfiLoaderData | EfiBootServicesCode
  | EfiBootServicesData | EfiRuntimeServicesCode | EfiRuntimeServicesData
  | EfiConventionalMemory | EfiUnusableMemory | EfiACPIReclaimMemory
  | EfiACPIMemoryNVS | EfiMemoryMappedIO | EfiMemoryMappedIOPortSpace
  | EfiPalCode | EfiPersistentMemory | EfiMaxMemoryType

fun efi_type_code :: "efi_memory_type \<Rightarrow> u32" where
  "efi_type_code EfiReservedMemoryType = 0"
| "efi_type_code EfiLoaderCode = 1"
| "efi_type_code EfiLoaderData = 2"
| "efi_type_code EfiBootServicesCode = 3"
| "efi_type_code EfiBootServicesData = 4"
| "efi_type_code EfiRuntimeServicesCode = 5"
| "efi_type_code EfiRuntimeServicesData = 6"
| "efi_type_code EfiConventionalMemory = 7"
| "efi_type_code EfiUnusableMemory = 8"
| "efi_type_code EfiACPIReclaimMemory = 9"
| "efi_type_code EfiACPIMemoryNVS = 10"
| "efi_type_code EfiMemoryMappedIO = 11"
| "efi_type_code EfiMemoryMappedIOPortSpace = 12"
| "efi_type_code EfiPalCode = 13"
| "efi_type_code EfiPersistentMemory = 14"
| "efi_type_code EfiMaxMemoryType = 15"

record efi_memory_descriptor =
  md_Type :: u32
  md_PhysicalStart :: u64
  md_VirtualStart :: u64
  md_NumberOfPages :: u64
  md_Attribute :: u64

datatype efi_pixel_format =
    PixelRedGreenBlueReserved8BitPerColor
  | PixelBlueGreenRedReserved8BitPerColor
  | PixelBitMask
  | PixelBltOnly
  | PixelFormatMax

record efi_gop_mode =
  gop_FrameBufferBase :: u64
  gop_FrameBufferSize :: u64
  gop_HorizontalResolution :: u32
  gop_VerticalResolution :: u32
  gop_PixelFormat :: efi_pixel_format
  gop_PixelsPerScanLine :: u32

section \<open>The handoff structure (bootinfo.h)\<close>

definition MINOS_BOOTINFO_MAGIC :: u64 where "MINOS_BOOTINFO_MAGIC = 0x4D696E4F533031"

record boot_info =
  magic :: u64
  fb_base :: u64
  fb_size :: u64
  fb_width :: u32
  fb_height :: u32
  fb_pitch :: u32
  fb_bpp :: u32
  fb_is_bgr :: u32
  cpu_vendor :: "u8 list"
  total_memory_bytes :: u64
  usable_memory_bytes :: u64
  memory_map_size :: u64
  descriptor_size :: u64
  descriptor_version :: u32
  memory_map :: u64
  kernel_image_base :: u64
  kernel_image_size :: u64
  bootstrap_stack_base :: u64
  bootstrap_stack_size :: u64
  initrd_base :: u64
  initrd_size :: u64

text \<open>The static \<^verbatim>\<open>g_boot_info\<close> before the loader fills it.\<close>

definition zero_boot_info :: boot_info where
  "zero_boot_info =
     \<lparr>magic = 0, fb_base = 0, fb_size = 0, fb_width = 0, fb_height = 0, fb_pitch = 0, fb_bpp = 0,
      fb_is_bgr = 0, cpu_vendor = replicate 13 0, total_memory_bytes = 0, usable_memory_bytes = 0,
      memory_map_size = 0, descriptor_size = 0, descriptor_version = 0, memory_map = 0,
      kernel_image_base = 0, kernel_image_size = 0, bootstrap_stack_base = 0,
      bootstrap_stack_size = 0, initrd_base = 0, initrd_size = 0\<rparr>"

section \<open>CPU vendor\<close>

definition le_bytes32 :: "u32 \<Rightarrow> u8 list" where
  "le_bytes32 w = [ucast w, ucast (drop_bit 8 w), ucast (drop_bit 16 w), ucast (drop_bit 24 w)]"

text \<open>The \<^verbatim>\<open>cpuid\<close> instruction is a parameter: leaf to (eax, ebx, ecx, edx).\<close>

type_synonym cpuid_fn = "u32 \<Rightarrow> u32 \<times> u32 \<times> u32 \<times> u32"

definition detect_cpu_vendor :: "cpuid_fn \<Rightarrow> u8 list" where
  "detect_cpu_vendor cpuid =
     (case cpuid 0 of (eax, ebx, ecx, edx) \<Rightarrow>
        le_bytes32 ebx @ le_bytes32 edx @ le_bytes32 ecx @ [0])"

section \<open>Accounting of the memory map\<close>

definition UINT64_MAX :: u64 where "UINT64_MAX = 0xFFFFFFFFFFFFFFFF"

definition add_saturating :: "u64 \<Rightarrow> u64 \<Rightarrow> u64" where
  "add_saturating left right =
     (if right > UINT64_MAX - left then UINT64_MAX else left + right)"

definition region_size :: "efi_memory_descriptor \<Rightarrow> u64" where
  "region_size d =
     (if md_NumberOfPages d > UINT64_MAX div 4096 then UINT64_MAX else md_NumberOfPages d * 4096)"

definition region_usable :: "efi_memory_descriptor \<Rightarrow> bool" where
  "region_usable d \<longleftrightarrow>
     md_Type d = efi_type_code EfiConventionalMemory
     \<or> md_Type d = efi_type_code EfiBootServicesCode
     \<or> md_Type d = efi_type_code EfiBootServicesData
     \<or> md_Type d = efi_type_code EfiLoaderCode
     \<or> md_Type d = efi_type_code EfiLoaderData"

definition account_region :: "u64 \<times> u64 \<Rightarrow> efi_memory_descriptor \<Rightarrow> u64 \<times> u64" where
  "account_region sums d =
     (case sums of (total_bytes, usable_bytes) \<Rightarrow>
        (add_saturating total_bytes (region_size d),
         if region_usable d then add_saturating usable_bytes (region_size d) else usable_bytes))"

text \<open>
  The descriptors at \<open>map\<close>, \<open>map + desc_size\<close>, \<dots>: entry \<open>i\<close> of the array the
  firmware wrote, whose stride is the firmware's descriptor size.
\<close>

definition map_entries ::
    "(u64 \<Rightarrow> efi_memory_descriptor) \<Rightarrow> u64 \<Rightarrow> u64 \<Rightarrow> u64 \<Rightarrow> efi_memory_descriptor list" where
  "map_entries memory map_addr map_size desc_size =
     map (\<lambda>i. memory (map_addr + of_nat i * desc_size)) [0..<unat (map_size div desc_size)]"

definition update_boot_info ::
    "(u64 \<Rightarrow> efi_memory_descriptor) \<Rightarrow> u64 \<Rightarrow> u64 \<Rightarrow> u64 \<Rightarrow> u32 \<Rightarrow> boot_info \<Rightarrow> boot_info" where
  "update_boot_info memory mem_map map_size desc_size desc_ver info =
     (let info1 = info\<lparr>memory_map := mem_map, memory_map_size := map_size,
                       descriptor_size := desc_size, descriptor_version := desc_ver\<rparr>
      in if mem_map = 0 \<or> desc_size = 0 then info1
         else case foldl account_region (0, 0) (map_entries memory mem_map map_size desc_size) of
                (total_bytes, usable_bytes) \<Rightarrow>
                  info1\<lparr>total_memory_bytes := total_bytes, usable_memory_bytes := usable_bytes\<rparr>)"

section \<open>Fetching the memory map\<close>

text \<open>The loader's variables that \<^verbatim>\<open>get_memory_map\<close> updates through pointers.\<close>

record map_vars =
  mv_map :: u64
  mv_capacity :: u64
  mv_size :: u64
  mv_key :: u64
  mv_desc_size :: u64
  mv_desc_ver :: u32

record 'f efi_services =
  GetMemoryMap :: "u64 \<Rightarrow> map_vars \<Rightarrow> 'f \<Rightarrow> (u64 \<times> u64 \<times> u64 \<times> u64 \<times> u32) \<times> 'f"
  AllocatePool :: "efi_memory_type \<Rightarrow> u64 \<Rightarrow> 'f \<Rightarrow> (u64 \<times> u64) \<times> 'f"
  FreePool :: "u64 \<Rightarrow> 'f \<Rightarrow> 'f"
  LocateGop :: "'f \<Rightarrow> (u64 \<times> efi_gop_mode option) \<times> 'f"
  ExitBootServices :: "u64 \<Rightarrow> 'f \<Rightarrow> u64 \<times> 'f"
  OutputString :: "(string \<Rightarrow> 'f \<Rightarrow> 'f) option"

text \<open>\<open>OutputString\<close> is missing where the firmware has no console.\<close>

definition free_map :: "('f, 'x) efi_services_scheme \<Rightarrow> map_vars \<Rightarrow> 'f \<Rightarrow> 'f" where
  "free_map bs mv f = (if mv_map mv \<noteq> 0 then FreePool bs (mv_map mv) f else f)"

definition grown_capacity :: "u64 \<Rightarrow> u64 \<Rightarrow> u64 option" where
  "grown_capacity required capacity =
     (let base = (if required > capacity then required else capacity);
          half = base div 2;
          increment = (if half = 0 then 1 else half)
      in if base > UINT64_MAX - increment - 1 then None else Some (base + increment + 1))"

lemma grown_capacity_gt:
  assumes "grown_capacity required capacity = Some c"
  shows "capacity < c" and "required < c"
proof -
  define base where "base = (if required > capacity then required else capacity)"
  define inc where "inc = (if base div 2 = 0 then 1 else base div 2)"
  have c: "c = base + inc + 1" and guard: "\<not> base > UINT64_MAX - inc - 1"
    using assms by (auto simp: grown_capacity_def base_def inc_def Let_def split: if_splits)
  have inc_le: "unat inc \<le> 2 ^ 63"
  proof -
    have "unat base div 2 < 2 ^ 63"
      using unat_u64_bound [of base] by (intro less_mult_imp_div_less) simp
    then show ?thesis
      by (simp add: inc_def unat_div)
  qed
  have "unat (UINT64_MAX - inc - 1) = 2 ^ 64 - 1 - unat inc - 1"
    using inc_le by (simp add: UINT64_MAX_def unat_sub_if' word_le_nat_alt)
  then have fits: "unat base + unat inc + 1 < 2 ^ 64"
    using guard inc_le by (simp add: word_less_nat_alt not_less)
  then have "unat c = unat base + unat inc + 1"
    by (simp add: c unat_word_ariths)
  then have "base < c"
    by (simp add: word_less_nat_alt)
  moreover have "capacity \<le> base" "required \<le> base"
    by (auto simp: base_def)
  ultimately show "capacity < c" and "required < c"
    by (auto intro: le_less_trans)
qed

function get_memory_map ::
    "('f, 'x) efi_services_scheme \<Rightarrow> map_vars \<Rightarrow> 'f \<Rightarrow> (u64 \<times> map_vars) \<times> 'f" where
  "get_memory_map bs mv f =
     (case GetMemoryMap bs (mv_capacity mv) mv f of
        ((status, required, key, dsize, dver), f1) \<Rightarrow>
          let mv1 = mv\<lparr>mv_key := key, mv_desc_size := dsize, mv_desc_ver := dver\<rparr>;
              dropped = mv1\<lparr>mv_map := 0, mv_capacity := 0\<rparr>
          in if status = EFI_BUFFER_TOO_SMALL then
               (case grown_capacity required (mv_capacity mv) of
                  None \<Rightarrow> ((EFI_OUT_OF_RESOURCES, dropped), free_map bs mv1 f1)
                | Some c \<Rightarrow>
                    (case AllocatePool bs EfiLoaderData c f1 of
                       ((st, new_map), f2) \<Rightarrow>
                         if EFI_ERROR st then ((st, dropped), free_map bs mv1 f2)
                         else get_memory_map bs (mv1\<lparr>mv_map := new_map, mv_capacity := c\<rparr>)
                                (free_map bs mv1 f2)))
             else if EFI_ERROR status then ((status, dropped), free_map bs mv1 f1)
             else if mv_map mv1 = 0 \<or> mv_desc_size mv1 = 0 then
               ((EFI_INVALID_PARAMETER, dropped), free_map bs mv1 f1)
             else ((EFI_SUCCESS, mv1\<lparr>mv_size := required\<rparr>), f1))"
  by pat_completeness auto
termination
proof (relation "measure (\<lambda>(bs, mv, f). 2 ^ 64 - unat (mv_capacity mv))", goal_cases)
  case 1
  then show ?case by simp
next
  case (2 bs mv f)
  then show ?case
    using grown_capacity_gt(1) unat_u64_bound
    by (auto simp: word_less_nat_alt intro!: diff_less_mono2)
qed

declare get_memory_map.simps [simp del]

section \<open>The loader's main function\<close>

datatype boot_outcome = Returns u64 | Halts | Enters boot_info

text \<open>
  The loader's machine: the serial port it writes its messages to and the state of the firmware.
\<close>

record ('d, 'f) boot_machine = "'d machine" +
  fw_state :: 'f

definition on_fw :: "('f \<Rightarrow> 'a \<times> 'f) \<Rightarrow> ('d, 'f) boot_machine \<Rightarrow> 'a \<times> ('d, 'f) boot_machine" where
  "on_fw service m = (case service (fw_state m) of (x, f) \<Rightarrow> (x, m\<lparr>fw_state := f\<rparr>))"

definition boot_say :: "string \<Rightarrow> fmt_arg list \<Rightarrow> ('d, 'f) boot_machine \<Rightarrow> ('d, 'f) boot_machine" where
  "boot_say t args m = snd (run_state (log_fmt (''[MinOS Boot] '' @ t @ [CHR 0x0A]) args) m)"

lemma fw_state_boot_say [simp]: "fw_state (boot_say t args m) = fw_state m"
  by (simp add: boot_say_def run_log_fmt)

lemma on_fw_state: "on_fw service m = (x, m') \<Longrightarrow> service (fw_state m) = (x, fw_state m')"
  by (auto simp: on_fw_def split: prod.splits)

text \<open>
  The loop around \<^verbatim>\<open>ExitBootServices\<close>: a rejected key means the map changed, so the
  map is fetched again; any other failure, or a failure to fetch, halts.  The
  firmware may reject for ever, so the loop is partial.
\<close>

definition refreshed_map :: "map_vars \<Rightarrow> ('d, 'f) boot_machine \<Rightarrow> ('d, 'f) boot_machine" where
  "refreshed_map mv = boot_say ''Refreshed map: %u entries, key=%p''
     [Num (ucast (ucast (mv_size mv div mv_desc_size mv) :: u32)), Num (mv_key mv)]"

partial_function (option) exit_boot_loop ::
    "('f, 'x) efi_services_scheme \<Rightarrow> (u64 \<Rightarrow> efi_memory_descriptor) \<Rightarrow> map_vars \<Rightarrow> boot_info \<Rightarrow> ('d, 'f) boot_machine
      \<Rightarrow> (boot_outcome \<times> ('d, 'f) boot_machine) c_result" where
  "exit_boot_loop bs memory mv info m =
     (case on_fw (ExitBootServices bs (mv_key mv)) (boot_say ''Exiting UEFI Boot Services...'' [] m) of
        (exit_status, m1) \<Rightarrow>
          if \<not> EFI_ERROR exit_status then Some (Enters info, m1)
          else (case on_fw (get_memory_map bs mv)
                       (boot_say ''ExitBootServices failed; reacquiring memory map...'' [] m1) of
             ((status, mv'), m2) \<Rightarrow>
               if EFI_ERROR status
               then Some (Halts, boot_say ''FATAL: could not reacquire memory map!'' [] m2)
               else let info' = update_boot_info memory (mv_map mv') (mv_size mv')
                                  (mv_desc_size mv') (mv_desc_ver mv') info;
                        m3 = refreshed_map mv' m2
                    in if exit_status \<noteq> EFI_INVALID_PARAMETER
                       then Some (Halts, boot_say ''FATAL: ExitBootServices failed!'' [] m3)
                       else exit_boot_loop bs memory mv' info' m3))"

definition zero_map_vars :: map_vars where
  "zero_map_vars = \<lparr>mv_map = 0, mv_capacity = 0, mv_size = 0, mv_key = 0, mv_desc_size = 0,
     mv_desc_ver = 0\<rparr>"

definition gop_boot_info :: "efi_gop_mode \<Rightarrow> boot_info \<Rightarrow> boot_info" where
  "gop_boot_info gop info =
     info\<lparr>fb_base := gop_FrameBufferBase gop,
          fb_size := gop_FrameBufferSize gop,
          fb_width := gop_HorizontalResolution gop,
          fb_height := gop_VerticalResolution gop,
          fb_pitch := gop_PixelsPerScanLine gop * 4,
          fb_bpp := 32,
          fb_is_bgr := (if gop_PixelFormat gop = PixelBlueGreenRedReserved8BitPerColor then 1 else 0)\<rparr>"

text \<open>
  The addresses the loader takes of its own code and stack, \<open>main_addr\<close> of
  \<^verbatim>\<open>efi_main\<close> and \<open>stack_base\<close> of the 32 KiB kernel stack of \<^verbatim>\<open>entry.c\<close>, are arguments.
\<close>

definition kernel_stack_size :: u64 where "kernel_stack_size = 32768"

definition image_boot_info :: "u64 \<Rightarrow> u64 \<Rightarrow> boot_info \<Rightarrow> boot_info" where
  "image_boot_info main_addr stack_base info =
     info\<lparr>magic := MINOS_BOOTINFO_MAGIC,
          kernel_image_base := main_addr AND NOT 4095,
          kernel_image_size := 2 * 1024 * 1024,
          bootstrap_stack_base := stack_base,
          bootstrap_stack_size := kernel_stack_size\<rparr>"

text \<open>The first messages, on the serial port and, where there is one, the console of the firmware.\<close>

definition boot_banner :: "('f, 'x) efi_services_scheme \<Rightarrow> 'd hw \<Rightarrow> ('d, 'f) boot_machine \<Rightarrow> ('d, 'f) boot_machine" where
  "boot_banner bs hw m =
     (let m1 = snd (run_state (log_text ([CHR 0x0A] @ ''[MinOS Boot] MinOS UEFI Bootloader v0.1.0 starting...'' @ [CHR 0x0A]))
                 (snd (run_state (serial_init hw) m)))
      in case OutputString bs of
           None \<Rightarrow> m1
         | Some out \<Rightarrow> m1\<lparr>fw_state := out (''MinOS UEFI Bootloader starting...'' @ [CHR 0x0D, CHR 0x0A]) (fw_state m1)\<rparr>)"

definition say_vendor :: "boot_info \<Rightarrow> ('d, 'f) boot_machine \<Rightarrow> ('d, 'f) boot_machine" where
  "say_vendor info = boot_say ''CPU Vendor detected via CPUID: %s''
     [Str (Some (takeWhile (\<lambda>c. c \<noteq> CHR 0x00) (map (\<lambda>b. char_of (unat b)) (cpu_vendor info))))]"

definition say_gop :: "boot_info \<Rightarrow> ('d, 'f) boot_machine \<Rightarrow> ('d, 'f) boot_machine" where
  "say_gop info = boot_say ''GOP Framebuffer: %ux%u, pitch: %u, format: %s, base: %p''
     [Num (ucast (fb_width info)), Num (ucast (fb_height info)), Num (ucast (fb_pitch info)),
      Str (Some (if fb_is_bgr info \<noteq> 0 then ''BGRA'' else ''RGBA'')), Num (fb_base info)]"

definition say_map :: "map_vars \<Rightarrow> boot_info \<Rightarrow> ('d, 'f) boot_machine \<Rightarrow> ('d, 'f) boot_machine" where
  "say_map mv info = boot_say ''UEFI Memory Map: %u entries, %u MB total, %u MB usable''
     [Num (ucast (ucast (mv_size mv div mv_desc_size mv) :: u32)),
      Num (ucast (ucast (total_memory_bytes info div (1024 * 1024)) :: u32)),
      Num (ucast (ucast (usable_memory_bytes info div (1024 * 1024)) :: u32))]"

lemmas boot_messages = refreshed_map_def say_vendor_def say_gop_def say_map_def

definition efi_main ::
    "('f, 'x) efi_services_scheme \<Rightarrow> 'd hw \<Rightarrow> cpuid_fn \<Rightarrow> (u64 \<Rightarrow> efi_memory_descriptor) \<Rightarrow> u64 \<Rightarrow> u64
      \<Rightarrow> boot_info \<Rightarrow> ('d, 'f) boot_machine \<Rightarrow> (boot_outcome \<times> ('d, 'f) boot_machine) c_result" where
  "efi_main bs hw cpuid memory main_addr stack_base g_boot_info m =
     (let info1 = g_boot_info\<lparr>cpu_vendor := detect_cpu_vendor cpuid\<rparr> in
      case on_fw (LocateGop bs) (say_vendor info1 (boot_banner bs hw m)) of
        ((status, gop), m1) \<Rightarrow>
          let no_gop = boot_say ''ERROR: Failed to locate GOP!'' [] m1 in
          (case gop of
             None \<Rightarrow> Some (Returns status, no_gop)
           | Some mode \<Rightarrow>
               if EFI_ERROR status then Some (Returns status, no_gop)
               else (let info2 = gop_boot_info mode info1 in
                  case on_fw (get_memory_map bs zero_map_vars) (say_gop info2 m1) of
                  ((status2, mv), m2) \<Rightarrow>
                    if EFI_ERROR status2
                    then Some (Returns status2, boot_say ''ERROR: Failed to allocate or retrieve memory map!'' [] m2)
                    else (let info3 = image_boot_info main_addr stack_base
                                (update_boot_info memory (mv_map mv) (mv_size mv) (mv_desc_size mv)
                                   (mv_desc_ver mv) info2)
                          in do {
                            (out, m3) \<leftarrow> exit_boot_loop bs memory mv info3 (say_map mv info3 m2);
                            Some (out, if out = Halts then m3
                              else boot_say ''Boot Services exited. Jumping to MinOS kernel_main!'' [] m3)
                          }))))"

section \<open>Saturating sums\<close>

lemma unat_UINT64_MAX [simp]: "unat UINT64_MAX = 2 ^ 64 - 1"
  by (simp add: UINT64_MAX_def)

lemma unat_add_saturating: "unat (add_saturating a b) = min (2 ^ 64 - 1) (unat a + unat b)"
proof -
  have a: "unat a < 2 ^ 64" by (rule unat_u64_bound)
  then have sub: "unat (UINT64_MAX - a) = 2 ^ 64 - 1 - unat a"
    by (simp add: unat_sub_if' word_le_nat_alt)
  show ?thesis
  proof (cases "unat b > 2 ^ 64 - 1 - unat a")
    case True
    then show ?thesis
      using sub by (simp add: add_saturating_def word_less_nat_alt)
  next
    case False
    then show ?thesis
      using sub a by (simp add: add_saturating_def word_less_nat_alt unat_word_ariths)
  qed
qed

lemma unat_region_size: "unat (region_size d) = min (2 ^ 64 - 1) (unat (md_NumberOfPages d) * 4096)"
proof -
  have q: "unat (UINT64_MAX div 4096) = (2 ^ 64 - 1) div 4096"
    by (simp add: unat_div)
  show ?thesis
  proof (cases "unat (md_NumberOfPages d) > (2 ^ 64 - 1) div 4096")
    case True
    then show ?thesis
      using q by (simp add: region_size_def word_less_nat_alt)
  next
    case False
    then show ?thesis
      using q by (simp add: region_size_def word_less_nat_alt unat_word_ariths)
  qed
qed

lemma account_region_pair:
  "account_region (t, u) d = (add_saturating t (region_size d),
     if region_usable d then add_saturating u (region_size d) else u)"
  by (simp add: account_region_def)

lemma min_saturate: "min m (min m (a + min m b) + c) = min (m :: nat) (a + (b + c))"
  by (simp add: min_def)

lemma account_regions_sums:
  "unat (fst (foldl account_region (t, u) ds))
     = min (2 ^ 64 - 1) (unat t + (\<Sum>d\<leftarrow>ds. unat (md_NumberOfPages d) * 4096))"
  "unat (snd (foldl account_region (t, u) ds))
     = min (2 ^ 64 - 1) (unat u + (\<Sum>d\<leftarrow>filter region_usable ds. unat (md_NumberOfPages d) * 4096))"
proof (induction ds arbitrary: t u)
  case Nil
  {
    case 1
    show ?case using unat_u64_bound [of t] by simp
  next
    case 2
    show ?case using unat_u64_bound [of u] by simp
  }
next
  case (Cons d ds)
  {
    case 1
    show ?case
      by (simp add: account_region_pair Cons.IH(1) unat_add_saturating unat_region_size
          min_saturate)
  next
    case 2
    show ?case
      by (simp add: account_region_pair Cons.IH(2) unat_add_saturating unat_region_size
          min_saturate)
  }
qed

section \<open>Pool memory\<close>

text \<open>
  The pool contract of the firmware: the live pool buffers change only through
  \<^verbatim>\<open>AllocatePool\<close>, which hands out a new non-null buffer when it succeeds and none
  when it fails, and \<^verbatim>\<open>FreePool\<close>.
\<close>

locale efi_pool =
  fixes bs :: "('f, 'x) efi_services_scheme"
    and live :: "'f \<Rightarrow> u64 set"
  assumes live_map: "live (snd (GetMemoryMap bs c mv f)) = live f"
    and live_alloc: "AllocatePool bs ty n f = ((st, p), f') \<Longrightarrow> \<not> EFI_ERROR st \<Longrightarrow>
      p \<noteq> 0 \<and> p \<notin> live f \<and> live f' = insert p (live f)"
    and live_alloc_fail: "AllocatePool bs ty n f = ((st, p), f') \<Longrightarrow> EFI_ERROR st \<Longrightarrow>
      live f' = live f"
    and live_free: "live (FreePool bs p f) = live f - {p}"
begin

text \<open>The loader owns exactly its map buffer, beside the buffers \<open>L\<close> it does not know.\<close>

definition owns :: "u64 set \<Rightarrow> map_vars \<Rightarrow> 'f \<Rightarrow> bool" where
  "owns L mv f \<longleftrightarrow> (if mv_map mv = 0 then live f = L
     else mv_map mv \<notin> L \<and> live f = insert (mv_map mv) L)"

lemma free_map_owns: "owns L mv f \<Longrightarrow> mv_map mv' = mv_map mv \<Longrightarrow> live (free_map bs mv' f) = L"
  by (auto simp: owns_def free_map_def live_free split: if_splits)

lemma free_map_keeps:
  assumes "owns L mv f" and "mv_map mv' = mv_map mv" and "p \<notin> live f" and "live g = insert p (live f)"
  shows "p \<notin> L \<and> live (free_map bs mv' g) = insert p L"
  using assms by (auto simp: owns_def free_map_def live_free split: if_splits)

definition fetched :: "u64 set \<Rightarrow> u64 \<Rightarrow> map_vars \<Rightarrow> 'f \<Rightarrow> bool" where
  "fetched L st mv f \<longleftrightarrow> owns L mv f
     \<and> (if EFI_ERROR st then mv_map mv = 0 else mv_map mv \<noteq> 0 \<and> mv_desc_size mv \<noteq> 0)"

lemma fetched_dropped: "EFI_ERROR st \<Longrightarrow> mv_map mv = 0 \<Longrightarrow> live f = L \<Longrightarrow> fetched L st mv f"
  by (simp add: fetched_def owns_def)

lemma efi_errors: "EFI_ERROR EFI_OUT_OF_RESOURCES" "EFI_ERROR EFI_INVALID_PARAMETER"
    "\<not> EFI_ERROR EFI_SUCCESS"
  by (simp_all add: efi_status_defs)

lemma get_memory_map_fetched:
  assumes "owns L mv f"
  shows "case get_memory_map bs mv f of ((st, mv'), f') \<Rightarrow> fetched L st mv' f'"
  using assms
proof (induction "2 ^ 64 - unat (mv_capacity mv)" arbitrary: mv f rule: less_induct)
  case less
  obtain status required key dsize dver f1
    where g: "GetMemoryMap bs (mv_capacity mv) mv f = ((status, required, key, dsize, dver), f1)"
    by (metis prod_cases5 surj_pair)
  define mv1 where "mv1 = mv\<lparr>mv_key := key, mv_desc_size := dsize, mv_desc_ver := dver\<rparr>"
  have mv1: "mv_map mv1 = mv_map mv" by (simp add: mv1_def)
  have own1: "owns L mv f1"
    using less.prems live_map [of "mv_capacity mv" mv f] g by (simp add: owns_def)
  note unfold = get_memory_map.simps [of bs mv f, unfolded g prod.case, folded mv1_def]
  have freed: "live (free_map bs mv1 f1) = L"
    using free_map_owns [OF own1 mv1] .
  show ?case
  proof (cases "status = EFI_BUFFER_TOO_SMALL")
    case False
    then show ?thesis
      using freed own1 mv1 efi_errors
      by (auto simp: unfold Let_def fetched_def owns_def split: if_splits)
  next
    case small: True
    show ?thesis
    proof (cases "grown_capacity required (mv_capacity mv)")
      case None
      then show ?thesis
        using small freed efi_errors by (auto simp: unfold Let_def intro: fetched_dropped)
    next
      case (Some c)
      obtain st p f2 where al: "AllocatePool bs EfiLoaderData c f1 = ((st, p), f2)"
        by (metis surj_pair)
      show ?thesis
      proof (cases "EFI_ERROR st")
        case True
        then have "owns L mv f2"
          using live_alloc_fail [OF al] own1 by (simp add: owns_def)
        from free_map_owns [OF this mv1] show ?thesis
          using True small Some al by (auto simp: unfold Let_def intro: fetched_dropped)
      next
        case False
        let ?mv = "mv1\<lparr>mv_map := p, mv_capacity := c\<rparr>" and ?f = "free_map bs mv1 f2"
        have "p \<notin> L \<and> live ?f = insert p L"
          using free_map_keeps [OF own1 mv1] live_alloc [OF al False] by blast
        then have "owns L ?mv ?f"
          using live_alloc [OF al False] by (simp add: owns_def)
        moreover have "2 ^ 64 - unat (mv_capacity ?mv) < 2 ^ 64 - unat (mv_capacity mv)"
          using grown_capacity_gt(1) [OF Some] unat_u64_bound [of "mv_capacity mv"]
          by (simp add: word_less_nat_alt diff_less_mono2)
        ultimately show ?thesis
          using less.hyps small Some al False by (simp add: unfold Let_def)
      qed
    qed
  qed
qed

end

section \<open>A firmware\<close>

text \<open>
  A firmware that meets the pool contract: it hands out page-aligned buffers until
  its address counter wraps, asks for \<open>fw_need\<close> bytes for the map, and rejects the
  first \<open>fw_rejects\<close> attempts to leave boot services, changing the map key each time.
\<close>

record firmware =
  fw_live :: "u64 list"
  fw_next :: u64
  fw_need :: u64
  fw_key :: u64
  fw_rejects :: nat
  fw_gop :: "efi_gop_mode option"

definition fw_services :: "firmware efi_services" where
  "fw_services =
     \<lparr>GetMemoryMap = (\<lambda>cap mv f.
        if cap < fw_need f then ((EFI_BUFFER_TOO_SMALL, fw_need f, mv_key mv, 48, 1), f)
        else ((EFI_SUCCESS, fw_need f, fw_key f, 48, 1), f)),
      AllocatePool = (\<lambda>ty n f.
        if fw_next f = 0 \<or> fw_next f \<in> set (fw_live f) then ((EFI_OUT_OF_RESOURCES, 0), f)
        else ((EFI_SUCCESS, fw_next f),
              f\<lparr>fw_live := fw_next f # fw_live f, fw_next := fw_next f + 0x1000\<rparr>)),
      FreePool = (\<lambda>p f. f\<lparr>fw_live := filter (\<lambda>q. q \<noteq> p) (fw_live f)\<rparr>),
      LocateGop = (\<lambda>f. ((case fw_gop f of None \<Rightarrow> EFI_NOT_FOUND | Some _ \<Rightarrow> EFI_SUCCESS, fw_gop f), f)),
      ExitBootServices = (\<lambda>key f.
        if fw_rejects f = 0 \<and> key = fw_key f then (EFI_SUCCESS, f)
        else (EFI_INVALID_PARAMETER,
              f\<lparr>fw_key := fw_key f + 1, fw_rejects := fw_rejects f - 1\<rparr>)),
      OutputString = None\<rparr>"

interpretation fw_pool: efi_pool fw_services "\<lambda>f. set (fw_live f)"
  by unfold_locales
    (auto simp: fw_services_def efi_pool.efi_errors efi_status_defs split: if_splits)

section \<open>Leaving boot services\<close>

lemma get_memory_map_success:
  assumes "get_memory_map bs mv f = ((st, mv'), f')" and "\<not> EFI_ERROR st"
  shows "mv_map mv' \<noteq> 0 \<and> mv_desc_size mv' \<noteq> 0"
  using assms
proof (induction bs mv f rule: get_memory_map.induct)
  case (1 bs mv f)
  have err: "EFI_ERROR EFI_OUT_OF_RESOURCES" "EFI_ERROR EFI_INVALID_PARAMETER"
    by (simp_all add: efi_status_defs)
  show ?case
    using "1.prems" err "1.IH"
    by (subst (asm) get_memory_map.simps [of bs mv f])
      (fastforce simp: Let_def split: prod.splits if_splits option.splits)
qed

text \<open>The handoff structure describes the map held in the loader's variables.\<close>

definition describes :: "(u64 \<Rightarrow> efi_memory_descriptor) \<Rightarrow> map_vars \<Rightarrow> boot_info \<Rightarrow> bool" where
  "describes memory mv info \<longleftrightarrow>
     magic info = MINOS_BOOTINFO_MAGIC
     \<and> memory_map info = mv_map mv \<and> memory_map_size info = mv_size mv
     \<and> descriptor_size info = mv_desc_size mv
     \<and> unat (total_memory_bytes info) = min (2 ^ 64 - 1)
         (\<Sum>d\<leftarrow>map_entries memory (mv_map mv) (mv_size mv) (mv_desc_size mv).
            unat (md_NumberOfPages d) * 4096)"

lemma update_describes:
  assumes "mv_map mv \<noteq> 0" and "mv_desc_size mv \<noteq> 0" and "magic info = MINOS_BOOTINFO_MAGIC"
  shows "describes memory mv
    (update_boot_info memory (mv_map mv) (mv_size mv) (mv_desc_size mv) (mv_desc_ver mv) info)"
  using account_regions_sums(1) [of 0 0 "map_entries memory (mv_map mv) (mv_size mv) (mv_desc_size mv)"]
    assms
  by (simp add: describes_def update_boot_info_def Let_def split_beta)

lemma describes_image:
  assumes "mv_map mv \<noteq> 0" and "mv_desc_size mv \<noteq> 0"
  shows "describes memory mv (image_boot_info a b
    (update_boot_info memory (mv_map mv) (mv_size mv) (mv_desc_size mv) (mv_desc_ver mv) info))"
  using account_regions_sums(1) [of 0 0 "map_entries memory (mv_map mv) (mv_size mv) (mv_desc_size mv)"]
    assms
  by (simp add: describes_def update_boot_info_def image_boot_info_def Let_def split_beta)

text \<open>
  Entering the kernel: the structure handed over describes a map whose key the
  firmware has just accepted.
\<close>

definition handed_over ::
    "('f, 'x) efi_services_scheme \<Rightarrow> (u64 \<Rightarrow> efi_memory_descriptor) \<Rightarrow> boot_outcome \<times> ('d, 'f) boot_machine \<Rightarrow> bool" where
  "handed_over bs memory r \<longleftrightarrow>
     (\<forall>info. fst r = Enters info \<longrightarrow>
        (\<exists>mv f0 st. describes memory mv info
           \<and> ExitBootServices bs (mv_key mv) f0 = (st, fw_state (snd r)) \<and> \<not> EFI_ERROR st))"

text \<open>Fetching the map again changes nothing of the structure but the description of the map.\<close>

definition same_machine :: "boot_info \<Rightarrow> boot_info \<Rightarrow> bool" where
  "same_machine info info' \<longleftrightarrow> cpu_vendor info' = cpu_vendor info \<and> fb_base info' = fb_base info
     \<and> kernel_image_base info' = kernel_image_base info \<and> kernel_image_size info' = kernel_image_size info
     \<and> bootstrap_stack_base info' = bootstrap_stack_base info \<and> bootstrap_stack_size info' = bootstrap_stack_size info"

lemma same_machine_trans: "same_machine a b \<Longrightarrow> same_machine b c \<Longrightarrow> same_machine a c"
  by (simp add: same_machine_def)

lemma same_machine_update: "same_machine info (update_boot_info memory a n d v info)"
  by (simp add: same_machine_def update_boot_info_def Let_def split: prod.split)

lemma exit_boot_loop_handed_over:
  assumes ret: "exit_boot_loop bs memory mv info f = Some r"
  shows "describes memory mv info \<longrightarrow>
    handed_over bs memory r \<and> (\<forall>info'. fst r = Enters info' \<longrightarrow> same_machine info info')"
proof (rule exit_boot_loop.raw_induct
    [where P = "\<lambda>bs memory mv info m r. describes memory mv info \<longrightarrow>
       handed_over bs memory r \<and> (\<forall>info'. fst r = Enters info' \<longrightarrow> same_machine info info')",
     OF _ ret], goal_cases)
  case (1 loop bs memory mv info m r)
  obtain exit_status m1 where
    x: "on_fw (ExitBootServices bs (mv_key mv)) (boot_say ''Exiting UEFI Boot Services...'' [] m) = (exit_status, m1)"
    by (metis surj_pair)
  obtain status mv' m2 where g: "on_fw (get_memory_map bs mv)
      (boot_say ''ExitBootServices failed; reacquiring memory map...'' [] m1) = ((status, mv'), m2)"
    by (metis surj_pair)
  let ?info = "update_boot_info memory (mv_map mv') (mv_size mv') (mv_desc_size mv') (mv_desc_ver mv') info"
  let ?m = "refreshed_map mv' m2"
  have body: "(if \<not> EFI_ERROR exit_status then Some (Enters info, m1)
      else if EFI_ERROR status then Some (Halts, boot_say ''FATAL: could not reacquire memory map!'' [] m2)
      else if exit_status \<noteq> EFI_INVALID_PARAMETER then Some (Halts, boot_say ''FATAL: ExitBootServices failed!'' [] ?m)
      else loop bs memory mv' ?info ?m) = Some r"
    using "1"(2) by (simp only: x g prod.case Let_def)
  show ?case
  proof
    assume d: "describes memory mv info"
    consider "\<not> EFI_ERROR exit_status" "r = (Enters info, m1)" | "fst r = Halts"
      | "\<not> EFI_ERROR status" "loop bs memory mv' ?info ?m = Some r"
      using body
      by (cases "EFI_ERROR exit_status"; cases "EFI_ERROR status";
          cases "exit_status = EFI_INVALID_PARAMETER") auto
    then show "handed_over bs memory r \<and> (\<forall>info'. fst r = Enters info' \<longrightarrow> same_machine info info')"
    proof cases
      case 1
      then show ?thesis
        using on_fw_state [OF x] d by (auto simp: handed_over_def same_machine_def)
    next
      case 2
      then show ?thesis by (simp add: handed_over_def)
    next
      case 3
      have "describes memory mv' ?info"
        using get_memory_map_success [OF on_fw_state [OF g] 3(1)] d
        by (intro update_describes) (auto simp: describes_def)
      then show ?thesis
        using "1"(1) [OF 3(2)] same_machine_trans [OF same_machine_update] by blast
    qed
  qed
qed

text \<open>A firmware that rejects at most \<open>n\<close> keys lets the loop end.\<close>

lemma efi_error_codes:
  "EFI_ERROR EFI_OUT_OF_RESOURCES" "EFI_ERROR EFI_INVALID_PARAMETER" "EFI_ERROR EFI_NOT_FOUND"
  "EFI_ERROR EFI_BUFFER_TOO_SMALL" "\<not> EFI_ERROR EFI_SUCCESS"
  by (simp_all add: efi_status_defs)

section \<open>Properties\<close>

text \<open>
  C39: the memory totals of the handoff structure are the exact sums over all
  descriptors of the map, capped at the largest 64-bit number instead of wrapping,
  and the usable total never exceeds the overall total.
\<close>

theorem boot_memory_totals_saturate:
  assumes "mem_map \<noteq> 0" and "desc_size \<noteq> 0"
  shows "let info' = update_boot_info memory mem_map map_size desc_size desc_ver info;
             ds = map_entries memory mem_map map_size desc_size
         in unat (total_memory_bytes info')
              = min (2 ^ 64 - 1) (\<Sum>d\<leftarrow>ds. unat (md_NumberOfPages d) * 4096)
          \<and> unat (usable_memory_bytes info')
              = min (2 ^ 64 - 1) (\<Sum>d\<leftarrow>filter region_usable ds. unat (md_NumberOfPages d) * 4096)
          \<and> usable_memory_bytes info' \<le> total_memory_bytes info'"
proof -
  let ?ds = "map_entries memory mem_map map_size desc_size"
  have "(\<Sum>d\<leftarrow>filter region_usable ds. unat (md_NumberOfPages d) * 4096)
      \<le> (\<Sum>d\<leftarrow>ds. unat (md_NumberOfPages d) * 4096)" for ds
    by (induction ds) auto
  then show ?thesis
    using assms account_regions_sums [of 0 0 ?ds]
    by (simp add: update_boot_info_def Let_def split_beta word_le_nat_alt min.coboundedI2)
qed

definition sample_region :: "u64 \<Rightarrow> efi_memory_descriptor" where
  "sample_region a =
     \<lparr>md_Type = (if a = 0x5000 then 7 else 0), md_PhysicalStart = a, md_VirtualStart = 0,
      md_NumberOfPages = (if a = 0x5000 then 0xFFFFFFFFFFFFF else 16), md_Attribute = 0\<rparr>"

theorem boot_memory_totals_saturate_witness:
  "(0x5000 :: u64) \<noteq> 0 \<and> (48 :: u64) \<noteq> 0
   \<and> unat (total_memory_bytes (update_boot_info sample_region 0x5000 96 48 1 zero_boot_info))
       = 2 ^ 64 - 1"
proof -
  have "map_entries sample_region 0x5000 96 48 = [sample_region 0x5000, sample_region 0x5030]"
    by (simp add: map_entries_def upt_conv_Cons)
  then show ?thesis
    using boot_memory_totals_saturate [of "0x5000" "48" sample_region 96 1 zero_boot_info]
    by (simp add: Let_def sample_region_def)
qed


definition sample_firmware :: firmware where
  "sample_firmware = \<lparr>fw_live = [0x9000], fw_next = 0x5000, fw_need = 96, fw_key = 1, fw_rejects = 1,
     fw_gop = Some \<lparr>gop_FrameBufferBase = 0x80000000, gop_FrameBufferSize = 0x300000,
       gop_HorizontalResolution = 1024, gop_VerticalResolution = 768,
       gop_PixelFormat = PixelBlueGreenRedReserved8BitPerColor, gop_PixelsPerScanLine = 1024\<rparr>\<rparr>"

lemma sample_get_memory_map:
  "\<exists>mv. get_memory_map fw_services zero_map_vars sample_firmware
     = ((EFI_SUCCESS, mv), sample_firmware\<lparr>fw_live := [0x5000, 0x9000], fw_next := 0x6000\<rparr>)
   \<and> mv_map mv = 0x5000 \<and> mv_size mv = 96 \<and> mv_key mv = 1 \<and> mv_desc_size mv = 48
   \<and> mv_capacity mv = 145"
  by (simp add: get_memory_map.simps zero_map_vars_def sample_firmware_def fw_services_def
      efi_status_defs grown_capacity_def UINT64_MAX_def Let_def free_map_def)


text \<open>
  When the loader enters the kernel, the handoff structure carries the magic number and describes (address, size,
  stride and exact total) a memory map whose key \<^verbatim>\<open>ExitBootServices\<close> has just accepted: a map made stale by a failed
  attempt is never handed over.  The stack and the image it declares are the loader's.
\<close>

lemma efi_main_enters:
  fixes m m' :: "('d, 'f) boot_machine"
  assumes "efi_main bs hw cpuid memory main_addr stack_base g_boot_info m = Some (Enters info, m')"
  shows "handed_over bs memory (Enters info, m') \<and> bootstrap_stack_base info = stack_base
    \<and> bootstrap_stack_size info = kernel_stack_size \<and> kernel_image_base info = main_addr AND NOT 4095"
proof -
  obtain mv status2 info2 and m1 m2 m3 m4 :: "('d, 'f) boot_machine" where
    g: "on_fw (get_memory_map bs zero_map_vars) m1 = ((status2, mv), m2)" "\<not> EFI_ERROR status2"
    and loop: "exit_boot_loop bs memory mv (image_boot_info main_addr stack_base
        (update_boot_info memory (mv_map mv) (mv_size mv) (mv_desc_size mv) (mv_desc_ver mv) info2)) m3
      = Some (Enters info, m4)" and last: "fw_state m' = fw_state m4"
    using assms
    by (auto simp: efi_main_def Let_def bind_eq_Some_conv split: prod.splits option.splits if_splits)
  have "handed_over bs memory (Enters info, m4) \<and> (\<forall>info'. Enters info = Enters info' \<longrightarrow> same_machine (image_boot_info main_addr stack_base
        (update_boot_info memory (mv_map mv) (mv_size mv) (mv_desc_size mv) (mv_desc_ver mv) info2)) info')"
    using exit_boot_loop_handed_over [OF loop] describes_image get_memory_map_success [OF on_fw_state [OF g(1)] g(2)]
    by (metis fst_conv)
  then show ?thesis
    by (simp add: handed_over_def last same_machine_def image_boot_info_def)
qed

definition sample_cpuid :: cpuid_fn where
  "sample_cpuid leaf = (13, 0x756E6547, 0x6C65746E, 0x49656E69)"

text \<open>The sample firmware rejects the first key; the second attempt enters the kernel.\<close>

definition sample_boot :: "(unit, firmware) boot_machine" where
  "sample_boot = \<lparr>dev = (), trace = [], klog = [], serial_initialized = False, fw_state = sample_firmware\<rparr>"

definition quiet_hw :: "unit hw" where
  "quiet_hw = \<lparr>hw_inb = (\<lambda>_ d. (0, d)), hw_outb = (\<lambda>_ _ d. d), hw_inw = (\<lambda>_ d. (0, d)), hw_outw = (\<lambda>_ _ d. d)\<rparr>"

lemma fw_state_serial_init: "fw_state (snd (run_state (serial_init hw) (m :: ('d, 'f) boot_machine))) = fw_state m"
  by (simp add: serial_init_def run_simps split: prod.split)

lemma fw_state_boot_banner: "OutputString bs = None \<Longrightarrow> fw_state (boot_banner bs hw m) = fw_state m"
  by (simp add: boot_banner_def Let_def run_simps fw_state_serial_init)

lemma sample_efi_main_enters:
  "\<exists>info m'. efi_main fw_services quiet_hw sample_cpuid sample_region 0x401234 0x500000 zero_boot_info
     sample_boot = Some (Enters info, m') \<and> fw_rejects (fw_state m') = 0"
proof -
  have "fw_state (boot_banner fw_services quiet_hw sample_boot) = sample_firmware"
    by (subst fw_state_boot_banner) (simp_all add: fw_services_def sample_boot_def)
  then show ?thesis
    by (simp add: efi_main_def on_fw_def boot_messages)
      (simp add: get_memory_map.simps exit_boot_loop.simps zero_map_vars_def on_fw_def boot_messages
        sample_firmware_def fw_services_def efi_status_defs grown_capacity_def UINT64_MAX_def
        Let_def free_map_def)
qed

end
