(* ===== verification/Minos_Apic.thy ===== *)
theory Minos_Apic
  imports Minos_Boot
begin

text \<open>
  The interrupt controllers and the periodic timer of \<^verbatim>\<open>kernel/apic.c\<close>: the two legacy
  8259 controllers (masked at start, unmasked per line, acknowledged), the local APIC
  reached through memory-mapped registers and a model-specific register, the
  calibration of its timer against the PIT, and the timer interrupt.
\<close>

section \<open>The legacy interrupt controllers\<close>

definition pic_mask_all :: "'d hw \<Rightarrow> (('d, 'm) machine_scheme, unit) state" where
  "pic_mask_all hw = do {
     outb hw 0x20 0x11;
     io_wait hw;
     outb hw 0xA0 0x11;
     io_wait hw;
     outb hw 0x21 0x20;
     io_wait hw;
     outb hw 0xA1 0x28;
     io_wait hw;
     outb hw 0x21 0x04;
     io_wait hw;
     outb hw 0xA1 0x02;
     io_wait hw;
     outb hw 0x21 0x01;
     io_wait hw;
     outb hw 0xA1 0x01;
     io_wait hw;
     outb hw 0x21 0xFF;
     outb hw 0xA1 0xFF
   }"

definition pic_unmask_irq :: "'d hw \<Rightarrow> u8 \<Rightarrow> (('d, 'm) machine_scheme, unit) state" where
  "pic_unmask_irq hw irq =
     (if irq < 8 then do {
        v \<leftarrow> inb hw 0x21;
        outb hw 0x21 (v AND NOT (push_bit (unat irq) 1))
      }
      else if irq < 16 then do {
        v \<leftarrow> inb hw 0xA1;
        outb hw 0xA1 (v AND NOT (push_bit (unat (irq - 8)) 1))
      }
      else State_Monad.return ())"

definition pic_eoi :: "'d hw \<Rightarrow> u8 \<Rightarrow> (('d, 'm) machine_scheme, unit) state" where
  "pic_eoi hw irq = do {
     (if 8 \<le> irq then outb hw 0xA0 0x20 else State_Monad.return ());
     outb hw 0x20 0x20
   }"

section \<open>The local APIC\<close>

text \<open>
  The processor is a parameter beside the ports: \<^verbatim>\<open>cpuid\<close>, the two halves of a
  model-specific register, and 32-bit accesses to the APIC's registers, addressed by
  their offset from the mapped base.
\<close>

record 'd cpu_hw =
  cpu_ports :: "'d hw"
  cpu_cpuid :: cpuid_fn
  cpu_rdmsr :: "u32 \<Rightarrow> 'd \<Rightarrow> u32 \<times> u32"
  cpu_wrmsr :: "u32 \<Rightarrow> u32 \<Rightarrow> u32 \<Rightarrow> 'd \<Rightarrow> 'd"
  mmio_read :: "u64 \<Rightarrow> u32 \<Rightarrow> 'd \<Rightarrow> u32 \<times> 'd"
  mmio_write :: "u64 \<Rightarrow> u32 \<Rightarrow> u32 \<Rightarrow> 'd \<Rightarrow> 'd"

text \<open>The statics of the file, and the register writes made so far (ghost).\<close>

record 'd apic_machine = "'d machine" +
  lapic :: u64
  ticks :: u64
  tick_hz :: u32
  lapic_writes :: "(u32 \<times> u32) list"

definition APIC_BASE_MSR :: u32 where "APIC_BASE_MSR = 0x1B"
definition APIC_BASE_ENABLE :: u64 where "APIC_BASE_ENABLE = push_bit 11 1"
definition APIC_BASE_X2APIC :: u64 where "APIC_BASE_X2APIC = push_bit 10 1"
definition APIC_BASE_ADDRESS_MASK :: u64 where "APIC_BASE_ADDRESS_MASK = 0xFFFFFFFFFFFFF000"
definition APIC_ID :: u32 where "APIC_ID = 0x020"
definition APIC_EOI :: u32 where "APIC_EOI = 0x0B0"
definition APIC_SVR :: u32 where "APIC_SVR = 0x0F0"
definition APIC_LVT_TIMER :: u32 where "APIC_LVT_TIMER = 0x320"
definition APIC_TIMER_INITIAL :: u32 where "APIC_TIMER_INITIAL = 0x380"
definition APIC_TIMER_CURRENT :: u32 where "APIC_TIMER_CURRENT = 0x390"
definition APIC_TIMER_DIVIDE :: u32 where "APIC_TIMER_DIVIDE = 0x3E0"
definition APIC_SVR_ENABLE :: u32 where "APIC_SVR_ENABLE = 0x100"
definition APIC_TIMER_MASK :: u32 where "APIC_TIMER_MASK = 0x10000"
definition APIC_TIMER_PERIODIC :: u32 where "APIC_TIMER_PERIODIC = 0x20000"

lemmas apic_regs = APIC_ID_def APIC_EOI_def APIC_SVR_def APIC_LVT_TIMER_def APIC_TIMER_INITIAL_def
  APIC_TIMER_CURRENT_def APIC_TIMER_DIVIDE_def

definition rdmsr :: "'d cpu_hw \<Rightarrow> u32 \<Rightarrow> (('d, 'm) machine_scheme, u64) state" where
  "rdmsr cpu msr = State (\<lambda>m. case cpu_rdmsr cpu msr (dev m) of
     (lo, hi) \<Rightarrow> (push_bit 32 (ucast hi) OR ucast lo, m))"

definition wrmsr :: "'d cpu_hw \<Rightarrow> u32 \<Rightarrow> u64 \<Rightarrow> (('d, 'm) machine_scheme, unit) state" where
  "wrmsr cpu msr val =
     State (\<lambda>m. ((), m\<lparr>dev := cpu_wrmsr cpu msr (ucast val) (ucast (drop_bit 32 val)) (dev m)\<rparr>))"

definition lapic_read :: "'d cpu_hw \<Rightarrow> u32 \<Rightarrow> ('d apic_machine, u32) state" where
  "lapic_read cpu reg = State (\<lambda>m. case mmio_read cpu (lapic m) reg (dev m) of
     (v, d) \<Rightarrow> (v, m\<lparr>dev := d\<rparr>))"

definition lapic_write :: "'d cpu_hw \<Rightarrow> u32 \<Rightarrow> u32 \<Rightarrow> ('d apic_machine, unit) state" where
  "lapic_write cpu reg val = do {
     State (\<lambda>m. ((), m\<lparr>dev := mmio_write cpu (lapic m) reg val (dev m),
                        lapic_writes := lapic_writes m @ [(reg, val)]\<rparr>));
     _ \<leftarrow> lapic_read cpu APIC_ID;
     State_Monad.return ()
   }"

section \<open>Calibration and the timer\<close>

definition PIT_COMMAND :: u16 where "PIT_COMMAND = 0x43"
definition PIT_CHANNEL2 :: u16 where "PIT_CHANNEL2 = 0x42"
definition PIT_CONTROL :: u16 where "PIT_CONTROL = 0x61"

definition pit_done :: "'d hw \<Rightarrow> (('d, 'm) machine_scheme, bool) state" where
  "pit_done hw = do { v \<leftarrow> inb hw PIT_CONTROL; State_Monad.return (v AND 0x20 \<noteq> 0) }"

definition calibrate_apic :: "'d cpu_hw \<Rightarrow> ('d apic_machine, u32) state" where
  "calibrate_apic cpu = do {
     let pit_count = (11932 :: u16);
     control \<leftarrow> inb (cpu_ports cpu) PIT_CONTROL;
     lapic_write cpu APIC_TIMER_INITIAL 0xFFFFFFFF;
     outb (cpu_ports cpu) PIT_COMMAND 0xB0;
     outb (cpu_ports cpu) PIT_CHANNEL2 (ucast pit_count);
     outb (cpu_ports cpu) PIT_CHANNEL2 (ucast (drop_bit 8 pit_count));
     outb (cpu_ports cpu) PIT_CONTROL (control OR 1);
     guard \<leftarrow> poll (pit_done (cpu_ports cpu)) 20000000;
     current \<leftarrow> lapic_read cpu APIC_TIMER_CURRENT;
     let elapsed = 0xFFFFFFFF - current;
     outb (cpu_ports cpu) PIT_CONTROL control;
     State_Monad.return (if guard = 0 \<or> elapsed < 1000 then 0 else elapsed)
   }"

definition apic_eoi :: "'d cpu_hw \<Rightarrow> ('d apic_machine, unit) state" where
  "apic_eoi cpu = do {
     base \<leftarrow> State (\<lambda>m. (lapic m, m));
     (if base \<noteq> 0 then lapic_write cpu APIC_EOI 0 else State_Monad.return ())
   }"

definition timer_ticks :: "'d apic_machine \<Rightarrow> u64" where "timer_ticks m = ticks m"
definition timer_frequency :: "'d apic_machine \<Rightarrow> u32" where "timer_frequency m = tick_hz m"

text \<open>The remainder by a zero frequency is undefined (a divide error on this processor).\<close>

definition timer_irq :: "'d cpu_hw \<Rightarrow> 'd apic_machine \<Rightarrow> 'd apic_machine c_result" where
  "timer_irq cpu m =
     (let m1 = m\<lparr>ticks := ticks m + 1\<rparr>;
          m2 = snd (run_state (apic_eoi cpu) m1);
          m3 = (if ticks m2 = 1
                then snd (run_state (log_text (''[MinOS Timer] First periodic IRQ received (APIC vector 32).''
                       @ [CHR 0x0A])) m2)
                else m2)
      in if tick_hz m3 = 0 then None
         else Some (if ticks m3 mod ucast (tick_hz m3) = 0
                    then snd (run_state (log_fmt (''[MinOS Timer] ticks=%u frequency=%u Hz'' @ [CHR 0x0A])
                           [Num (ticks m3), Num (ucast (tick_hz m3))]) m3)
                    else m3))"

definition apic_timer_init :: "'d cpu_hw \<Rightarrow> u32 \<Rightarrow> ('d apic_machine, int) state" where
  "apic_timer_init cpu freq =
     (case cpu_cpuid cpu 0 of (max_leaf, _, _, _) \<Rightarrow>
      if max_leaf < 1 then State_Monad.return (-1)
      else case cpu_cpuid cpu 1 of (eax, ebx, ecx, edx) \<Rightarrow>
        if edx AND push_bit 9 1 = 0 \<or> ecx AND push_bit 21 1 \<noteq> 0 then State_Monad.return (-1)
        else do {
          base0 \<leftarrow> rdmsr cpu APIC_BASE_MSR;
          (if base0 AND APIC_BASE_ENABLE = 0
           then wrmsr cpu APIC_BASE_MSR (base0 OR APIC_BASE_ENABLE)
           else State_Monad.return ());
          base \<leftarrow> rdmsr cpu APIC_BASE_MSR;
          if base AND APIC_BASE_X2APIC \<noteq> 0 then State_Monad.return (-1)
          else do {
            State (\<lambda>m. ((), m\<lparr>lapic := base AND APIC_BASE_ADDRESS_MASK\<rparr>));
            pic_mask_all (cpu_ports cpu);
            svr \<leftarrow> lapic_read cpu APIC_SVR;
            lapic_write cpu APIC_SVR ((svr AND 0xFF) OR APIC_SVR_ENABLE);
            lapic_write cpu APIC_TIMER_DIVIDE 0x3;
            lapic_write cpu APIC_LVT_TIMER (32 OR APIC_TIMER_MASK);
            calibrated \<leftarrow> calibrate_apic cpu;
            if calibrated = 0 then State_Monad.return (-1)
            else do {
              let frequency = (if freq = 0 then 100 else freq);
              let initial0 = (ucast ((ucast calibrated * 100 :: u64) div ucast frequency) :: u32);
              let initial = (if initial0 = 0 then 1 else initial0);
              State (\<lambda>m. ((), m\<lparr>tick_hz := frequency, ticks := 0\<rparr>));
              lapic_write cpu APIC_TIMER_INITIAL initial;
              lapic_write cpu APIC_LVT_TIMER (32 OR APIC_TIMER_PERIODIC);
              m \<leftarrow> State (\<lambda>m. (m, m));
              log_fmt (''[MinOS APIC] xAPIC base=%p calibrated=%u ticks/sec, timer=%u Hz'' @ [CHR 0x0A])
                [Num (lapic m), Num (ucast calibrated * 100), Num (ucast (tick_hz m))];
              State_Monad.return 0
            }
          }
        })"

section \<open>What the operations write\<close>

lemma run_rdmsr [run_simps]:
  "run_state (rdmsr cpu msr) m
     = (push_bit 32 (ucast (snd (cpu_rdmsr cpu msr (dev m)))) OR ucast (fst (cpu_rdmsr cpu msr (dev m))), m)"
  by (simp add: rdmsr_def split_beta)

lemma run_wrmsr [run_simps]:
  "run_state (wrmsr cpu msr val) m
     = ((), m\<lparr>dev := cpu_wrmsr cpu msr (ucast val) (ucast (drop_bit 32 val)) (dev m)\<rparr>)"
  by (simp add: wrmsr_def)

lemma run_lapic_read [run_simps]:
  "run_state (lapic_read cpu reg) m =
     (fst (mmio_read cpu (lapic m) reg (dev m)), m\<lparr>dev := snd (mmio_read cpu (lapic m) reg (dev m))\<rparr>)"
  by (simp add: lapic_read_def split_beta)

lemma run_lapic_write [run_simps]:
  "run_state (lapic_write cpu reg val) m =
     ((), m\<lparr>dev := snd (mmio_read cpu (lapic m) APIC_ID (mmio_write cpu (lapic m) reg val (dev m))),
            lapic_writes := lapic_writes m @ [(reg, val)]\<rparr>)"
  by (simp add: lapic_write_def run_lapic_read)

lemma run_pic_mask_all:
  "\<exists>d. run_state (pic_mask_all hw) m =
     ((), m\<lparr>dev := d,
            trace := trace m @ [Out8 0x20 0x11, Out8 0x80 0, Out8 0xA0 0x11, Out8 0x80 0,
              Out8 0x21 0x20, Out8 0x80 0, Out8 0xA1 0x28, Out8 0x80 0, Out8 0x21 0x04, Out8 0x80 0,
              Out8 0xA1 0x02, Out8 0x80 0, Out8 0x21 0x01, Out8 0x80 0, Out8 0xA1 0x01, Out8 0x80 0,
              Out8 0x21 0xFF, Out8 0xA1 0xFF]\<rparr>)"
  by (simp add: pic_mask_all_def run_outb run_io_wait) (rule exI, rule refl)

lemma run_pic_eoi [run_simps]:
  "irq < 8 \<Longrightarrow> run_state (pic_eoi hw irq) m
     = ((), m\<lparr>dev := hw_outb hw 0x20 0x20 (dev m), trace := trace m @ [Out8 0x20 0x20]\<rparr>)"
  by (simp add: pic_eoi_def run_outb word_less_nat_alt word_le_nat_alt)

lemma poll_pit:
  "\<exists>g d es. run_state (poll (pit_done hw) n) m = (g, m\<lparr>dev := d, trace := trace m @ es\<rparr>)"
proof -
  have "only_reads 1 m (snd (run_state (pit_done hw) m))" for m :: "('a, 'b) machine_scheme"
    using only_reads_inb [of 0 m hw PIT_CONTROL] by (simp add: pit_done_def split_beta)
  from poll_only_reads [OF this, of n m] show ?thesis
    unfolding only_reads_def by (metis prod.collapse)
qed

text \<open>The APIC registers written from \<open>m\<close> to \<open>m'\<close>, with the driver's other statics unchanged.\<close>

definition apic_wrote :: "'d apic_machine \<Rightarrow> (u32 \<times> u32) list \<Rightarrow> 'd apic_machine \<Rightarrow> bool" where
  "apic_wrote m ws m' \<longleftrightarrow> lapic m' = lapic m \<and> ticks m' = ticks m \<and> tick_hz m' = tick_hz m
     \<and> lapic_writes m' = lapic_writes m @ ws"

lemma calibrate_spec:
  "\<exists>r m'. run_state (calibrate_apic cpu) m = (r, m') \<and> (r = 0 \<or> 1000 \<le> r)
     \<and> apic_wrote m [(APIC_TIMER_INITIAL, 0xFFFFFFFF)] m'"
proof -
  let ?p = "cpu_ports cpu"
  define m1 where "m1 = snd (run_state (do {
     control \<leftarrow> inb ?p PIT_CONTROL;
     lapic_write cpu APIC_TIMER_INITIAL 0xFFFFFFFF;
     outb ?p PIT_COMMAND 0xB0;
     outb ?p PIT_CHANNEL2 (ucast (11932 :: u16));
     outb ?p PIT_CHANNEL2 (ucast (drop_bit 8 (11932 :: u16)));
     outb ?p PIT_CONTROL (control OR 1) }) m)"
  obtain g d es where "run_state (poll (pit_done ?p) 20000000) m1 = (g, m1\<lparr>dev := d, trace := trace m1 @ es\<rparr>)"
    using poll_pit [of ?p 20000000 m1] by blast
  then show ?thesis
    unfolding calibrate_apic_def m1_def
    by (auto simp: run_simps apic_wrote_def Let_def not_less simp del: poll.simps)
qed

text \<open>The count of one period, and the driver's part after the checks of the processor.\<close>

definition timer_initial :: "u32 \<Rightarrow> u32 \<Rightarrow> u32" where
  "timer_initial calibrated frequency =
     (let i = (ucast ((ucast calibrated * 100 :: u64) div ucast frequency) :: u32)
      in if i = 0 then 1 else i)"

definition timer_wanted :: "u32 \<Rightarrow> u32" where
  "timer_wanted freq = (if freq = 0 then 100 else freq)"

lemma timer_initial_exact:
  assumes "100 \<le> frequency"
  shows "unat (timer_initial calibrated frequency)
    = max 1 (unat calibrated * 100 div unat frequency)"
proof -
  have c: "unat (ucast calibrated * 100 :: u64) = unat calibrated * 100"
    using unat_u32_bound [of calibrated] by (simp add: unat_word_ariths)
  have f: "100 \<le> unat frequency" using assms by (simp add: word_le_nat_alt)
  have "unat calibrated * 100 div unat frequency \<le> unat calibrated * unat frequency div unat frequency"
    by (rule div_le_mono) (use f in simp)
  then have le: "unat calibrated * 100 div unat frequency \<le> unat calibrated"
    using f by simp
  have "unat (ucast ((ucast calibrated * 100 :: u64) div ucast frequency) :: u32)
      = unat calibrated * 100 div unat frequency"
    using le unat_u32_bound [of calibrated] by (simp add: unat_ucast_mod unat_div c)
  then show ?thesis
    by (auto simp: timer_initial_def Let_def unat_eq_0 max_def) (metis unat_eq_0 One_nat_def Suc_leI gr0I)+
qed

lemma timer_initial_pos: "timer_initial calibrated frequency \<noteq> 0"
  by (simp add: timer_initial_def Let_def)

text \<open>
  Either the call fails and the driver's counters are as before, with no periodic
  interrupt programmed, or it succeeds with the timer programmed last.
\<close>

definition timer_outcome :: "u32 \<Rightarrow> 'd apic_machine \<Rightarrow> int \<times> 'd apic_machine \<Rightarrow> bool" where
  "timer_outcome freq m r \<longleftrightarrow>
     (fst r = -1 \<and> tick_hz (snd r) = tick_hz m \<and> ticks (snd r) = ticks m
        \<and> (\<exists>ws. lapic_writes (snd r) = lapic_writes m @ ws
             \<and> (APIC_LVT_TIMER, 32 OR APIC_TIMER_PERIODIC) \<notin> set ws))
     \<or> (\<exists>calibrated ws. fst r = 0 \<and> 1000 \<le> calibrated
        \<and> tick_hz (snd r) = timer_wanted freq \<and> ticks (snd r) = 0
        \<and> lapic_writes (snd r) = lapic_writes m @ ws
            @ [(APIC_TIMER_INITIAL, timer_initial calibrated (timer_wanted freq)),
               (APIC_LVT_TIMER, 32 OR APIC_TIMER_PERIODIC)])"

lemma timer_outcome_fail: "timer_outcome freq m (-1, m)"
  by (simp add: timer_outcome_def)

lemma apic_codes_distinct:
  "(APIC_LVT_TIMER, 32 OR APIC_TIMER_PERIODIC) \<noteq> (APIC_SVR, x)"
  "(APIC_LVT_TIMER, 32 OR APIC_TIMER_PERIODIC) \<noteq> (APIC_TIMER_DIVIDE, x)"
  "(APIC_LVT_TIMER, 32 OR APIC_TIMER_PERIODIC) \<noteq> (APIC_LVT_TIMER, 32 OR APIC_TIMER_MASK)"
  "(APIC_LVT_TIMER, 32 OR APIC_TIMER_PERIODIC) \<noteq> (APIC_TIMER_INITIAL, x)"
  by (simp_all add: apic_regs APIC_TIMER_PERIODIC_def APIC_TIMER_MASK_def)

text \<open>The second half of the function, from the masking of the legacy controllers on.\<close>

definition timer_setup :: "'d cpu_hw \<Rightarrow> u32 \<Rightarrow> ('d apic_machine, int) state" where
  "timer_setup cpu freq = do {
     pic_mask_all (cpu_ports cpu);
     svr \<leftarrow> lapic_read cpu APIC_SVR;
     lapic_write cpu APIC_SVR ((svr AND 0xFF) OR APIC_SVR_ENABLE);
     lapic_write cpu APIC_TIMER_DIVIDE 0x3;
     lapic_write cpu APIC_LVT_TIMER (32 OR APIC_TIMER_MASK);
     calibrated \<leftarrow> calibrate_apic cpu;
     if calibrated = 0 then State_Monad.return (-1)
     else do {
       State (\<lambda>m. ((), m\<lparr>tick_hz := timer_wanted freq, ticks := 0\<rparr>));
       lapic_write cpu APIC_TIMER_INITIAL (timer_initial calibrated (timer_wanted freq));
       lapic_write cpu APIC_LVT_TIMER (32 OR APIC_TIMER_PERIODIC);
       m \<leftarrow> State (\<lambda>m. (m, m));
       log_fmt (''[MinOS APIC] xAPIC base=%p calibrated=%u ticks/sec, timer=%u Hz'' @ [CHR 0x0A])
         [Num (lapic m), Num (ucast calibrated * 100), Num (ucast (tick_hz m))];
       State_Monad.return 0
     }
   }"

lemma timer_setup_outcome:
  "timer_outcome freq m (run_state (timer_setup cpu freq) m)"
proof -
  define m1 where "m1 = snd (run_state (do {
     pic_mask_all (cpu_ports cpu);
     svr \<leftarrow> lapic_read cpu APIC_SVR;
     lapic_write cpu APIC_SVR ((svr AND 0xFF) OR APIC_SVR_ENABLE);
     lapic_write cpu APIC_TIMER_DIVIDE 0x3;
     lapic_write cpu APIC_LVT_TIMER (32 OR APIC_TIMER_MASK) }) m)"
  obtain r m2 where cal: "run_state (calibrate_apic cpu) m1 = (r, m2)" "r = 0 \<or> 1000 \<le> r"
      "apic_wrote m1 [(APIC_TIMER_INITIAL, 0xFFFFFFFF)] m2"
    using calibrate_spec by blast
  obtain x where m1: "lapic_writes m1 = lapic_writes m
      @ [(APIC_SVR, x), (APIC_TIMER_DIVIDE, 3), (APIC_LVT_TIMER, 32 OR APIC_TIMER_MASK)]"
      "ticks m1 = ticks m" "tick_hz m1 = tick_hz m"
    using run_pic_mask_all [of "cpu_ports cpu" m] unfolding m1_def
    by (auto simp: run_lapic_write run_lapic_read)
  note m2 = cal(3) [unfolded apic_wrote_def m1]
  have step: "run_state (timer_setup cpu freq) m =
      (if r = 0 then (-1, m2)
       else (0, snd (run_state (do {
         State (\<lambda>m. ((), m\<lparr>tick_hz := timer_wanted freq, ticks := 0\<rparr>));
         lapic_write cpu APIC_TIMER_INITIAL (timer_initial r (timer_wanted freq));
         lapic_write cpu APIC_LVT_TIMER (32 OR APIC_TIMER_PERIODIC);
         m \<leftarrow> State (\<lambda>m. (m, m));
         log_fmt (''[MinOS APIC] xAPIC base=%p calibrated=%u ticks/sec, timer=%u Hz'' @ [CHR 0x0A])
           [Num (lapic m), Num (ucast r * 100), Num (ucast (tick_hz m))] }) m2)))"
    using cal(1) unfolding timer_setup_def m1_def by (simp add: split_beta)
  show ?thesis
  proof (cases "r = 0")
    case True
    then show ?thesis
      using m2 apic_codes_distinct by (auto simp: step timer_outcome_def)
  next
    case False
    then show ?thesis
      using m2 cal(2) unfolding step timer_outcome_def
      by (auto simp: run_lapic_write run_log_fmt intro!: exI [of _ r])
  qed
qed

lemma apic_timer_init_eq:
  "apic_timer_init cpu freq =
     (if fst (cpu_cpuid cpu 0) < 1 then State_Monad.return (-1)
      else case cpu_cpuid cpu 1 of (eax, ebx, ecx, edx) \<Rightarrow>
        if edx AND push_bit 9 1 = 0 \<or> ecx AND push_bit 21 1 \<noteq> 0 then State_Monad.return (-1)
        else do {
          base0 \<leftarrow> rdmsr cpu APIC_BASE_MSR;
          (if base0 AND APIC_BASE_ENABLE = 0
           then wrmsr cpu APIC_BASE_MSR (base0 OR APIC_BASE_ENABLE)
           else State_Monad.return ());
          base \<leftarrow> rdmsr cpu APIC_BASE_MSR;
          if base AND APIC_BASE_X2APIC \<noteq> 0 then State_Monad.return (-1)
          else do {
            State (\<lambda>m. ((), m\<lparr>lapic := base AND APIC_BASE_ADDRESS_MASK\<rparr>));
            timer_setup cpu freq
          }
        })"
  unfolding apic_timer_init_def timer_setup_def timer_wanted_def timer_initial_def Let_def
  by (simp add: split_beta)

lemma timer_outcome_dev:
  "timer_outcome freq (m\<lparr>dev := d\<rparr>) r = timer_outcome freq m r"
  "timer_outcome freq (m\<lparr>lapic := b\<rparr>) r = timer_outcome freq m r"
  by (simp_all add: timer_outcome_def)

lemma timer_init_outcome:
  "timer_outcome freq m (run_state (apic_timer_init cpu freq) m)"
proof -
  have prog: "timer_outcome freq m (run_state (timer_setup cpu freq) (m\<lparr>dev := d, lapic := b\<rparr>))"
      "timer_outcome freq m (run_state (timer_setup cpu freq) (m\<lparr>lapic := b\<rparr>))" for d b
    using timer_setup_outcome [of freq "m\<lparr>dev := d, lapic := b\<rparr>" cpu]
      timer_setup_outcome [of freq "m\<lparr>lapic := b\<rparr>" cpu] by (simp_all add: timer_outcome_dev)
  have fail: "timer_outcome freq m (-1, m\<lparr>dev := d\<rparr>)" for d
    by (simp add: timer_outcome_def)
  show ?thesis
    unfolding apic_timer_init_eq
    by (auto simp: run_rdmsr run_wrmsr split_beta timer_outcome_fail fail prog)
qed

section \<open>The timer interrupt\<close>

lemma apic_eoi_fields [simp]:
  "ticks (snd (run_state (apic_eoi cpu) m)) = ticks m"
  "tick_hz (snd (run_state (apic_eoi cpu) m)) = tick_hz m"
  "lapic (snd (run_state (apic_eoi cpu) m)) = lapic m"
  "lapic_writes (snd (run_state (apic_eoi cpu) m))
     = lapic_writes m @ (if lapic m = 0 then [] else [(APIC_EOI, 0)])"
  by (simp_all add: apic_eoi_def run_lapic_write)

lemma timer_irq_step:
  assumes "tick_hz m \<noteq> 0"
  shows "\<exists>m'. timer_irq cpu m = Some m' \<and> ticks m' = ticks m + 1 \<and> tick_hz m' = tick_hz m
    \<and> lapic m' = lapic m
    \<and> lapic_writes m' = lapic_writes m @ (if lapic m = 0 then [] else [(APIC_EOI, 0)])"
  using assms unfolding timer_irq_def Let_def by (simp add: run_log_text run_log_fmt)

fun timer_irqs :: "'d cpu_hw \<Rightarrow> nat \<Rightarrow> 'd apic_machine \<Rightarrow> 'd apic_machine c_result" where
  "timer_irqs cpu 0 m = Some m"
| "timer_irqs cpu (Suc n) m = do { m' \<leftarrow> timer_irq cpu m; timer_irqs cpu n m' }"

lemma timer_irqs_count:
  "tick_hz m \<noteq> 0 \<Longrightarrow> \<exists>m'. timer_irqs cpu n m = Some m' \<and> ticks m' = ticks m + of_nat n
     \<and> tick_hz m' = tick_hz m
     \<and> lapic_writes m' = lapic_writes m @ (if lapic m = 0 then [] else replicate n (APIC_EOI, 0))"
proof (induction n arbitrary: m)
  case 0
  then show ?case by simp
next
  case (Suc n)
  obtain m1 where m1: "timer_irq cpu m = Some m1" "ticks m1 = ticks m + 1" "tick_hz m1 = tick_hz m"
      "lapic m1 = lapic m"
      "lapic_writes m1 = lapic_writes m @ (if lapic m = 0 then [] else [(APIC_EOI, 0)])"
    using timer_irq_step [OF Suc.prems] by blast
  from Suc.IH [of m1] Suc.prems m1 show ?case
    by (auto simp: add.assoc)
qed

section \<open>Properties\<close>


text \<open>A processor and a PIT for the examples: a 10 ms count of 625000.\<close>

definition sample_cpu :: "unit cpu_hw" where
  "sample_cpu = \<lparr>cpu_ports = \<lparr>hw_inb = (\<lambda>p d. (0x20, d)), hw_outb = (\<lambda>p v d. d),
       hw_inw = (\<lambda>p d. (0, d)), hw_outw = (\<lambda>p v d. d)\<rparr>,
     cpu_cpuid = (\<lambda>leaf. if leaf = 0 then (1, 0, 0, 0) else (0, 0, 0, 0x200)),
     cpu_rdmsr = (\<lambda>r d. (0xFEE00900, 0)), cpu_wrmsr = (\<lambda>r lo hi d. d),
     mmio_read = (\<lambda>base reg d. (if reg = 0x390 then 0xFFFFFFFF - 625000 else 0, d)),
     mmio_write = (\<lambda>base reg v d. d)\<rparr>"

definition sample_apic :: "unit apic_machine" where
  "sample_apic = \<lparr>dev = (), trace = [], klog = [], serial_initialized = True,
     lapic = 0, ticks = 0, tick_hz = 0, lapic_writes = []\<rparr>"

lemma sample_timer_init:
  "\<exists>m0. run_state (apic_timer_init sample_cpu 100) sample_apic = (0, m0)"
proof -
  have pit: "run_state (poll (pit_done (cpu_ports sample_cpu)) 20000000) m
      = (20000000, snd (run_state (pit_done (cpu_ports sample_cpu)) m))" for m :: "unit apic_machine"
    by (rule poll_ready) (simp_all add: pit_done_def run_inb sample_cpu_def)
  have cal: "fst (run_state (calibrate_apic sample_cpu) m) = 625000" for m
    by (simp add: calibrate_apic_def run_simps pit Let_def split_beta del: poll.simps)
       (simp add: sample_cpu_def apic_regs)
  show ?thesis
    by (simp add: apic_timer_init_eq timer_setup_def run_rdmsr split_beta cal)
       (simp add: sample_cpu_def APIC_BASE_ENABLE_def APIC_BASE_X2APIC_def)
qed


text \<open>
  C37: after a successful \<^verbatim>\<open>apic_timer_init\<close> every timer interrupt returns (the remainder by
  the frequency is defined), counts one tick and acknowledges the local APIC exactly
  once; after \<open>n\<close> interrupts \<^verbatim>\<open>timer_ticks\<close> is \<open>n\<close>.
\<close>

theorem timer_irq_counts:
  assumes "run_state (apic_timer_init cpu freq) m = (0, m0)"
  shows "\<exists>m'. timer_irqs cpu n m0 = Some m' \<and> timer_ticks m' = of_nat n
    \<and> timer_frequency m' = timer_wanted freq
    \<and> lapic_writes m' = lapic_writes m0 @ (if lapic m0 = 0 then [] else replicate n (APIC_EOI, 0))"
proof -
  have "tick_hz m0 = timer_wanted freq" "ticks m0 = 0"
    using timer_init_outcome [of freq m cpu] assms by (auto simp: timer_outcome_def)
  moreover have "timer_wanted freq \<noteq> 0"
    by (simp add: timer_wanted_def)
  ultimately show ?thesis
    using timer_irqs_count [of m0 cpu n] by (auto simp: timer_ticks_def timer_frequency_def)
qed

theorem timer_irq_counts_witness:
  "\<exists>m0 m'. run_state (apic_timer_init sample_cpu 100) sample_apic = (0, m0)
     \<and> timer_irqs sample_cpu 3 m0 = Some m' \<and> timer_ticks m' = 3"
proof -
  obtain m0 where "run_state (apic_timer_init sample_cpu 100) sample_apic = (0, m0)"
    using sample_timer_init by blast
  from timer_irq_counts [OF this, of 3] this show ?thesis by auto
qed

text \<open>
  The check of bit 21 of ECX of leaf 1 (the processor supports x2APIC) rejects every
  such processor, also when its APIC runs in xAPIC mode: nothing is written and the
  call answers -1.
\<close>

lemma apic_rejects_x2apic_capable:
  assumes "bit (fst (snd (snd (cpu_cpuid cpu 1)))) 21"
  shows "run_state (apic_timer_init cpu freq) m = (-1, m)"
proof -
  have "fst (snd (snd (cpu_cpuid cpu 1))) AND push_bit 21 1 \<noteq> 0"
    using assms bit_iff_and_push_bit_not_eq_0 by blast
  then show ?thesis
    by (simp add: apic_timer_init_eq split_beta)
qed

lemma apic_rejects_x2apic_capable_witness:
  "run_state (apic_timer_init (sample_cpu\<lparr>cpu_cpuid := (\<lambda>leaf. (1, 0, 0x200000, 0x200))\<rparr>) 100) sample_apic
     = (-1, sample_apic)"
  by (rule apic_rejects_x2apic_capable) (simp add: bit_iff_odd)

end
