(* ===== verification/Minos_Input.thy ===== *)
theory Minos_Input
  imports Minos_Prelude
begin

text \<open>
  The input-event queue of \<^verbatim>\<open>kernel/input.c\<close> and \<^verbatim>\<open>kernel/input.h\<close>: the key
  enumeration, the event structure and the 64-slot ring buffer between the
  keyboard interrupt (producer) and the console (consumer).
\<close>

section \<open>Keys and events (input.h)\<close>

datatype input_key =
    INPUT_KEY_NONE
  | INPUT_KEY_A | INPUT_KEY_B | INPUT_KEY_C | INPUT_KEY_D | INPUT_KEY_E
  | INPUT_KEY_F | INPUT_KEY_G | INPUT_KEY_H | INPUT_KEY_I | INPUT_KEY_J
  | INPUT_KEY_K | INPUT_KEY_L | INPUT_KEY_M | INPUT_KEY_N | INPUT_KEY_O
  | INPUT_KEY_P | INPUT_KEY_Q | INPUT_KEY_R | INPUT_KEY_S | INPUT_KEY_T
  | INPUT_KEY_U | INPUT_KEY_V | INPUT_KEY_W | INPUT_KEY_X | INPUT_KEY_Y
  | INPUT_KEY_Z
  | INPUT_KEY_0 | INPUT_KEY_1 | INPUT_KEY_2 | INPUT_KEY_3 | INPUT_KEY_4
  | INPUT_KEY_5 | INPUT_KEY_6 | INPUT_KEY_7 | INPUT_KEY_8 | INPUT_KEY_9
  | INPUT_KEY_MINUS | INPUT_KEY_EQUALS | INPUT_KEY_LEFT_BRACKET
  | INPUT_KEY_RIGHT_BRACKET | INPUT_KEY_BACKSLASH | INPUT_KEY_SEMICOLON
  | INPUT_KEY_APOSTROPHE | INPUT_KEY_GRAVE | INPUT_KEY_COMMA
  | INPUT_KEY_PERIOD | INPUT_KEY_SLASH | INPUT_KEY_KP_STAR
  | INPUT_KEY_KP_MINUS | INPUT_KEY_KP_PLUS
  | INPUT_KEY_SPACE | INPUT_KEY_ENTER | INPUT_KEY_BACKSPACE | INPUT_KEY_TAB
  | INPUT_KEY_ESCAPE | INPUT_KEY_LEFT_SHIFT | INPUT_KEY_RIGHT_SHIFT
  | INPUT_KEY_LEFT_CTRL | INPUT_KEY_RIGHT_CTRL | INPUT_KEY_LEFT_ALT
  | INPUT_KEY_RIGHT_ALT | INPUT_KEY_CAPS_LOCK
  | INPUT_KEY_LEFT | INPUT_KEY_RIGHT | INPUT_KEY_UP | INPUT_KEY_DOWN

text \<open>The enumerators in declaration order; the C value of a key is its position.\<close>

definition input_keys :: "input_key list" where
  "input_keys =
    [INPUT_KEY_NONE,
     INPUT_KEY_A, INPUT_KEY_B, INPUT_KEY_C, INPUT_KEY_D, INPUT_KEY_E,
     INPUT_KEY_F, INPUT_KEY_G, INPUT_KEY_H, INPUT_KEY_I, INPUT_KEY_J,
     INPUT_KEY_K, INPUT_KEY_L, INPUT_KEY_M, INPUT_KEY_N, INPUT_KEY_O,
     INPUT_KEY_P, INPUT_KEY_Q, INPUT_KEY_R, INPUT_KEY_S, INPUT_KEY_T,
     INPUT_KEY_U, INPUT_KEY_V, INPUT_KEY_W, INPUT_KEY_X, INPUT_KEY_Y,
     INPUT_KEY_Z,
     INPUT_KEY_0, INPUT_KEY_1, INPUT_KEY_2, INPUT_KEY_3, INPUT_KEY_4,
     INPUT_KEY_5, INPUT_KEY_6, INPUT_KEY_7, INPUT_KEY_8, INPUT_KEY_9,
     INPUT_KEY_MINUS, INPUT_KEY_EQUALS, INPUT_KEY_LEFT_BRACKET,
     INPUT_KEY_RIGHT_BRACKET, INPUT_KEY_BACKSLASH, INPUT_KEY_SEMICOLON,
     INPUT_KEY_APOSTROPHE, INPUT_KEY_GRAVE, INPUT_KEY_COMMA,
     INPUT_KEY_PERIOD, INPUT_KEY_SLASH, INPUT_KEY_KP_STAR,
     INPUT_KEY_KP_MINUS, INPUT_KEY_KP_PLUS,
     INPUT_KEY_SPACE, INPUT_KEY_ENTER, INPUT_KEY_BACKSPACE, INPUT_KEY_TAB,
     INPUT_KEY_ESCAPE, INPUT_KEY_LEFT_SHIFT, INPUT_KEY_RIGHT_SHIFT,
     INPUT_KEY_LEFT_CTRL, INPUT_KEY_RIGHT_CTRL, INPUT_KEY_LEFT_ALT,
     INPUT_KEY_RIGHT_ALT, INPUT_KEY_CAPS_LOCK,
     INPUT_KEY_LEFT, INPUT_KEY_RIGHT, INPUT_KEY_UP, INPUT_KEY_DOWN]"

fun key_position :: "input_key list \<Rightarrow> input_key \<Rightarrow> nat" where
  "key_position [] k = 0"
| "key_position (x # xs) k = (if x = k then 0 else Suc (key_position xs k))"

definition key_id :: "input_key \<Rightarrow> nat" where
  "key_id k = key_position input_keys k"

lemma key_position_nth: "k \<in> set ks \<Longrightarrow> ks ! key_position ks k = k"
  by (induction ks) auto

lemma in_input_keys: "k \<in> set input_keys"
  by (cases k) (simp_all add: input_keys_def)

lemma input_keys_key_id [simp]: "input_keys ! key_id k = k"
  by (simp add: key_id_def key_position_nth in_input_keys)

lemma key_id_inject [simp]: "key_id k = key_id l \<longleftrightarrow> k = l"
  by (metis input_keys_key_id)

text \<open>C compares enumerators by their value, so the keys are linearly ordered.\<close>

instantiation input_key :: linorder
begin

definition less_eq_input_key :: "input_key \<Rightarrow> input_key \<Rightarrow> bool" where
  "less_eq_input_key k l \<longleftrightarrow> key_id k \<le> key_id l"

definition less_input_key :: "input_key \<Rightarrow> input_key \<Rightarrow> bool" where
  "less_input_key k l \<longleftrightarrow> key_id k < key_id l"

instance
proof
  fix k l m :: input_key
  show "k < l \<longleftrightarrow> k \<le> l \<and> \<not> l \<le> k"
    by (auto simp: less_eq_input_key_def less_input_key_def)
  show "k \<le> k"
    by (simp add: less_eq_input_key_def)
  show "k \<le> l \<Longrightarrow> l \<le> m \<Longrightarrow> k \<le> m"
    by (simp add: less_eq_input_key_def)
  show "k \<le> l \<Longrightarrow> l \<le> k \<Longrightarrow> k = l"
    by (simp add: less_eq_input_key_def)
  show "k \<le> l \<or> l \<le> k"
    by (auto simp: less_eq_input_key_def)
qed

end

definition INPUT_MOD_SHIFT :: u8 where "INPUT_MOD_SHIFT = push_bit 0 1"
definition INPUT_MOD_CTRL :: u8 where "INPUT_MOD_CTRL = push_bit 1 1"
definition INPUT_MOD_ALT :: u8 where "INPUT_MOD_ALT = push_bit 2 1"
definition INPUT_MOD_CAPS :: u8 where "INPUT_MOD_CAPS = push_bit 3 1"

record input_event =
  ev_key :: input_key
  ev_pressed :: u8
  ev_modifiers :: u8
  ev_character :: char

section \<open>The ring buffer (input.c)\<close>

definition INPUT_QUEUE_SIZE :: nat where "INPUT_QUEUE_SIZE = 64"

record input_state =
  queue :: "input_event list"
  read_index :: u32
  write_index :: u32

definition input_init :: "input_state \<Rightarrow> input_state" where
  "input_init s = s\<lparr>read_index := 0, write_index := 0\<rparr>"

text \<open>The argument is a pointer: \<^term>\<open>None\<close> is the null pointer.\<close>

definition input_push :: "input_event option \<Rightarrow> input_state \<Rightarrow> int \<times> input_state" where
  "input_push event s =
     (case event of
        None \<Rightarrow> (-1, s)
      | Some e \<Rightarrow>
          let nxt = (write_index s + 1) mod 64 in
          if nxt = read_index s then (-1, s)
          else (0, s\<lparr>queue := (queue s)[unat (write_index s) := e], write_index := nxt\<rparr>))"

text \<open>
  The out-parameter is passed as its pointee (\<^term>\<open>None\<close> for a null pointer) and
  returned with the status.
\<close>

definition input_pop ::
    "input_event option \<Rightarrow> input_state \<Rightarrow> (int \<times> input_event option) \<times> input_state" where
  "input_pop event s =
     (if event = None \<or> read_index s = write_index s then ((-1, event), s)
      else ((0, Some (queue s ! unat (read_index s))),
            s\<lparr>read_index := (read_index s + 1) mod 64\<rparr>))"

section \<open>Bounded queues: the interface\<close>

text \<open>
  What the keyboard driver and the console rely on: a queue of at most \<open>cap\<close>
  events that answers 0 and appends while there is room, answers -1 and changes
  nothing when full, and hands the events out in the order they came in.
\<close>

locale bounded_fifo =
  fixes push :: "'e \<Rightarrow> 'q \<Rightarrow> int \<times> 'q"
    and pop :: "'q \<Rightarrow> 'e option \<times> 'q"
    and pending :: "'q \<Rightarrow> 'e list"
    and inv :: "'q \<Rightarrow> bool"
    and cap :: nat
  assumes push_room: "inv q \<Longrightarrow> length (pending q) < cap \<Longrightarrow>
      \<exists>q'. push e q = (0, q') \<and> inv q' \<and> pending q' = pending q @ [e]"
    and push_full: "inv q \<Longrightarrow> cap \<le> length (pending q) \<Longrightarrow> push e q = (-1, q)"
    and pop_empty: "inv q \<Longrightarrow> pending q = [] \<Longrightarrow> pop q = (None, q)"
    and pop_next: "inv q \<Longrightarrow> pending q = e # es \<Longrightarrow>
      \<exists>q'. pop q = (Some e, q') \<and> inv q' \<and> pending q' = es"
    and pending_bound: "inv q \<Longrightarrow> length (pending q) \<le> cap"

datatype 'e queue_op = Push 'e | Pop

datatype 'e queue_obs = Pushed int | Popped "'e option"

fun queue_run ::
    "('e \<Rightarrow> 'q \<Rightarrow> int \<times> 'q) \<Rightarrow> ('q \<Rightarrow> 'e option \<times> 'q) \<Rightarrow> 'e queue_op list \<Rightarrow> 'q
      \<Rightarrow> 'e queue_obs list \<times> 'q" where
  "queue_run psh pp [] q = ([], q)"
| "queue_run psh pp (Push e # ops) q =
     (let (rc, q') = psh e q; (obs, q'') = queue_run psh pp ops q' in (Pushed rc # obs, q''))"
| "queue_run psh pp (Pop # ops) q =
     (let (r, q') = pp q; (obs, q'') = queue_run psh pp ops q' in (Popped r # obs, q''))"

text \<open>The same operations on a plain list: the specification of the queue.\<close>

definition list_push :: "nat \<Rightarrow> 'e \<Rightarrow> 'e list \<Rightarrow> int \<times> 'e list" where
  "list_push cap e es = (if length es < cap then (0, es @ [e]) else (-1, es))"

fun list_pop :: "'e list \<Rightarrow> 'e option \<times> 'e list" where
  "list_pop [] = (None, [])"
| "list_pop (e # es) = (Some e, es)"

context bounded_fifo
begin

lemma push_refines:
  assumes "inv q"
  shows "fst (push e q) = fst (list_push cap e (pending q))"
    and "pending (snd (push e q)) = snd (list_push cap e (pending q))"
    and "inv (snd (push e q))"
proof -
  consider q' where "length (pending q) < cap" "push e q = (0, q')" "inv q'"
      "pending q' = pending q @ [e]"
    | "cap \<le> length (pending q)" "push e q = (-1, q)"
    using push_room [OF assms, of e] push_full [OF assms, of e] by fastforce
  then show "fst (push e q) = fst (list_push cap e (pending q))"
    and "pending (snd (push e q)) = snd (list_push cap e (pending q))"
    and "inv (snd (push e q))"
    using assms by (cases; simp add: list_push_def)+
qed

lemma pop_refines:
  assumes "inv q"
  shows "fst (pop q) = fst (list_pop (pending q))"
    and "pending (snd (pop q)) = snd (list_pop (pending q))"
    and "inv (snd (pop q))"
  using pop_empty [OF assms] pop_next [OF assms] assms
  by (cases "pending q"; fastforce)+

lemma run_refines:
  assumes "inv q"
  shows "fst (queue_run push pop ops q) = fst (queue_run (list_push cap) list_pop ops (pending q))
    \<and> pending (snd (queue_run push pop ops q))
        = snd (queue_run (list_push cap) list_pop ops (pending q))
    \<and> inv (snd (queue_run push pop ops q))"
  using assms
proof (induction ops arbitrary: q)
  case Nil
  then show ?case by simp
next
  case (Cons a ops)
  show ?case
  proof (cases a)
    case (Push e)
    then show ?thesis
      using Cons.IH [OF push_refines(3), OF Cons.prems, of e] push_refines(1,2) [OF Cons.prems, of e]
      by (auto simp: split_beta Let_def)
  next
    case Pop
    then show ?thesis
      using Cons.IH [OF pop_refines(3), OF Cons.prems] pop_refines(1,2) [OF Cons.prems]
      by (auto simp: split_beta Let_def)
  qed
qed

lemma run_pending_bound: "inv q \<Longrightarrow> length (pending (snd (queue_run push pop ops q))) \<le> cap"
  using run_refines [of q ops] pending_bound by blast

end

section \<open>The ring buffer implements the interface\<close>

definition input_inv :: "input_state \<Rightarrow> bool" where
  "input_inv s \<longleftrightarrow> length (queue s) = INPUT_QUEUE_SIZE
     \<and> unat (read_index s) < INPUT_QUEUE_SIZE \<and> unat (write_index s) < INPUT_QUEUE_SIZE"

definition input_count :: "input_state \<Rightarrow> nat" where
  "input_count s = (unat (write_index s) + 64 - unat (read_index s)) mod 64"

definition input_pending :: "input_state \<Rightarrow> input_event list" where
  "input_pending s =
     map (\<lambda>i. queue s ! ((unat (read_index s) + i) mod 64)) [0..<input_count s]"

text \<open>The caller's local event before \<^verbatim>\<open>input_pop\<close> fills it.\<close>

definition blank_event :: input_event where
  "blank_event = \<lparr>ev_key = INPUT_KEY_NONE, ev_pressed = 0, ev_modifiers = 0, ev_character = CHR 0x00\<rparr>"

definition input_pop_event :: "input_state \<Rightarrow> input_event option \<times> input_state" where
  "input_pop_event s =
     (case input_pop (Some blank_event) s of
        ((rc, ev), s') \<Rightarrow> (if rc = 0 then ev else None, s'))"

lemma unat_next_index: "unat w < 64 \<Longrightarrow> unat ((w + 1) mod 64 :: u32) = Suc (unat w) mod 64"
  by (simp add: unat_mod unat_word_ariths)

lemma next_index_eq_iff:
  assumes "unat w < 64" and "unat r < 64"
  shows "(w + 1) mod 64 = (r :: u32) \<longleftrightarrow> Suc (unat w) mod 64 = unat r"
  using assms by (simp add: word_unat_eq_iff unat_next_index)

text \<open>Index arithmetic modulo the size of the ring, with the wrap-around written out.\<close>

lemma ring_dist:
  assumes "(w :: nat) < 64" and "r < 64"
  shows "(w + 64 - r) mod 64 = (if r \<le> w then w - r else w + 64 - r)"
proof (cases "r \<le> w")
  case True
  then have "w + 64 - r = (w - r) + 64" by simp
  then show ?thesis using True assms by (simp only: mod_add_self2) simp
next
  case False
  then show ?thesis using assms by simp
qed

lemma ring_add:
  assumes "(r :: nat) < 64" and "i < 64"
  shows "(r + i) mod 64 = (if r + i < 64 then r + i else r + i - 64)"
  using assms by (simp add: le_mod_geq)

lemma ring_succ: "(w :: nat) < 64 \<Longrightarrow> Suc w mod 64 = (if w = 63 then 0 else Suc w)"
  by simp

lemma ring_full_iff:
  assumes "(w :: nat) < 64" and "r < 64"
  shows "Suc w mod 64 = r \<longleftrightarrow> (w + 64 - r) mod 64 = 63"
  unfolding ring_dist [OF assms] ring_succ [OF assms(1)] using assms by auto

lemma ring_count_push:
  assumes "(w :: nat) < 64" and "r < 64" and "Suc w mod 64 \<noteq> r"
  shows "(Suc w mod 64 + 64 - r) mod 64 = Suc ((w + 64 - r) mod 64)"
proof -
  have "Suc w mod 64 < 64" by simp
  from ring_dist [OF this assms(2)] show ?thesis
    unfolding ring_dist [OF assms(1,2)] using assms by (auto simp: ring_succ split: if_splits)
qed

lemma ring_count_pop:
  assumes "(w :: nat) < 64" and "r < 64" and "w \<noteq> r"
  shows "(w + 64 - r) mod 64 = Suc ((w + 64 - Suc r mod 64) mod 64)"
proof -
  have "Suc r mod 64 < 64" by simp
  from ring_dist [OF assms(1) this] show ?thesis
    unfolding ring_dist [OF assms(1,2)] using assms by (auto simp: ring_succ split: if_splits)
qed

lemma ring_slot_write:
  assumes "(w :: nat) < 64" and "r < 64"
  shows "(r + (w + 64 - r) mod 64) mod 64 = w"
  unfolding ring_dist [OF assms] using assms by auto

lemma ring_slot_other:
  assumes "(w :: nat) < 64" and "r < 64" and "i < (w + 64 - r) mod 64"
  shows "(r + i) mod 64 \<noteq> w"
proof -
  have "i < (if r \<le> w then w - r else w + 64 - r)"
    using assms(3) ring_dist [OF assms(1,2)] by simp
  moreover have "i < 64"
    using assms(3) by (rule order.strict_trans) simp
  ultimately show ?thesis
    using assms(1,2) by (auto simp: ring_add split: if_splits)
qed

lemma input_pending_push:
  assumes inv: "input_inv s" and room: "Suc (unat (write_index s)) mod 64 \<noteq> unat (read_index s)"
  shows "input_pending (s\<lparr>queue := (queue s)[unat (write_index s) := e],
           write_index := (write_index s + 1) mod 64\<rparr>) = input_pending s @ [e]"
proof -
  let ?w = "unat (write_index s)" and ?r = "unat (read_index s)"
  have wr: "?w < 64" "?r < 64" and len: "length (queue s) = 64"
    using inv by (auto simp: input_inv_def INPUT_QUEUE_SIZE_def)
  have count: "(Suc ?w mod 64 + 64 - ?r) mod 64 = Suc ((?w + 64 - ?r) mod 64)"
    using ring_count_push [OF wr room] .
  have old: "(queue s)[?w := e] ! ((?r + i) mod 64) = queue s ! ((?r + i) mod 64)"
    if "i < (?w + 64 - ?r) mod 64" for i
    using ring_slot_other [OF wr that] by simp
  have new: "(queue s)[?w := e] ! ((?r + (?w + 64 - ?r) mod 64) mod 64) = e"
    using ring_slot_write [OF wr] wr len by simp
  show ?thesis
    using old new
    by (simp add: input_pending_def input_count_def unat_next_index [OF wr(1)] count)
qed

lemma input_pending_pop:
  assumes inv: "input_inv s" and ne: "read_index s \<noteq> write_index s"
  shows "input_pending s = queue s ! unat (read_index s)
           # input_pending (s\<lparr>read_index := (read_index s + 1) mod 64\<rparr>)"
proof -
  let ?w = "unat (write_index s)" and ?r = "unat (read_index s)"
  have wr: "?w < 64" "?r < 64" and ne': "?w \<noteq> ?r"
    using inv ne by (auto simp: input_inv_def INPUT_QUEUE_SIZE_def word_unat_eq_iff)
  have "[0..<Suc n] = 0 # map Suc [0..<n]" for n
    by (simp add: map_Suc_upt upt_conv_Cons del: upt_Suc)
  moreover have "(?r + Suc i) mod 64 = (Suc ?r mod 64 + i) mod 64" for i
    by (simp add: mod_add_left_eq)
  ultimately show ?thesis
    using ring_count_pop [OF wr ne'] wr
    by (simp add: input_pending_def input_count_def unat_next_index [OF wr(2)]
        del: upt_Suc)
qed

lemma input_pending_length: "length (input_pending s) = input_count s"
  by (simp add: input_pending_def)

lemma input_count_full_iff:
  assumes "input_inv s"
  shows "(write_index s + 1) mod 64 = read_index s \<longleftrightarrow> input_count s = 63"
  using assms
  by (simp add: input_inv_def INPUT_QUEUE_SIZE_def input_count_def next_index_eq_iff ring_full_iff)

lemma input_count_bound: "input_count s \<le> 63"
  by (simp add: input_count_def less_Suc_eq_le [symmetric])

lemma input_count_zero_iff:
  assumes "input_inv s"
  shows "input_count s = 0 \<longleftrightarrow> read_index s = write_index s"
proof -
  have "unat (write_index s) < 64" "unat (read_index s) < 64"
    using assms by (auto simp: input_inv_def INPUT_QUEUE_SIZE_def)
  then have "input_count s = 0 \<longleftrightarrow> unat (read_index s) = unat (write_index s)"
    by (auto simp: input_count_def ring_dist)
  then show ?thesis
    by (simp add: word_unat_eq_iff)
qed

lemma input_inv_init [inv_intros]: "length (queue s) = 64 \<Longrightarrow> input_inv (input_init s)"
  by (simp add: input_inv_def input_init_def INPUT_QUEUE_SIZE_def)

lemma input_inv_push [inv_intros]: "input_inv s \<Longrightarrow> input_inv (snd (input_push ev s))"
  by (auto simp: input_inv_def input_push_def INPUT_QUEUE_SIZE_def unat_next_index Let_def
      split: option.split)

lemma input_inv_pop [inv_intros]: "input_inv s \<Longrightarrow> input_inv (snd (input_pop ev s))"
  by (auto simp: input_inv_def input_pop_def INPUT_QUEUE_SIZE_def unat_next_index)

interpretation input_fifo: bounded_fifo
  "\<lambda>e. input_push (Some e)" input_pop_event input_pending input_inv 63
proof
  fix q :: input_state and e :: input_event and es
  assume inv: "input_inv q"
  show "\<exists>q'. input_push (Some e) q = (0, q') \<and> input_inv q' \<and> input_pending q' = input_pending q @ [e]"
    if "length (input_pending q) < 63"
  proof -
    have room: "(write_index q + 1) mod 64 \<noteq> read_index q"
      using that input_count_full_iff [OF inv] by (simp add: input_pending_length)
    then have "Suc (unat (write_index q)) mod 64 \<noteq> unat (read_index q)"
      using inv by (simp add: next_index_eq_iff input_inv_def INPUT_QUEUE_SIZE_def)
    with room show ?thesis
      using input_pending_push [OF inv, of e] input_inv_push [OF inv, of "Some e"]
      by (simp add: input_push_def)
  qed
  show "input_push (Some e) q = (-1, q)" if "63 \<le> length (input_pending q)"
    using that input_count_full_iff [OF inv] input_count_bound [of q]
    by (simp add: input_push_def input_pending_length)
  show "input_pop_event q = (None, q)" if "input_pending q = []"
    using that input_count_zero_iff [OF inv] input_pending_length [of q]
    by (simp add: input_pop_event_def input_pop_def)
  show "\<exists>q'. input_pop_event q = (Some e, q') \<and> input_inv q' \<and> input_pending q' = es"
    if "input_pending q = e # es"
  proof -
    have ne: "read_index q \<noteq> write_index q"
      using that input_count_zero_iff [OF inv] input_pending_length [of q] by auto
    then show ?thesis
      using input_pending_pop [OF inv ne] input_inv_pop [OF inv, of "Some blank_event"] that
      by (simp add: input_pop_event_def input_pop_def)
  qed
  show "length (input_pending q) \<le> 63"
    by (simp add: input_pending_length input_count_bound)
qed

section \<open>The producer interrupts the consumer\<close>

text \<open>
  \<^verbatim>\<open>input_push\<close> runs inside the keyboard interrupt (through an interrupt gate, so
  with interrupts off), while \<^verbatim>\<open>input_pop\<close> runs in the main loop with
  interrupts on.  The consumer's three accesses are therefore separate steps
  between which a push may happen: the test of the indices, the copy of the
  slot, the store of the new read index.  The ghost fields record the events
  that were accepted (status 0) and the events that were handed out.
\<close>

datatype pop_pc = At_test | At_copy | At_advance input_event

record shared_queue =
  sq :: input_state
  pc :: pop_pc
  accepted :: "input_event list"
  delivered :: "input_event list"

inductive queue_step :: "shared_queue \<Rightarrow> shared_queue \<Rightarrow> bool" where
  irq_accepts: "input_push (Some e) (sq s) = (0, q') \<Longrightarrow>
     queue_step s (s\<lparr>sq := q', accepted := accepted s @ [e]\<rparr>)"
| irq_drops: "input_push (Some e) (sq s) = (-1, q') \<Longrightarrow> queue_step s (s\<lparr>sq := q'\<rparr>)"
| test_empty: "pc s = At_test \<Longrightarrow> read_index (sq s) = write_index (sq s) \<Longrightarrow> queue_step s s"
| test_ready: "pc s = At_test \<Longrightarrow> read_index (sq s) \<noteq> write_index (sq s) \<Longrightarrow>
     queue_step s (s\<lparr>pc := At_copy\<rparr>)"
| copy_slot: "pc s = At_copy \<Longrightarrow>
     queue_step s (s\<lparr>pc := At_advance (queue (sq s) ! unat (read_index (sq s)))\<rparr>)"
| advance: "pc s = At_advance e \<Longrightarrow>
     queue_step s (s\<lparr>sq := (sq s)\<lparr>read_index := (read_index (sq s) + 1) mod 64\<rparr>,
       pc := At_test, delivered := delivered s @ [e]\<rparr>)"

inductive queue_reachable :: "shared_queue \<Rightarrow> bool" where
  start: "length (queue q) = 64 \<Longrightarrow>
     queue_reachable \<lparr>sq = input_init q, pc = At_test, accepted = [], delivered = []\<rparr>"
| step: "queue_reachable s \<Longrightarrow> queue_step s t \<Longrightarrow> queue_reachable t"

definition pc_inv :: "pop_pc \<Rightarrow> input_event list \<Rightarrow> bool" where
  "pc_inv p es =
     (case p of
        At_test \<Rightarrow> True
      | At_copy \<Rightarrow> es \<noteq> []
      | At_advance e \<Rightarrow> es \<noteq> [] \<and> hd es = e)"

definition shared_inv :: "shared_queue \<Rightarrow> bool" where
  "shared_inv s \<longleftrightarrow> input_inv (sq s) \<and> accepted s = delivered s @ input_pending (sq s)
     \<and> pc_inv (pc s) (input_pending (sq s))"

lemma pc_inv_append: "pc_inv p es \<Longrightarrow> pc_inv p (es @ fs)"
  by (auto simp: pc_inv_def split: pop_pc.splits)

lemma push_acceptedD:
  assumes "input_inv q" and "input_push (Some e) q = (0, q')"
  shows "input_inv q'" and "input_pending q' = input_pending q @ [e]"
  using input_fifo.push_refines [OF assms(1), of e] assms(2)
  by (auto simp: list_push_def split: if_splits)

lemma push_droppedD: "input_push (Some e) q = (-1, q') \<Longrightarrow> q' = q"
  by (auto simp: input_push_def Let_def split: if_splits)

lemma pending_nonempty_iff: "input_inv q \<Longrightarrow> input_pending q \<noteq> [] \<longleftrightarrow> read_index q \<noteq> write_index q"
  using input_count_zero_iff [of q] input_pending_length [of q] by auto

lemma shared_inv_step:
  assumes "queue_step s t" and "shared_inv s"
  shows "shared_inv t"
  using assms
proof (induction rule: queue_step.induct)
  case (irq_accepts e s q')
  then show ?case
    by (auto simp: shared_inv_def push_acceptedD intro: pc_inv_append)
next
  case (irq_drops e s q')
  then show ?case
    by (auto simp: shared_inv_def dest: push_droppedD)
next
  case (test_empty s)
  then show ?case by simp
next
  case (test_ready s)
  then show ?case
    by (auto simp: shared_inv_def pc_inv_def pending_nonempty_iff)
next
  case (copy_slot s)
  then have "read_index (sq s) \<noteq> write_index (sq s)"
    using pending_nonempty_iff [of "sq s"] by (auto simp: shared_inv_def pc_inv_def)
  with copy_slot show ?case
    using input_pending_pop [of "sq s"] by (simp add: shared_inv_def pc_inv_def)
next
  case (advance s e)
  then have "read_index (sq s) \<noteq> write_index (sq s)"
    using pending_nonempty_iff [of "sq s"] by (auto simp: shared_inv_def pc_inv_def)
  with advance show ?case
    using input_pending_pop [of "sq s"] input_inv_pop [of "sq s" "Some e"]
    by (simp add: shared_inv_def pc_inv_def input_pop_def)
qed

lemma shared_inv_reachable: "queue_reachable s \<Longrightarrow> shared_inv s"
proof (induction rule: queue_reachable.induct)
  case (start q)
  then show ?case
    by (simp add: shared_inv_def pc_inv_def input_inv_init)
      (simp add: input_init_def input_pending_def input_count_def)
next
  case (step s t)
  then show ?case by (blast intro: shared_inv_step)
qed

section \<open>Properties\<close>

text \<open>
  C3: the ring buffer refines a plain list of at most 63 events: for every
  sequence of pushes and pops, every status and every event handed out is the
  one the list gives, and the pending events are the list.
\<close>

theorem input_queue_refines_list:
  assumes "input_inv s"
  shows "fst (queue_run (\<lambda>e. input_push (Some e)) input_pop_event ops s)
           = fst (queue_run (list_push 63) list_pop ops (input_pending s))
       \<and> input_pending (snd (queue_run (\<lambda>e. input_push (Some e)) input_pop_event ops s))
           = snd (queue_run (list_push 63) list_pop ops (input_pending s))"
  using input_fifo.run_refines [OF assms] by blast

text \<open>A run of three operations on a freshly initialised queue, for the witness.\<close>

definition sample_queue :: input_state where
  "sample_queue = input_init \<lparr>queue = replicate 64 blank_event, read_index = 7, write_index = 9\<rparr>"

lemma sample_queue_inv: "input_inv sample_queue"
  by (simp add: sample_queue_def input_inv_init)

theorem input_queue_refines_list_witness:
  "input_inv sample_queue
   \<and> fst (queue_run (\<lambda>e. input_push (Some e)) input_pop_event [Push blank_event, Pop, Pop] sample_queue)
     = [Pushed 0, Popped (Some blank_event), Popped None]"
proof -
  have "input_pending sample_queue = []"
    by (simp add: sample_queue_def input_init_def input_pending_def input_count_def)
  then show ?thesis
    using input_queue_refines_list [OF sample_queue_inv, of "[Push blank_event, Pop, Pop]"]
    by (simp add: sample_queue_inv list_push_def)
qed

text \<open>
  C18: no interleaving of the keyboard interrupt with the three accesses of
  \<^verbatim>\<open>input_pop\<close> loses, repeats or reorders an event: in every reachable state the
  accepted events are the delivered ones followed by the pending ones, and the
  queue never holds more than 63.
\<close>

theorem input_queue_interrupt_safe:
  assumes "queue_reachable s"
  shows "accepted s = delivered s @ input_pending (sq s) \<and> length (input_pending (sq s)) \<le> 63"
  using shared_inv_reachable [OF assms]
  by (simp add: shared_inv_def input_pending_length input_count_bound)

theorem input_queue_interrupt_safe_witness:
  "\<exists>s. queue_reachable s \<and> pc s = At_copy \<and> accepted s = [blank_event]
     \<and> input_pending (sq s) = [blank_event]"
proof -
  let ?q = "\<lparr>queue = replicate 64 blank_event, read_index = 7, write_index = 9\<rparr>"
  let ?s0 = "\<lparr>sq = input_init ?q, pc = At_test, accepted = [], delivered = []\<rparr>"
  let ?q1 = "(input_init ?q)\<lparr>queue := (queue ?q)[0 := blank_event], write_index := 1\<rparr>"
  let ?s1 = "?s0\<lparr>sq := ?q1, accepted := [blank_event]\<rparr>"
  let ?s2 = "?s1\<lparr>pc := At_copy\<rparr>"
  have "input_push (Some blank_event) (input_init ?q) = (0, ?q1)"
    by (simp add: input_push_def input_init_def)
  then have "queue_step ?s0 ?s1"
    using irq_accepts [of blank_event ?s0 ?q1] by simp
  then have r1: "queue_reachable ?s1"
    using queue_reachable.step [OF queue_reachable.start [of ?q]] by simp
  have "queue_step ?s1 ?s2"
    using test_ready [of ?s1] by (simp add: input_init_def)
  then have r2: "queue_reachable ?s2"
    by (rule queue_reachable.step [OF r1])
  show ?thesis
    using input_queue_interrupt_safe [OF r2] r2 by (intro exI [of _ ?s2]) simp
qed

end
