(* ===== verification/Minos_Keyboard.thy ===== *)
theory Minos_Keyboard
  imports Minos_Apic Minos_Input
begin

text \<open>
  The PS/2 keyboard driver of \<^verbatim>\<open>kernel/keyboard.c\<close>: the bounded waits on the 8042
  controller, the decoder from set-1 scancodes to keys and characters, the interrupt
  handler that feeds the input queue, and the initialisation of controller and
  keyboard.  A C \<^verbatim>\<open>char\<close> that is 0 (no character) is \<^term>\<open>CHR 0x00\<close>.
\<close>

section \<open>Controller access\<close>

definition KBD_DATA :: u16 where "KBD_DATA = 0x60"
definition KBD_STATUS :: u16 where "KBD_STATUS = 0x64"
definition KBD_COMMAND :: u16 where "KBD_COMMAND = 0x64"
definition KBD_STATUS_OBF :: u8 where "KBD_STATUS_OBF = 0x01"
definition KBD_STATUS_IBF :: u8 where "KBD_STATUS_IBF = 0x02"
definition KBD_CMD_DISABLE1 :: u8 where "KBD_CMD_DISABLE1 = 0xAD"
definition KBD_CMD_DISABLE2 :: u8 where "KBD_CMD_DISABLE2 = 0xA7"
definition KBD_CMD_ENABLE1 :: u8 where "KBD_CMD_ENABLE1 = 0xAE"
definition KBD_CMD_READ_CONFIG :: u8 where "KBD_CMD_READ_CONFIG = 0x20"
definition KBD_CMD_WRITE_CONFIG :: u8 where "KBD_CMD_WRITE_CONFIG = 0x60"
definition KBD_CMD_SELF_TEST :: u8 where "KBD_CMD_SELF_TEST = 0xAA"

lemmas kbd_ports = KBD_DATA_def KBD_STATUS_def KBD_COMMAND_def

text \<open>The statics of the driver and the queue it feeds.\<close>

record 'd kbd_machine = "'d machine" +
  modifiers :: u8
  extended :: u8
  input :: input_state

definition input_clear :: "'d hw \<Rightarrow> (('d, 'm) machine_scheme, bool) state" where
  "input_clear hw = do { v \<leftarrow> inb hw KBD_STATUS; State_Monad.return (v AND KBD_STATUS_IBF = 0) }"

definition output_full :: "'d hw \<Rightarrow> (('d, 'm) machine_scheme, bool) state" where
  "output_full hw = do { v \<leftarrow> inb hw KBD_STATUS; State_Monad.return (v AND KBD_STATUS_OBF \<noteq> 0) }"

definition wait_input_clear :: "'d hw \<Rightarrow> (('d, 'm) machine_scheme, bool) state" where
  "wait_input_clear hw = do {
     timeout \<leftarrow> poll (input_clear hw) 100000;
     State_Monad.return (timeout \<noteq> 0)
   }"

definition wait_output_full :: "'d hw \<Rightarrow> (('d, 'm) machine_scheme, bool) state" where
  "wait_output_full hw = do {
     timeout \<leftarrow> poll (output_full hw) 100000;
     State_Monad.return (timeout \<noteq> 0)
   }"

definition controller_command :: "'d hw \<Rightarrow> u8 \<Rightarrow> (('d, 'm) machine_scheme, int) state" where
  "controller_command hw command = do {
     ok \<leftarrow> wait_input_clear hw;
     if \<not> ok then State_Monad.return (-1)
     else do { outb hw KBD_COMMAND command; State_Monad.return 0 }
   }"

definition keyboard_command :: "'d hw \<Rightarrow> u8 \<Rightarrow> (('d, 'm) machine_scheme, int) state" where
  "keyboard_command hw command = do {
     ok \<leftarrow> wait_input_clear hw;
     if \<not> ok then State_Monad.return (-1)
     else do { outb hw KBD_DATA command; State_Monad.return 0 }
   }"

section \<open>Scancodes\<close>

definition normal_keys :: "(u8 \<times> input_key) list" where
  "normal_keys =
    [(0x01, INPUT_KEY_ESCAPE), (0x02, INPUT_KEY_1), (0x03, INPUT_KEY_2),
     (0x04, INPUT_KEY_3), (0x05, INPUT_KEY_4), (0x06, INPUT_KEY_5),
     (0x07, INPUT_KEY_6), (0x08, INPUT_KEY_7), (0x09, INPUT_KEY_8),
     (0x0A, INPUT_KEY_9), (0x0B, INPUT_KEY_0), (0x0E, INPUT_KEY_BACKSPACE),
     (0x0C, INPUT_KEY_MINUS), (0x0D, INPUT_KEY_EQUALS),
     (0x0F, INPUT_KEY_TAB), (0x1C, INPUT_KEY_ENTER), (0x39, INPUT_KEY_SPACE),
     (0x1A, INPUT_KEY_LEFT_BRACKET), (0x1B, INPUT_KEY_RIGHT_BRACKET),
     (0x27, INPUT_KEY_SEMICOLON), (0x28, INPUT_KEY_APOSTROPHE),
     (0x29, INPUT_KEY_GRAVE), (0x2B, INPUT_KEY_BACKSLASH),
     (0x33, INPUT_KEY_COMMA), (0x34, INPUT_KEY_PERIOD),
     (0x35, INPUT_KEY_SLASH), (0x37, INPUT_KEY_KP_STAR),
     (0x4A, INPUT_KEY_KP_MINUS), (0x4E, INPUT_KEY_KP_PLUS),
     (0x3A, INPUT_KEY_CAPS_LOCK),
     (0x1E, INPUT_KEY_A), (0x30, INPUT_KEY_B), (0x2E, INPUT_KEY_C),
     (0x20, INPUT_KEY_D), (0x12, INPUT_KEY_E), (0x21, INPUT_KEY_F),
     (0x22, INPUT_KEY_G), (0x23, INPUT_KEY_H), (0x17, INPUT_KEY_I),
     (0x24, INPUT_KEY_J), (0x25, INPUT_KEY_K), (0x26, INPUT_KEY_L),
     (0x32, INPUT_KEY_M), (0x31, INPUT_KEY_N), (0x18, INPUT_KEY_O),
     (0x19, INPUT_KEY_P), (0x10, INPUT_KEY_Q), (0x13, INPUT_KEY_R),
     (0x1F, INPUT_KEY_S), (0x14, INPUT_KEY_T), (0x16, INPUT_KEY_U),
     (0x2F, INPUT_KEY_V), (0x11, INPUT_KEY_W), (0x2D, INPUT_KEY_X),
     (0x15, INPUT_KEY_Y), (0x2C, INPUT_KEY_Z)]"

text \<open>Entries of the table without an initialiser are 0, which is \<^term>\<open>INPUT_KEY_NONE\<close>.\<close>

definition key_for_scancode :: "u8 \<Rightarrow> input_key" where
  "key_for_scancode code =
     (if 0x4F \<le> code then INPUT_KEY_NONE
      else case map_of normal_keys code of Some k \<Rightarrow> k | None \<Rightarrow> INPUT_KEY_NONE)"

definition extended_key :: "u8 \<Rightarrow> input_key" where
  "extended_key code =
     (if code = 0x4B then INPUT_KEY_LEFT
      else if code = 0x4D then INPUT_KEY_RIGHT
      else if code = 0x48 then INPUT_KEY_UP
      else if code = 0x50 then INPUT_KEY_DOWN
      else if code = 0x1D then INPUT_KEY_RIGHT_CTRL
      else if code = 0x38 then INPUT_KEY_RIGHT_ALT
      else INPUT_KEY_NONE)"

definition key_character :: "input_key \<Rightarrow> char" where
  "key_character key =
     (if INPUT_KEY_A \<le> key \<and> key \<le> INPUT_KEY_Z then char_of (97 + (key_id key - key_id INPUT_KEY_A))
      else if INPUT_KEY_0 \<le> key \<and> key \<le> INPUT_KEY_9 then char_of (48 + (key_id key - key_id INPUT_KEY_0))
      else if key = INPUT_KEY_SPACE then CHR '' ''
      else if key = INPUT_KEY_ENTER then CHR 0x0A
      else if key = INPUT_KEY_TAB then CHR 0x09
      else if key = INPUT_KEY_BACKSPACE then CHR 0x08
      else if key = INPUT_KEY_MINUS then CHR ''-''
      else if key = INPUT_KEY_EQUALS then CHR ''=''
      else if key = INPUT_KEY_LEFT_BRACKET then CHR ''[''
      else if key = INPUT_KEY_RIGHT_BRACKET then CHR '']''
      else if key = INPUT_KEY_BACKSLASH then CHR 0x5C
      else if key = INPUT_KEY_SEMICOLON then CHR '';''
      else if key = INPUT_KEY_APOSTROPHE then CHR 0x27
      else if key = INPUT_KEY_GRAVE then CHR 0x60
      else if key = INPUT_KEY_COMMA then CHR '',''
      else if key = INPUT_KEY_PERIOD then CHR ''.''
      else if key = INPUT_KEY_SLASH then CHR ''/''
      else if key = INPUT_KEY_KP_STAR then CHR ''*''
      else if key = INPUT_KEY_KP_MINUS then CHR ''-''
      else if key = INPUT_KEY_KP_PLUS then CHR ''+''
      else CHR 0x00)"

definition number_shifted :: string where "number_shifted = ''!@#$%^&*()''"

definition scancode_character :: "u8 \<Rightarrow> bool \<Rightarrow> char" where
  "scancode_character code shift =
     (if 0x02 \<le> code \<and> code \<le> 0x0B then
        (if shift then number_shifted ! unat (code - 0x02)
         else if code = 0x0B then CHR ''0'' else char_of (49 + unat (code - 0x02)))
      else if 0x0C \<le> code \<and> code \<le> 0x0D then
        (if shift then (if code = 0x0C then CHR ''_'' else CHR ''+'')
         else (if code = 0x0C then CHR ''-'' else CHR ''=''))
      else if code = 0x1A then (if shift then CHR ''{'' else CHR ''['')
      else if code = 0x1B then (if shift then CHR ''}'' else CHR '']'')
      else if code = 0x27 then (if shift then CHR '':'' else CHR '';'')
      else if code = 0x28 then (if shift then CHR 0x22 else CHR 0x27)
      else if code = 0x29 then (if shift then CHR ''~'' else CHR 0x60)
      else if code = 0x2B then (if shift then CHR ''|'' else CHR 0x5C)
      else if code = 0x33 then (if shift then CHR ''<'' else CHR '','')
      else if code = 0x34 then (if shift then CHR ''>'' else CHR ''.'')
      else if code = 0x35 then (if shift then CHR ''?'' else CHR ''/'')
      else CHR 0x00)"

section \<open>The interrupt handler\<close>

definition push_key_event :: "input_key \<Rightarrow> u8 \<Rightarrow> 'd kbd_machine \<Rightarrow> 'd kbd_machine" where
  "push_key_event key pressed m =
     m\<lparr>input := snd (input_push (Some \<lparr>ev_key = key, ev_pressed = pressed, ev_modifiers = modifiers m,
         ev_character = CHR 0x00\<rparr>) (input m))\<rparr>"

text \<open>
  The last branch of the handler as a function of the code, the prefix flag and the
  modifiers: the event it builds and the modifiers it leaves.
\<close>

definition upcase :: "char \<Rightarrow> char" where
  "upcase c = (if (97 :: nat) \<le> of_char c \<and> (of_char c :: nat) \<le> 122 then char_of (of_char c - (32 :: nat)) else c)"

definition decode_key :: "u8 \<Rightarrow> bool \<Rightarrow> bool \<Rightarrow> u8 \<Rightarrow> input_event \<times> u8" where
  "decode_key code ext released mods =
     (let key = (if ext then extended_key code else key_for_scancode code);
          pressed = (if released then 0 else 1 :: u8);
          c0 = (if pressed \<noteq> 0 then key_character key else CHR 0x00);
          mods' = (if key = INPUT_KEY_CAPS_LOCK \<and> pressed \<noteq> 0 then mods XOR INPUT_MOD_CAPS else mods);
          c1 = (if pressed \<noteq> 0 \<and> \<not> ext then
                  let symbol = scancode_character code (mods' AND INPUT_MOD_SHIFT \<noteq> 0)
                  in if symbol \<noteq> CHR 0x00 then symbol else c0
                else c0);
          c2 = (if (mods' AND INPUT_MOD_SHIFT \<noteq> 0) \<noteq> (mods' AND INPUT_MOD_CAPS \<noteq> 0) then upcase c1 else c1)
      in (\<lparr>ev_key = key, ev_pressed = pressed, ev_modifiers = mods, ev_character = c2\<rparr>, mods'))"

definition set_modifier :: "u8 \<Rightarrow> bool \<Rightarrow> u8 \<Rightarrow> u8" where
  "set_modifier bits released mods = (if released then mods AND NOT bits else mods OR bits)"

text \<open>What the handler does with a code that is not a prefix byte.\<close>

definition handle_code :: "u8 \<Rightarrow> 'd kbd_machine \<Rightarrow> 'd kbd_machine" where
  "handle_code byte m =
     (let released = byte AND 0x80 \<noteq> 0; code = byte AND 0x7F; ext = extended m \<noteq> 0;
          pressed = (if released then 0 else 1)
      in if \<not> ext \<and> (code = 0x2A \<or> code = 0x36) then
           push_key_event (if code = 0x2A then INPUT_KEY_LEFT_SHIFT else INPUT_KEY_RIGHT_SHIFT) pressed
             (m\<lparr>modifiers := set_modifier INPUT_MOD_SHIFT released (modifiers m)\<rparr>)
         else if code = 0x1D then
           push_key_event (if ext then INPUT_KEY_RIGHT_CTRL else INPUT_KEY_LEFT_CTRL) pressed
             (m\<lparr>modifiers := set_modifier INPUT_MOD_CTRL released (modifiers m)\<rparr>)
         else if code = 0x38 then
           push_key_event (if ext then INPUT_KEY_RIGHT_ALT else INPUT_KEY_LEFT_ALT) pressed
             (m\<lparr>modifiers := set_modifier INPUT_MOD_ALT released (modifiers m)\<rparr>)
         else (case decode_key code ext released (modifiers m) of (event, mods') \<Rightarrow>
           let m1 = m\<lparr>modifiers := mods'\<rparr>;
               m2 = (if ev_key event \<noteq> INPUT_KEY_NONE
                     then m1\<lparr>input := snd (input_push (Some event) (input m1))\<rparr> else m1)
           in if ev_pressed event \<noteq> 0
              then snd (run_state (log_fmt (''[MinOS Keyboard] key_id=%u char=%x queued'' @ [CHR 0x0A])
                     [Num (of_nat (key_id (ev_key event))), Num (of_char (ev_character event))]) m2)
              else m2))"

definition keyboard_irq :: "'d hw \<Rightarrow> ('d kbd_machine, unit) state" where
  "keyboard_irq hw = do {
     status \<leftarrow> inb hw KBD_STATUS;
     if status AND KBD_STATUS_OBF = 0 then pic_eoi hw 1
     else do {
       code \<leftarrow> inb hw KBD_DATA;
       if code = 0xE0 then do {
         State (\<lambda>m. ((), m\<lparr>extended := 1\<rparr>));
         pic_eoi hw 1
       }
       else if code = 0xE1 then do {
         State (\<lambda>m. ((), m\<lparr>extended := 0\<rparr>));
         pic_eoi hw 1
       }
       else do {
         State (\<lambda>m. ((), handle_code code m));
         State (\<lambda>m. ((), m\<lparr>extended := 0\<rparr>));
         pic_eoi hw 1
       }
     }
   }"

section \<open>Initialisation\<close>

text \<open>The loop that empties the output buffer has no bound.\<close>

partial_function (option) drain_output :: "'d hw \<Rightarrow> 'd kbd_machine \<Rightarrow> 'd kbd_machine c_result" where
  "drain_output hw m =
     (case run_state (output_full hw) m of
        (full, m1) \<Rightarrow> if full then drain_output hw (snd (run_state (inb hw KBD_DATA) m1)) else Some m1)"

text \<open>The part after the buffer is empty; \<^verbatim>\<open>a || b\<close> evaluates \<open>b\<close> only when \<open>a\<close> is 0.\<close>

definition keyboard_setup :: "'d hw \<Rightarrow> ('d kbd_machine, int) state" where
  "keyboard_setup hw = do {
     rc \<leftarrow> controller_command hw KBD_CMD_SELF_TEST;
     if rc \<noteq> 0 then State_Monad.return (-1) else do {
     full \<leftarrow> wait_output_full hw;
     if \<not> full then State_Monad.return (-1) else do {
     v \<leftarrow> inb hw KBD_DATA;
     if v \<noteq> 0x55 then State_Monad.return (-1) else do {
     rc \<leftarrow> controller_command hw KBD_CMD_READ_CONFIG;
     if rc \<noteq> 0 then State_Monad.return (-1) else do {
     full \<leftarrow> wait_output_full hw;
     if \<not> full then State_Monad.return (-1) else do {
     config0 \<leftarrow> inb hw KBD_DATA;
     let config = (config0 OR 0x01) OR 0x40;
     rc \<leftarrow> controller_command hw KBD_CMD_WRITE_CONFIG;
     if rc \<noteq> 0 then State_Monad.return (-1) else do {
     ok \<leftarrow> wait_input_clear hw;
     if \<not> ok then State_Monad.return (-1) else do {
     outb hw KBD_DATA config;
     rc \<leftarrow> keyboard_command hw 0xFF;
     if rc \<noteq> 0 then State_Monad.return (-1) else do {
     full \<leftarrow> wait_output_full hw;
     if \<not> full then State_Monad.return (-1) else do {
     v \<leftarrow> inb hw KBD_DATA;
     if v \<noteq> 0xFA then State_Monad.return (-1) else do {
     full \<leftarrow> wait_output_full hw;
     if \<not> full then State_Monad.return (-1) else do {
     v \<leftarrow> inb hw KBD_DATA;
     if v \<noteq> 0xAA then State_Monad.return (-1) else do {
     rc \<leftarrow> controller_command hw KBD_CMD_ENABLE1;
     if rc \<noteq> 0 then State_Monad.return (-1) else do {
     pic_unmask_irq hw 1;
     log_text (''[MinOS Keyboard] PS/2 controller ready; IRQ1 vector 33 enabled.'' @ [CHR 0x0A]);
     State_Monad.return 0 }}}}}}}}}}}}} }"

definition keyboard_init :: "'d hw \<Rightarrow> 'd kbd_machine \<Rightarrow> (int \<times> 'd kbd_machine) c_result" where
  "keyboard_init hw m =
     (let m0 = m\<lparr>modifiers := 0, extended := 0, input := input_init (input m)\<rparr>
      in case run_state (controller_command hw KBD_CMD_DISABLE1) m0 of (rc1, m1) \<Rightarrow>
         if rc1 \<noteq> 0 then Some (-1, m1)
         else case run_state (controller_command hw KBD_CMD_DISABLE2) m1 of (rc2, m2) \<Rightarrow>
           if rc2 \<noteq> 0 then Some (-1, m2)
           else do {
             m3 \<leftarrow> drain_output hw m2;
             Some (run_state (keyboard_setup hw) m3)
           })"

section \<open>The handler as a decoder\<close>

text \<open>
  One byte from the keyboard as a transition on the prefix flag and the modifiers that
  may emit an event.
\<close>

definition kbd_step :: "u8 \<Rightarrow> u8 \<times> u8 \<Rightarrow> input_event option \<times> u8 \<times> u8" where
  "kbd_step byte st =
     (case st of (ext, mods) \<Rightarrow>
      if byte = 0xE0 then (None, 1, mods)
      else if byte = 0xE1 then (None, 0, mods)
      else let released = byte AND 0x80 \<noteq> 0; code = byte AND 0x7F; x = ext \<noteq> 0;
               key_event = (\<lambda>k ms. Some \<lparr>ev_key = k, ev_pressed = (if released then 0 else 1),
                              ev_modifiers = ms, ev_character = CHR 0x00\<rparr>)
           in if \<not> x \<and> (code = 0x2A \<or> code = 0x36) then
                let ms = set_modifier INPUT_MOD_SHIFT released mods
                in (key_event (if code = 0x2A then INPUT_KEY_LEFT_SHIFT else INPUT_KEY_RIGHT_SHIFT) ms, 0, ms)
              else if code = 0x1D then
                let ms = set_modifier INPUT_MOD_CTRL released mods
                in (key_event (if x then INPUT_KEY_RIGHT_CTRL else INPUT_KEY_LEFT_CTRL) ms, 0, ms)
              else if code = 0x38 then
                let ms = set_modifier INPUT_MOD_ALT released mods
                in (key_event (if x then INPUT_KEY_RIGHT_ALT else INPUT_KEY_LEFT_ALT) ms, 0, ms)
              else (case decode_key code x released mods of (event, ms) \<Rightarrow>
                (if ev_key event \<noteq> INPUT_KEY_NONE then Some event else None, 0, ms)))"

definition push_opt :: "input_event option \<Rightarrow> input_state \<Rightarrow> input_state" where
  "push_opt eo q = (case eo of None \<Rightarrow> q | Some e \<Rightarrow> snd (input_push (Some e) q))"

lemma handle_code_step:
  assumes "b \<noteq> 0xE0" and "b \<noteq> 0xE1" and k: "kbd_step b (extended m, modifiers m) = (eo, x, mods)"
  shows "x = 0 \<and> modifiers (handle_code b m) = mods
    \<and> input (handle_code b m) = push_opt eo (input m)"
proof -
  let ?code = "b AND 0x7F"
  consider (shift) "extended m = 0" "?code = 0x2A \<or> ?code = 0x36"
    | (ctrl) "\<not> (extended m = 0 \<and> (?code = 0x2A \<or> ?code = 0x36))" "?code = 0x1D"
    | (alt) "\<not> (extended m = 0 \<and> (?code = 0x2A \<or> ?code = 0x36))" "?code \<noteq> 0x1D" "?code = 0x38"
    | (key) "\<not> (extended m = 0 \<and> (?code = 0x2A \<or> ?code = 0x36))" "?code \<noteq> 0x1D" "?code \<noteq> 0x38"
    by blast
  then show ?thesis
  proof cases
    case key
    obtain ev ms where d: "decode_key ?code (extended m \<noteq> 0) (b AND 0x80 \<noteq> 0) (modifiers m) = (ev, ms)"
      by (cases "decode_key ?code (extended m \<noteq> 0) (b AND 0x80 \<noteq> 0) (modifiers m)")
    have "eo = (if ev_key ev \<noteq> INPUT_KEY_NONE then Some ev else None)" "x = 0" "mods = ms"
      using k assms(1,2) key d by (simp_all add: kbd_step_def Let_def)
    then show ?thesis
      using key d
      by (cases "extended m = 0") (simp_all add: handle_code_def Let_def push_opt_def run_log_fmt)
  qed (use k assms(1,2) in \<open>auto simp: kbd_step_def handle_code_def push_key_event_def push_opt_def Let_def\<close>)
qed

lemma handle_code_io [simp]:
  "dev (handle_code b m) = dev m" "trace (handle_code b m) = trace m"
  "serial_initialized (handle_code b m) = serial_initialized m"
  unfolding handle_code_def push_key_event_def Let_def
  by (simp_all add: run_log_fmt split: prod.split)

text \<open>A keyboard that has the given bytes to deliver.\<close>

definition script_inb :: "u16 \<Rightarrow> u8 list \<Rightarrow> u8 \<times> u8 list" where
  "script_inb p bs =
     (if p = KBD_STATUS then (if bs = [] then 0 else 1, bs)
      else if p = KBD_DATA then (if bs = [] then (0, []) else (hd bs, tl bs))
      else (0xFF, bs))"

definition script_hw :: "u8 list hw" where
  "script_hw = \<lparr>hw_inb = script_inb, hw_outb = (\<lambda>p v bs. bs),
     hw_inw = (\<lambda>p bs. (0xFFFF, bs)), hw_outw = (\<lambda>p v bs. bs)\<rparr>"

fun kbd_irqs :: "'d hw \<Rightarrow> nat \<Rightarrow> 'd kbd_machine \<Rightarrow> 'd kbd_machine" where
  "kbd_irqs hw 0 m = m"
| "kbd_irqs hw (Suc n) m = kbd_irqs hw n (snd (run_state (keyboard_irq hw) m))"

lemma script_reads:
  "fst (hw_inb script_hw KBD_STATUS (c # cs)) AND KBD_STATUS_OBF \<noteq> 0"
  "snd (hw_inb script_hw KBD_STATUS (c # cs)) = c # cs"
  "hw_inb script_hw KBD_DATA (c # cs) = (c, cs)" "hw_outb script_hw p v d = d"
  by (simp_all add: script_hw_def script_inb_def kbd_ports KBD_STATUS_OBF_def)

lemma keyboard_irq_script:
  assumes "dev m = b # bs"
  defines "m' \<equiv> snd (run_state (keyboard_irq script_hw) m)"
  shows "dev m' = bs \<and> outputs (trace m') = outputs (trace m) @ [Out8 0x20 0x20]
    \<and> (case kbd_step b (extended m, modifiers m) of (eo, x, mods) \<Rightarrow>
         extended m' = x \<and> modifiers m' = mods \<and> input m' = push_opt eo (input m))"
proof -
  note st = script_reads
  consider "b = 0xE0" | "b = 0xE1" | "b \<noteq> 0xE0" "b \<noteq> 0xE1" by blast
  then show ?thesis
  proof cases
    case 3
    let ?m1 = "m\<lparr>dev := bs, trace := trace m
      @ [In8 KBD_STATUS (fst (hw_inb script_hw KBD_STATUS (b # bs))), In8 KBD_DATA b]\<rparr>"
    obtain eo x mods where k: "kbd_step b (extended m, modifiers m) = (eo, x, mods)"
      by (cases "kbd_step b (extended m, modifiers m)")
    then have "kbd_step b (extended ?m1, modifiers ?m1) = (eo, x, mods)" by simp
    note h = handle_code_step [OF 3 this]
    show ?thesis
      using 3 assms(1) h k unfolding m'_def keyboard_irq_def
      by (simp add: run_inb st run_pic_eoi)
  qed (use assms(1) in \<open>simp_all add: m'_def keyboard_irq_def run_inb st run_pic_eoi kbd_step_def push_opt_def\<close>)
qed

text \<open>The decoder over a sequence of bytes: the events in order and the final flags.\<close>

fun kbd_decode :: "u8 list \<Rightarrow> u8 \<times> u8 \<Rightarrow> input_event list \<times> u8 \<times> u8" where
  "kbd_decode [] st = ([], st)"
| "kbd_decode (b # bs) st =
     (case kbd_step b st of (eo, st1) \<Rightarrow>
      case kbd_decode bs st1 of (es, st2) \<Rightarrow> ((case eo of None \<Rightarrow> es | Some e \<Rightarrow> e # es), st2))"

lemma kbd_decode_append:
  "kbd_decode (bs @ cs) st =
     (case kbd_decode bs st of (es, st1) \<Rightarrow> case kbd_decode cs st1 of (fs, st2) \<Rightarrow> (es @ fs, st2))"
  by (induction bs arbitrary: st) (auto split: prod.split option.split)

lemma kbd_decode_length: "kbd_decode bs st = (es, st') \<Longrightarrow> length es \<le> length bs"
proof (induction bs arbitrary: st es)
  case Nil
  then show ?case by simp
next
  case (Cons b bs)
  then show ?case
    by (fastforce split: prod.splits option.splits)
qed

lemma push_opt_fifo:
  assumes "input_inv q" and "length (input_pending q) + (case eo of None \<Rightarrow> 0 | Some e \<Rightarrow> 1) \<le> 63"
  shows "input_inv (push_opt eo q)
    \<and> input_pending (push_opt eo q) = input_pending q @ (case eo of None \<Rightarrow> [] | Some e \<Rightarrow> [e])"
proof (cases eo)
  case None
  then show ?thesis using assms by (simp add: push_opt_def)
next
  case (Some e)
  then show ?thesis
    using assms input_fifo.push_room [OF assms(1), of e] by (auto simp: push_opt_def)
qed

text \<open>
  Every byte the keyboard delivers is one interrupt, one acknowledgement and one step
  of the decoder; with room in the queue no event is lost or reordered.
\<close>

lemma kbd_irqs_decode:
  assumes "dev m = bs" and "input_inv (input m)"
    and "kbd_decode bs (extended m, modifiers m) = (es, st)"
    and "length (input_pending (input m)) + length es \<le> 63"
  shows "let m' = kbd_irqs script_hw (length bs) m in
    dev m' = [] \<and> (extended m', modifiers m') = st \<and> input_inv (input m')
    \<and> input_pending (input m') = input_pending (input m) @ es
    \<and> outputs (trace m') = outputs (trace m) @ replicate (length bs) (Out8 0x20 0x20)"
  using assms
proof (induction bs arbitrary: m es)
  case Nil
  then show ?case by auto
next
  case (Cons b bs)
  let ?m1 = "snd (run_state (keyboard_irq script_hw) m)"
  obtain eo x mods where k: "kbd_step b (extended m, modifiers m) = (eo, x, mods)"
    by (cases "kbd_step b (extended m, modifiers m)")
  obtain fs where fs: "kbd_decode bs (x, mods) = (fs, st)"
      "es = (case eo of None \<Rightarrow> fs | Some e \<Rightarrow> e # fs)"
    using Cons.prems(3) k by (auto split: prod.splits)
  have m1: "dev ?m1 = bs" "outputs (trace ?m1) = outputs (trace m) @ [Out8 0x20 0x20]"
      "extended ?m1 = x" "modifiers ?m1 = mods" "input ?m1 = push_opt eo (input m)"
    using keyboard_irq_script [OF Cons.prems(1)] k by auto
  have q: "input_inv (input ?m1)"
      "input_pending (input ?m1) = input_pending (input m) @ (case eo of None \<Rightarrow> [] | Some e \<Rightarrow> [e])"
    using push_opt_fifo [OF Cons.prems(2), of eo] Cons.prems(4) fs(2) m1(5)
    by (auto split: option.splits)
  have len: "length (input_pending (input ?m1)) + length fs \<le> 63"
    using Cons.prems(4) fs(2) q(2) by (auto split: option.splits)
  have "kbd_decode bs (extended ?m1, modifiers ?m1) = (fs, st)"
    using fs(1) m1 by simp
  from Cons.IH [OF m1(1) q(1) this len] show ?case
    using m1(2) q(2) fs(2) by (auto simp: Let_def split: option.splits)
qed

section \<open>The US layout\<close>

text \<open>
  The specification of the layout, independent of the driver's tables: the rows of a US
  keyboard from their first set-1 code, without and with shift.
\<close>

definition us_rows :: "(nat \<times> string \<times> string) list" where
  "us_rows =
    [(0x02, ''1234567890-='', ''!@#$%^&*()_+''),
     (0x10, ''qwertyuiop[]'', ''QWERTYUIOP{}''),
     (0x1E, ''asdfghjkl;'' @ [CHR 0x27, CHR 0x60], ''ASDFGHJKL:'' @ [CHR 0x22, CHR ''~'']),
     (0x2B, [CHR 0x5C] @ ''zxcvbnm,./'', ''|ZXCVBNM<>?''),
     (0x39, '' '', '' '')]"

definition row_keys :: "nat \<times> string \<times> string \<Rightarrow> (char \<times> u8 \<times> bool) list" where
  "row_keys row = (case row of (b, lo, hi) \<Rightarrow>
     map (\<lambda>i. (lo ! i, of_nat (b + i), False)) [0..<length lo]
     @ map (\<lambda>i. (hi ! i, of_nat (b + i), True)) [0..<length hi])"

definition us_keys :: "(char \<times> u8 \<times> bool) list" where
  "us_keys = concat (map row_keys us_rows)"

text \<open>How a typist enters a character: the key, with the left shift key held where needed.\<close>

definition strokes :: "u8 \<Rightarrow> bool \<Rightarrow> u8 list" where
  "strokes code shift =
     (if shift then [0x2A] else []) @ [code, code OR 0x80] @ (if shift then [0xAA] else [])"

definition keystrokes :: "char \<Rightarrow> u8 list" where
  "keystrokes c = (case map_of us_keys c of None \<Rightarrow> [] | Some (code, shift) \<Rightarrow> strokes code shift)"

definition printable :: "char \<Rightarrow> bool" where
  "printable c \<longleftrightarrow> (32 :: nat) \<le> of_char c \<and> (of_char c :: nat) < 127"

text \<open>The text the console sees: the characters of the press events that have one.\<close>

definition typed :: "input_event list \<Rightarrow> string" where
  "typed es = map ev_character (filter (\<lambda>e. ev_pressed e \<noteq> 0 \<and> ev_character e \<noteq> CHR 0x00) es)"

lemma typed_append [simp]: "typed (es @ fs) = typed es @ typed fs"
  by (simp add: typed_def)

text \<open>
  The keys that the console does not take as text, and the events that only type: releases, and
  presses of other keys without control.
\<close>

definition command_keys :: "input_key list" where
  "command_keys = [INPUT_KEY_ENTER, INPUT_KEY_BACKSPACE, INPUT_KEY_TAB, INPUT_KEY_LEFT, INPUT_KEY_RIGHT, INPUT_KEY_UP, INPUT_KEY_DOWN]"

definition plain_event :: "input_event \<Rightarrow> bool" where
  "plain_event e \<longleftrightarrow> ev_pressed e = 0 \<or> ev_modifiers e AND INPUT_MOD_CTRL = 0 \<and> ev_key e \<notin> set command_keys"

text \<open>
  The facts about one key that the driver's tables have to satisfy, checked row by row.
\<close>

definition key_agrees :: "char \<times> u8 \<times> bool \<Rightarrow> bool" where
  "key_agrees k = (case k of (c, code, shift) \<Rightarrow>
     code < 0x60 \<and> code \<notin> {0x2A, 0x36, 0x1D, 0x38} \<and> c \<noteq> CHR 0x00
     \<and> key_for_scancode code \<notin> {INPUT_KEY_NONE, INPUT_KEY_CAPS_LOCK} \<and> key_for_scancode code \<notin> set command_keys
     \<and> ev_character (fst (decode_key code False False (if shift then 1 else 0))) = c)"

lemma row_keys_agree:
  "list_all key_agrees (row_keys (us_rows ! 0))"
  "list_all key_agrees (row_keys (us_rows ! 3))"
  "list_all key_agrees (row_keys (us_rows ! 4))"
  by code_simp+

lemma row_keys_agree1: "list_all key_agrees (row_keys (us_rows ! 1))"
  by code_simp

lemma row_keys_agree2: "list_all key_agrees (row_keys (us_rows ! 2))"
  by code_simp

lemma us_keys_agree: "k \<in> set us_keys \<Longrightarrow> key_agrees k"
  using row_keys_agree row_keys_agree1 row_keys_agree2
  by (auto simp: us_keys_def us_rows_def list_all_iff)

lemma us_keys_chars:
  "map fst us_keys = ''1234567890-=!@#$%^&*()_+qwertyuiop[]QWERTYUIOP{}asdfghjkl;'' @ [CHR 0x27, CHR 0x60]
     @ ''ASDFGHJKL:'' @ [CHR 0x22, CHR 0x7E, CHR 0x5C] @ ''zxcvbnm,./|ZXCVBNM<>?  ''"
  by code_simp

lemma printable_table: "list_all (\<lambda>n. n < 32 \<or> char_of n \<in> set (map fst us_keys)) [0..<127]"
  unfolding us_keys_chars by code_simp

lemma printable_key:
  assumes "printable c"
  shows "\<exists>code shift. map_of us_keys c = Some (code, shift)"
proof -
  have "char_of (of_char c :: nat) \<in> set (map fst us_keys)"
    using all_below [OF printable_table, of "of_char c"] assms by (auto simp: printable_def)
  then have "c \<in> fst ` set us_keys" by simp
  then show ?thesis
    by (cases "map_of us_keys c") (auto simp: map_of_eq_None_iff)
qed

lemma code_bits:
  assumes "(code :: u8) < 0x60"
  shows "code AND 0x80 = 0" "code AND 0x7F = code" "(code OR 0x80) AND 0x80 \<noteq> 0"
    "(code OR 0x80) AND 0x7F = code" "code \<noteq> 0xE0" "code \<noteq> 0xE1" "code OR 0x80 \<noteq> 0xE0" "code OR 0x80 \<noteq> 0xE1"
proof -
  have "list_all (\<lambda>n. (of_nat n :: u8) AND 0x80 = 0 \<and> (of_nat n :: u8) AND 0x7F = of_nat n
      \<and> (of_nat n OR 0x80 :: u8) AND 0x80 \<noteq> 0 \<and> (of_nat n OR 0x80 :: u8) AND 0x7F = of_nat n
      \<and> (of_nat n :: u8) \<noteq> 0xE0 \<and> (of_nat n :: u8) \<noteq> 0xE1
      \<and> (of_nat n OR 0x80 :: u8) \<noteq> 0xE0 \<and> (of_nat n OR 0x80 :: u8) \<noteq> 0xE1) [0..<0x60]"
    by code_simp
  from all_below [OF this, of "unat code"] assms
  show "code AND 0x80 = 0" "code AND 0x7F = code" "(code OR 0x80) AND 0x80 \<noteq> 0"
    "(code OR 0x80) AND 0x7F = code" "code \<noteq> 0xE0" "code \<noteq> 0xE1" "code OR 0x80 \<noteq> 0xE0" "code OR 0x80 \<noteq> 0xE1"
    by (simp_all add: word_less_nat_alt)
qed

lemma upcase_null [simp]: "upcase (CHR 0x00) = CHR 0x00"
  by (simp add: upcase_def)

lemma decode_press:
  assumes "key_for_scancode code \<notin> {INPUT_KEY_NONE, INPUT_KEY_CAPS_LOCK}"
  shows "snd (decode_key code False False mods) = mods"
    "ev_key (fst (decode_key code False False mods)) \<noteq> INPUT_KEY_NONE"
    "ev_pressed (fst (decode_key code False False mods)) = 1"
    "ev_key (fst (decode_key code False False mods)) = key_for_scancode code"
    "ev_modifiers (fst (decode_key code False False mods)) = mods"
  using assms by (simp_all add: decode_key_def Let_def)

lemma decode_release:
  assumes "key_for_scancode code \<notin> {INPUT_KEY_NONE, INPUT_KEY_CAPS_LOCK}"
  shows "\<exists>e. decode_key code False True mods = (e, mods) \<and> ev_key e \<noteq> INPUT_KEY_NONE
    \<and> ev_pressed e = 0"
  using assms by (simp add: decode_key_def Let_def)

lemma key_agrees_types:
  assumes "key_agrees (c, code, shift)"
  shows "\<exists>es. kbd_decode (strokes code shift) (0, 0) = (es, 0, 0) \<and> typed es = [c] \<and> length es \<le> 4
    \<and> list_all plain_event es"
proof -
  let ?m = "if shift then 1 else 0 :: u8"
  have k: "code < 0x60" "code \<notin> {0x2A, 0x36, 0x1D, 0x38}" "c \<noteq> CHR 0x00"
      "key_for_scancode code \<notin> {INPUT_KEY_NONE, INPUT_KEY_CAPS_LOCK}"
      "ev_character (fst (decode_key code False False ?m)) = c" "key_for_scancode code \<notin> set command_keys"
    using assms by (simp_all add: key_agrees_def)
  note bits = code_bits [OF k(1)]
  obtain e where e: "decode_key code False False ?m = (e, ?m)" "ev_key e \<noteq> INPUT_KEY_NONE"
      "ev_pressed e = 1" "ev_character e = c" "ev_key e = key_for_scancode code" "ev_modifiers e = ?m"
    using decode_press [OF k(4), of ?m] k(5) that
    by (cases "decode_key code False False ?m") (simp del: if_split)
  obtain f where f: "decode_key code False True ?m = (f, ?m)" "ev_key f \<noteq> INPUT_KEY_NONE" "ev_pressed f = 0"
    using decode_release [OF k(4)] by blast
  have press: "kbd_step code (0, ?m) = (Some e, 0, ?m)"
    using k(2) bits e(1,2) by (simp add: kbd_step_def Let_def del: if_split)
  have release: "kbd_step (code OR 0x80) (0, ?m) = (Some f, 0, ?m)"
    using k(2) bits f(1,2) by (simp add: kbd_step_def Let_def del: if_split)
  have plain: "plain_event e" "plain_event f"
    using e(5,6) f(3) k(6) by (auto simp: plain_event_def INPUT_MOD_CTRL_def)
  obtain a where a: "kbd_step 0x2A (0, 0) = (Some a, 0, 1)" "ev_character a = CHR 0x00" "plain_event a"
    by (simp add: kbd_step_def Let_def set_modifier_def INPUT_MOD_SHIFT_def plain_event_def INPUT_MOD_CTRL_def command_keys_def)
  obtain z where z: "kbd_step 0xAA (0, 1) = (Some z, 0, 0)" "ev_character z = CHR 0x00" "plain_event z"
    by (simp add: kbd_step_def Let_def set_modifier_def INPUT_MOD_SHIFT_def plain_event_def)
  show ?thesis
  proof (cases shift)
    case True
    then have "kbd_decode (strokes code shift) (0, 0) = ([a, e, f, z], 0, 0)"
      using press release a(1) z(1) by (simp add: strokes_def)
    then show ?thesis
      using e(3,4) f(3) k(3) a(2,3) z(2,3) plain by (simp add: typed_def)
  next
    case False
    then have "kbd_decode (strokes code shift) (0, 0) = ([e, f], 0, 0)"
      using press release by (simp add: strokes_def)
    then show ?thesis
      using e(3,4) f(3) k(3) plain by (simp add: typed_def)
  qed
qed

lemma printable_types:
  assumes "printable c"
  shows "\<exists>es. kbd_decode (keystrokes c) (0, 0) = (es, 0, 0) \<and> typed es = [c] \<and> length es \<le> 4
    \<and> list_all plain_event es"
proof -
  obtain code shift where m: "map_of us_keys c = Some (code, shift)"
    using printable_key [OF assms] by blast
  then have "key_agrees (c, code, shift)"
    by (intro us_keys_agree map_of_SomeD)
  from key_agrees_types [OF this] m show ?thesis by (simp add: keystrokes_def)
qed

lemma type_text_decode:
  "list_all printable s \<Longrightarrow>
     \<exists>es. kbd_decode (concat (map keystrokes s)) (0, 0) = (es, 0, 0) \<and> typed es = s
       \<and> length es \<le> 4 * length s \<and> list_all plain_event es"
proof (induction s)
  case Nil
  then show ?case by (simp add: typed_def)
next
  case (Cons c s)
  obtain es where es: "kbd_decode (keystrokes c) (0, 0) = (es, 0, 0)" "typed es = [c]" "length es \<le> 4"
      "list_all plain_event es"
    using printable_types [of c] Cons.prems by auto
  obtain fs where "kbd_decode (concat (map keystrokes s)) (0, 0) = (fs, 0, 0)" "typed fs = s"
      "length fs \<le> 4 * length s" "list_all plain_event fs"
    using Cons by auto
  with es show ?case by (simp add: kbd_decode_append)
qed

section \<open>Modifiers\<close>

text \<open>The codes of a byte sequence, each with whether the prefix byte came before it.\<close>

fun unprefix :: "bool \<Rightarrow> u8 list \<Rightarrow> (bool \<times> u8) list" where
  "unprefix x [] = []"
| "unprefix x (b # bs) =
     (if b = 0xE0 then unprefix True bs
      else if b = 0xE1 then unprefix False bs
      else (x, b) # unprefix False bs)"

definition makes :: "u8 \<Rightarrow> bool" where "makes b \<longleftrightarrow> b AND 0x80 = 0"

text \<open>A modifier is down when the last of its codes was a press.\<close>

definition held :: "(bool \<times> u8 \<Rightarrow> bool) \<Rightarrow> (bool \<times> u8) list \<Rightarrow> bool" where
  "held P cs \<longleftrightarrow> (case filter P (rev cs) of [] \<Rightarrow> False | c # _ \<Rightarrow> makes (snd c))"

definition is_shift :: "bool \<times> u8 \<Rightarrow> bool" where
  "is_shift c \<longleftrightarrow> \<not> fst c \<and> (snd c AND 0x7F = 0x2A \<or> snd c AND 0x7F = 0x36)"
definition is_ctrl :: "bool \<times> u8 \<Rightarrow> bool" where "is_ctrl c \<longleftrightarrow> snd c AND 0x7F = 0x1D"
definition is_alt :: "bool \<times> u8 \<Rightarrow> bool" where "is_alt c \<longleftrightarrow> snd c AND 0x7F = 0x38"
definition is_caps :: "bool \<times> u8 \<Rightarrow> bool" where
  "is_caps c \<longleftrightarrow> \<not> fst c \<and> snd c AND 0x7F = 0x3A \<and> makes (snd c)"

definition mod_byte :: "bool \<Rightarrow> bool \<Rightarrow> bool \<Rightarrow> bool \<Rightarrow> u8" where
  "mod_byte sh ct al ca = (if sh then INPUT_MOD_SHIFT else 0) OR (if ct then INPUT_MOD_CTRL else 0)
     OR (if al then INPUT_MOD_ALT else 0) OR (if ca then INPUT_MOD_CAPS else 0)"

definition modifier_spec :: "(bool \<times> u8) list \<Rightarrow> u8" where
  "modifier_spec cs = mod_byte (held is_shift cs) (held is_ctrl cs) (held is_alt cs)
     (odd (length (filter is_caps cs)))"

lemma held_snoc: "held P (cs @ [c]) = (if P c then makes (snd c) else held P cs)"
  by (simp add: held_def)

lemmas mod_bits = INPUT_MOD_SHIFT_def INPUT_MOD_CTRL_def INPUT_MOD_ALT_def INPUT_MOD_CAPS_def

lemma mod_byte_updates:
  "set_modifier INPUT_MOD_SHIFT (\<not> d) (mod_byte sh ct al ca) = mod_byte d ct al ca"
  "set_modifier INPUT_MOD_CTRL (\<not> d) (mod_byte sh ct al ca) = mod_byte sh d al ca"
  "set_modifier INPUT_MOD_ALT (\<not> d) (mod_byte sh ct al ca) = mod_byte sh ct d ca"
  "mod_byte sh ct al ca XOR INPUT_MOD_CAPS = mod_byte sh ct al (\<not> ca)"
  by (cases d; cases sh; cases ct; cases al; cases ca; simp add: mod_byte_def set_modifier_def mod_bits)+

lemma caps_key: "key_for_scancode code = INPUT_KEY_CAPS_LOCK \<longleftrightarrow> code = 0x3A"
  by (auto simp: key_for_scancode_def normal_keys_def split: if_splits)

lemma extended_not_caps: "extended_key code \<noteq> INPUT_KEY_CAPS_LOCK"
  by (simp add: extended_key_def)

lemma decode_key_modifiers:
  "snd (decode_key (b AND 0x7F) x (\<not> makes b) mods)
     = (if is_caps (x, b) then mods XOR INPUT_MOD_CAPS else mods)"
  by (auto simp: decode_key_def Let_def is_caps_def caps_key extended_not_caps)

lemma kbd_step_modifiers:
  assumes "b \<noteq> 0xE0" and "b \<noteq> 0xE1"
  shows "snd (kbd_step b (if x then 1 else 0, modifier_spec cs)) = (0, modifier_spec (cs @ [(x, b)]))"
proof -
  have excl: "is_shift c \<Longrightarrow> \<not> is_ctrl c \<and> \<not> is_alt c \<and> \<not> is_caps c" "is_ctrl c \<Longrightarrow> \<not> is_alt c \<and> \<not> is_caps c"
      "is_alt c \<Longrightarrow> \<not> is_caps c" for c
    by (auto simp: is_shift_def is_ctrl_def is_alt_def is_caps_def)
  have rel: "(b AND 0x80 \<noteq> 0) = (\<not> makes b)" by (simp add: makes_def)
  consider "is_shift (x, b)" | "\<not> is_shift (x, b)" "is_ctrl (x, b)"
    | "\<not> is_shift (x, b)" "\<not> is_ctrl (x, b)" "is_alt (x, b)"
    | "\<not> is_shift (x, b)" "\<not> is_ctrl (x, b)" "\<not> is_alt (x, b)" by blast
  then show ?thesis
  proof cases
    case 1
    then show ?thesis
      using assms excl(1) [OF 1]
      by (auto simp: kbd_step_def Let_def rel modifier_spec_def held_snoc mod_byte_updates is_shift_def)
  next
    case 2
    then show ?thesis
      using assms excl(2) [OF 2(2)] 
      by (auto simp: kbd_step_def Let_def rel modifier_spec_def held_snoc mod_byte_updates is_shift_def is_ctrl_def)
  next
    case 3
    then show ?thesis
      using assms excl(3) [OF 3(3)] 
      by (auto simp: kbd_step_def Let_def rel modifier_spec_def held_snoc mod_byte_updates is_shift_def
          is_ctrl_def is_alt_def)
  next
    case 4
    have "snd (kbd_step b (if x then 1 else 0, modifier_spec cs))
        = (0, snd (decode_key (b AND 0x7F) x (\<not> makes b) (modifier_spec cs)))"
      using 4 assms
      by (auto simp: kbd_step_def Let_def rel is_shift_def is_ctrl_def is_alt_def split: prod.split)
    then show ?thesis
      using 4 by (simp add: decode_key_modifiers modifier_spec_def held_snoc mod_byte_updates)
  qed
qed

lemma kbd_decode_modifiers:
  "kbd_decode bs (if x then 1 else 0, modifier_spec cs) = (es, st) \<Longrightarrow>
     snd st = modifier_spec (cs @ unprefix x bs)"
proof (induction bs arbitrary: x cs es)
  case Nil
  then show ?case by auto
next
  case (Cons b bs)
  obtain eo e' ms where k: "kbd_step b (if x then 1 else 0, modifier_spec cs) = (eo, e', ms)"
    by (cases "kbd_step b (if x then 1 else 0, modifier_spec cs)")
  obtain fs where f: "kbd_decode bs (e', ms) = (fs, st)"
    using Cons.prems k by (auto split: prod.splits)
  consider "b = 0xE0" | "b = 0xE1" | "b \<noteq> 0xE0" "b \<noteq> 0xE1" by blast
  then show ?case
  proof cases
    case 1
    then show ?thesis using k f Cons.IH [of True cs fs] by (simp add: kbd_step_def)
  next
    case 2
    then show ?thesis using k f Cons.IH [of False cs fs] by (simp add: kbd_step_def)
  next
    case 3
    then show ?thesis
      using k f kbd_step_modifiers [OF 3, of x cs] Cons.IH [of False "cs @ [(x, b)]" fs] by simp
  qed
qed

section \<open>Initialisation: what it writes\<close>

lemma wait_only_reads:
  "only_reads 100000 m (snd (run_state (wait_input_clear hw) m))"
  "only_reads 100000 m (snd (run_state (wait_output_full hw) m))"
proof -
  have 1: "only_reads 1 m (snd (run_state (input_clear hw) m))"
      "only_reads 1 m (snd (run_state (output_full hw) m))" for m :: "('a, 'b) machine_scheme"
    using only_reads_inb [of 0 m hw KBD_STATUS]
    by (simp_all add: input_clear_def output_full_def split_beta)
  show "only_reads 100000 m (snd (run_state (wait_input_clear hw) m))"
    using poll_only_reads [OF 1(1), of 100000 m] by (simp add: wait_input_clear_def split_beta)
  show "only_reads 100000 m (snd (run_state (wait_output_full hw) m))"
    using poll_only_reads [OF 1(2), of 100000 m] by (simp add: wait_output_full_def split_beta)
qed

text \<open>
  The bytes written to the interrupt mask register of the first controller, port 0x21,
  are those before: \<open>m\<close> and \<open>m'\<close> agree on them, and on the driver's statics.
\<close>

definition mask_kept :: "'d kbd_machine \<Rightarrow> 'd kbd_machine \<Rightarrow> bool" where
  "mask_kept m m' \<longleftrightarrow> written_to 0x21 (trace m') = written_to 0x21 (trace m)
     \<and> modifiers m' = modifiers m \<and> extended m' = extended m \<and> input m' = input m"

lemma mask_kept_refl [simp]: "mask_kept m m"
  by (simp add: mask_kept_def)

lemma mask_kept_trans: "mask_kept m m' \<Longrightarrow> mask_kept m' m'' \<Longrightarrow> mask_kept m m''"
  by (simp add: mask_kept_def)

lemma reads_not_written: "outputs es = [] \<Longrightarrow> written_to p es = []"
  by (induction p es rule: written_to.induct) auto

lemma mask_kept_reads: "only_reads n m m' \<Longrightarrow> mask_kept m m'"
  by (auto simp: only_reads_def mask_kept_def reads_not_written)

lemma mask_kept_ops:
  "mask_kept m (snd (run_state (wait_input_clear hw) m))"
  "mask_kept m (snd (run_state (wait_output_full hw) m))"
  "mask_kept m (snd (run_state (output_full hw) m))"
  "mask_kept m (snd (run_state (inb hw p) m))"
  "q \<noteq> 0x21 \<Longrightarrow> mask_kept m (snd (run_state (outb hw q v) m))"
  "mask_kept m (snd (run_state (log_text s) m))"
proof -
  show "mask_kept m (snd (run_state (wait_input_clear hw) m))"
      "mask_kept m (snd (run_state (wait_output_full hw) m))"
    by (rule mask_kept_reads, rule wait_only_reads)+
  show "mask_kept m (snd (run_state (output_full hw) m))"
    using mask_kept_reads [OF only_reads_inb [of 0 m hw KBD_STATUS]] by (simp add: output_full_def split_beta)
qed (simp_all add: mask_kept_def run_simps)

lemma mask_kept_commands:
  "mask_kept m (snd (run_state (controller_command hw c) m))"
  "mask_kept m (snd (run_state (keyboard_command hw c) m))"
  by (simp_all add: controller_command_def keyboard_command_def split_beta kbd_ports
      mask_kept_ops(1) mask_kept_trans [OF mask_kept_ops(1) mask_kept_ops(5)])

text \<open>
  Sequencing: a computation that stops early keeps the mask; one that goes on continues
  from a machine with the mask kept.
\<close>

definition init_ok :: "'d kbd_machine \<Rightarrow> int \<times> 'd kbd_machine \<Rightarrow> bool" where
  "init_ok m r \<longleftrightarrow>
     (fst r = -1 \<and> mask_kept m (snd r))
     \<or> (fst r = 0 \<and> (\<exists>v. written_to 0x21 (trace (snd r)) = written_to 0x21 (trace m) @ [v AND NOT 2])
        \<and> modifiers (snd r) = modifiers m \<and> extended (snd r) = extended m \<and> input (snd r) = input m)"

lemma init_ok_step:
  assumes "mask_kept m m1" and "\<And>m'. mask_kept m' (snd (run_state f m'))"
    and "\<And>x m'. mask_kept m m' \<Longrightarrow> init_ok m (run_state (g x) m')"
  shows "init_ok m (run_state (State_Monad.bind f g) m1)"
  using assms mask_kept_trans by (fastforce simp: split_beta)

lemma init_ok_fail: "mask_kept m m' \<Longrightarrow> init_ok m (run_state (State_Monad.return (-1)) m')"
  by (simp add: init_ok_def)

lemma init_ok_done:
  "mask_kept m m' \<Longrightarrow> init_ok m (run_state (do {
     pic_unmask_irq hw 1; log_text s; State_Monad.return 0 }) m')"
  by (auto simp: init_ok_def mask_kept_def pic_unmask_irq_def run_simps)

lemma keyboard_setup_ok: "init_ok m (run_state (keyboard_setup hw) m)"
  unfolding keyboard_setup_def Let_def
  by (rule mask_kept_refl mask_kept_commands mask_kept_ops init_ok_fail init_ok_done
      | assumption | (rule init_ok_step) | (split if_split, intro conjI impI)
      | (simp add: kbd_ports; fail))+

text \<open>
  What the loop that empties the output buffer relies on: reading the status does not
  fill the controller's buffer, and reading a byte that is there takes it out.
\<close>

locale ps2_controller =
  fixes hw :: "'d hw"
    and fill :: "'d \<Rightarrow> nat"
  assumes status_keeps: "fill (snd (hw_inb hw KBD_STATUS d)) \<le> fill d"
    and data_takes: "fst (hw_inb hw KBD_STATUS d) AND KBD_STATUS_OBF \<noteq> 0 \<Longrightarrow>
      fill (snd (hw_inb hw KBD_DATA (snd (hw_inb hw KBD_STATUS d)))) < fill d"
begin

lemma drain_returns:
  fixes m :: "'d kbd_machine"
  shows "\<exists>m'. drain_output hw m = Some m' \<and> mask_kept m m'"
proof (induction "fill (dev m)" arbitrary: m rule: less_induct)
  case less
  obtain full m1 where r: "run_state (output_full hw) m = (full, m1)"
    by (cases "run_state (output_full hw) m")
  let ?m2 = "snd (run_state (inb hw KBD_DATA) m1)"
  have unfold: "drain_output hw m = (if full then drain_output hw ?m2 else Some m1)"
    by (subst drain_output.simps) (simp add: r)
  have k1: "mask_kept m m1" using mask_kept_ops(3) [of m hw] r by simp
  have k2: "mask_kept m ?m2" using mask_kept_trans [OF k1 mask_kept_ops(4)] by blast
  show ?case
  proof (cases full)
    case False
    then show ?thesis using unfold k1 by simp
  next
    case True
    then have "fill (dev ?m2) < fill (dev m)"
      using r data_takes [of "dev m"] by (auto simp: output_full_def run_inb)
    from less.hyps [OF this] show ?thesis
      using unfold True mask_kept_trans [OF k2] by auto
  qed
qed

lemma init_returns:
  "\<exists>r. keyboard_init hw m = Some r
     \<and> init_ok (m\<lparr>modifiers := 0, extended := 0, input := input_init (input m)\<rparr>) r"
proof -
  let ?m0 = "m\<lparr>modifiers := 0, extended := 0, input := input_init (input m)\<rparr>"
  obtain rc1 m1 where 1: "run_state (controller_command hw KBD_CMD_DISABLE1) ?m0 = (rc1, m1)"
    by (cases "run_state (controller_command hw KBD_CMD_DISABLE1) ?m0")
  obtain rc2 m2 where 2: "run_state (controller_command hw KBD_CMD_DISABLE2) m1 = (rc2, m2)"
    by (cases "run_state (controller_command hw KBD_CMD_DISABLE2) m1")
  obtain m3 where 3: "drain_output hw m2 = Some m3" "mask_kept m2 m3"
    using drain_returns by blast
  have k1: "mask_kept ?m0 m1" using mask_kept_commands(1) [of ?m0 hw KBD_CMD_DISABLE1] 1 by simp
  have k2: "mask_kept ?m0 m2"
    using mask_kept_trans [OF k1] mask_kept_commands(1) [of m1 hw KBD_CMD_DISABLE2] 2 by simp
  have k3: "mask_kept ?m0 m3" by (rule mask_kept_trans [OF k2 3(2)])
  have ok: "init_ok ?m0 (run_state (keyboard_setup hw) m3)"
    using keyboard_setup_ok [of m3 hw] k3 by (auto simp: init_ok_def mask_kept_def)
  have fail: "init_ok ?m0 (-1, m1)" "init_ok ?m0 (-1, m2)"
    using k1 k2 by (simp_all add: init_ok_def)
  have "keyboard_init hw m = Some (if rc1 \<noteq> 0 then (-1, m1) else if rc2 \<noteq> 0 then (-1, m2)
      else run_state (keyboard_setup hw) m3)"
    using 1 2 3(1) by (simp add: keyboard_init_def)
  then show ?thesis
    using ok fail by auto
qed

end

text \<open>
  A controller with a keyboard behind it that passes its tests: the answers to the
  commands the driver sends queue up in the output buffer; port 0x21 reads the mask.
\<close>

record i8042 =
  obuf :: "u8 list"
  cfg :: u8
  wants_cfg :: bool
  pic_mask :: u8

definition i8042_inb :: "u16 \<Rightarrow> i8042 \<Rightarrow> u8 \<times> i8042" where
  "i8042_inb p d =
     (if p = KBD_STATUS then (if obuf d = [] then 0 else 1, d)
      else if p = KBD_DATA then
        (case obuf d of [] \<Rightarrow> (0, d) | b # bs \<Rightarrow> (b, d\<lparr>obuf := bs\<rparr>))
      else if p = 0x21 then (pic_mask d, d)
      else (0xFF, d))"

definition i8042_outb :: "u16 \<Rightarrow> u8 \<Rightarrow> i8042 \<Rightarrow> i8042" where
  "i8042_outb p v d =
     (if p = KBD_COMMAND then
        (if v = 0xAA then d\<lparr>obuf := obuf d @ [0x55]\<rparr>
         else if v = 0x20 then d\<lparr>obuf := obuf d @ [cfg d]\<rparr>
         else if v = 0x60 then d\<lparr>wants_cfg := True\<rparr>
         else d)
      else if p = KBD_DATA then
        (if wants_cfg d then d\<lparr>cfg := v, wants_cfg := False\<rparr>
         else if v = 0xFF then d\<lparr>obuf := obuf d @ [0xFA, 0xAA]\<rparr>
         else d)
      else if p = 0x21 then d\<lparr>pic_mask := v\<rparr>
      else d)"

definition i8042_hw :: "i8042 hw" where
  "i8042_hw = \<lparr>hw_inb = i8042_inb, hw_outb = i8042_outb,
     hw_inw = (\<lambda>p d. (0xFFFF, d)), hw_outw = (\<lambda>p v d. d)\<rparr>"

interpretation ps2: ps2_controller i8042_hw "\<lambda>d. length (obuf d)"
  by unfold_locales
    (auto simp: i8042_hw_def i8042_inb_def kbd_ports KBD_STATUS_OBF_def split: list.splits if_splits)

section \<open>Properties\<close>

text \<open>
  The handler acknowledges every interrupt exactly once, whatever the hardware
  answers and whichever branch it takes: the only port write it makes is one
  end-of-interrupt to the first controller, after at most two port reads.
\<close>

lemma keyboard_irq_acknowledges_once:
  "\<exists>es. trace (snd (run_state (keyboard_irq hw) m)) = trace m @ es @ [Out8 0x20 0x20]
     \<and> outputs es = [] \<and> length es \<le> 2"
  by (auto simp: keyboard_irq_def run_inb run_pic_eoi)


definition sample_kbd :: "u8 list \<Rightarrow> u8 list kbd_machine" where
  "sample_kbd bs = \<lparr>dev = bs, trace = [], klog = [], serial_initialized = True, modifiers = 0, extended = 0,
     input = \<lparr>queue = replicate 64 blank_event, read_index = 0, write_index = 0\<rparr>\<rparr>"

lemma sample_kbd_facts:
  "input_inv (input (sample_kbd bs))" "input_pending (input (sample_kbd bs)) = []"
  "extended (sample_kbd bs) = 0" "modifiers (sample_kbd bs) = 0" "dev (sample_kbd bs) = bs"
  by (simp_all add: sample_kbd_def input_inv_def input_pending_def input_count_def INPUT_QUEUE_SIZE_def)




text \<open>
  C36: on a controller whose buffer empties when it is read, \<^verbatim>\<open>keyboard_init\<close> always returns,
  with the modifiers, the prefix flag and the queue reset.  It answers 0 only after it
  has cleared bit 1 of the interrupt mask, with exactly one write of that register;
  whenever it answers -1 it has not written the mask, so IRQ 1 stays masked.
\<close>

theorem keyboard_init_outcome:
  assumes "ps2_controller hw fill"
  shows "\<exists>r. keyboard_init hw m = Some r
    \<and> init_ok (m\<lparr>modifiers := 0, extended := 0, input := input_init (input m)\<rparr>) r"
  by (rule ps2_controller.init_returns [OF assms])

theorem keyboard_init_outcome_witness:
  "\<exists>r. keyboard_init i8042_hw \<lparr>dev = \<lparr>obuf = [0x1C], cfg = 0, wants_cfg = False, pic_mask = 0xFF\<rparr>,
     trace = [], klog = [], serial_initialized = True, modifiers = 3, extended = 1,
     input = input (sample_kbd [])\<rparr> = Some r \<and> modifiers (snd r) = 0"
  using keyboard_init_outcome [OF ps2.ps2_controller_axioms, of "\<lparr>dev = \<lparr>obuf = [0x1C], cfg = 0,
     wants_cfg = False, pic_mask = 0xFF\<rparr>,
     trace = [], klog = [], serial_initialized = True, modifiers = 3, extended = 1,
     input = input (sample_kbd [])\<rparr>"]
  by (auto simp: init_ok_def mask_kept_def)

text \<open>
  The Pause key is not ignored.  Its six bytes E1 1D 45 E1 9D C5 queue a press and a release
  of the left control key, because only the E1 bytes are dropped.
\<close>

lemma keyboard_pause_sends_ctrl:
  "map (\<lambda>e. (ev_key e, ev_pressed e))
     (input_pending (input (kbd_irqs script_hw 6 (sample_kbd [0xE1, 0x1D, 0x45, 0xE1, 0x9D, 0xC5]))))
   = [(INPUT_KEY_LEFT_CTRL, 1), (INPUT_KEY_LEFT_CTRL, 0)]"
proof -
  let ?bs = "[0xE1, 0x1D, 0x45, 0xE1, 0x9D, 0xC5] :: u8 list"
  let ?m = "sample_kbd ?bs"
  have len: "length ?bs = 6" by simp
  have none: "key_for_scancode 0x45 = INPUT_KEY_NONE"
    by (simp add: key_for_scancode_def normal_keys_def)
  obtain e f where ef: "kbd_decode ?bs (0, 0) = ([e, f], 0, 0)" "ev_key e = INPUT_KEY_LEFT_CTRL"
      "ev_pressed e = 1" "ev_key f = INPUT_KEY_LEFT_CTRL" "ev_pressed f = 0"
    by (simp add: kbd_step_def Let_def decode_key_def none set_modifier_def mod_bits)
  have d: "kbd_decode ?bs (extended ?m, modifiers ?m) = ([e, f], 0, 0)"
    using ef(1) by (simp only: sample_kbd_facts)
  have "length (input_pending (input ?m)) + length [e, f] \<le> 63"
    by (simp add: sample_kbd_facts)
  from kbd_irqs_decode [OF sample_kbd_facts(5,1) d this]
  have "input_pending (input (kbd_irqs script_hw 6 ?m)) = [e, f]"
    unfolding len Let_def sample_kbd_facts by simp
  then show ?thesis using ef by simp
qed

end
