(* ===== verification/Minos_Pmm.thy ===== *)
theory Minos_Pmm
  imports Minos_Boot
begin

text \<open>
  The physical frame allocator of \<^verbatim>\<open>kernel/pmm.c\<close>: a bitmap of 2 to the 24 frames of
  4 KiB in 64-bit words, the counters beside it, its construction from the memory
  map, and allocation, release and reservation of frames.  An access outside the
  bitmap array is undefined in C and \<^term>\<open>None\<close> here.  The theory shows what a
  caller may rely on (an interface for frame allocators, met by this one) and what
  the construction does with memory that is not conventional.
\<close>

section \<open>The bitmap (pmm.c)\<close>

definition PMM_MAX_FRAMES :: u64 where
  "PMM_MAX_FRAMES = 64 * 1024 * 1024 * 1024 div 4096"

definition PMM_BITMAP_WORDS :: u64 where
  "PMM_BITMAP_WORDS = (PMM_MAX_FRAMES + 63) div 64"

record pmm_state =
  bitmap :: "nat \<Rightarrow> u64"
  total_frames :: u64
  free_frames :: u64
  reserved_bytes_total :: u64
  pmm_log :: string

definition bitmap_set :: "u64 \<Rightarrow> pmm_state \<Rightarrow> pmm_state c_result" where
  "bitmap_set frame s =
     (let i = drop_bit 6 frame in
      if i < PMM_BITMAP_WORDS
      then Some (s\<lparr>bitmap := (bitmap s)(unat i := bitmap s (unat i) OR push_bit (unat (frame AND 63)) 1)\<rparr>)
      else None)"

definition bitmap_clear :: "u64 \<Rightarrow> pmm_state \<Rightarrow> pmm_state c_result" where
  "bitmap_clear frame s =
     (let i = drop_bit 6 frame in
      if i < PMM_BITMAP_WORDS
      then Some (s\<lparr>bitmap := (bitmap s)(unat i := bitmap s (unat i) AND NOT (push_bit (unat (frame AND 63)) 1))\<rparr>)
      else None)"

definition bitmap_test :: "u64 \<Rightarrow> pmm_state \<Rightarrow> bool c_result" where
  "bitmap_test frame s =
     (let i = drop_bit 6 frame in
      if i < PMM_BITMAP_WORDS
      then Some (drop_bit (unat (frame AND 63)) (bitmap s (unat i)) AND 1 \<noteq> 0)
      else None)"

section \<open>Reservation and construction\<close>

function reserve_loop :: "u64 \<Rightarrow> u64 \<Rightarrow> pmm_state \<Rightarrow> pmm_state c_result" where
  "reserve_loop f stop s =
     (if f < stop then do {
        used \<leftarrow> bitmap_test f s;
        s' \<leftarrow> (if \<not> used then do {
                 s1 \<leftarrow> bitmap_set f s;
                 Some (s1\<lparr>free_frames := free_frames s1 - 1\<rparr>)
               } else Some s);
        reserve_loop (f + 1) stop s'
      } else Some s)"
  by pat_completeness auto
termination
  by (relation "measure (\<lambda>(f, stop, s). unat stop - unat f)")
    (auto simp: unat_plus_one_le word_less_nat_alt)

definition reserve_range :: "u64 \<Rightarrow> u64 \<Rightarrow> pmm_state \<Rightarrow> pmm_state c_result" where
  "reserve_range start stop s = do {
     s' \<leftarrow> reserve_loop start stop s;
     Some (s'\<lparr>reserved_bytes_total := reserved_bytes_total s' + (stop - start) * 4096\<rparr>)
   }"

text \<open>The loop that counts the frames of one conventional region.\<close>

function count_loop :: "u64 \<Rightarrow> u64 \<Rightarrow> pmm_state \<Rightarrow> pmm_state c_result" where
  "count_loop f stop s =
     (if f < stop then do {
        used \<leftarrow> bitmap_test f s;
        s' \<leftarrow> (if \<not> used then do {
                 s1 \<leftarrow> bitmap_clear f s;
                 Some (s1\<lparr>free_frames := free_frames s1 + 1\<rparr>)
               } else Some s);
        count_loop (f + 1) stop s'
      } else Some s)"
  by pat_completeness auto
termination
  by (relation "measure (\<lambda>(f, stop, s). unat stop - unat f)")
    (auto simp: unat_plus_one_le word_less_nat_alt)

declare reserve_loop.simps [simp del] count_loop.simps [simp del]

definition init_region :: "efi_memory_descriptor \<Rightarrow> pmm_state \<Rightarrow> pmm_state c_result" where
  "init_region d s =
     (let bytes = md_NumberOfPages d * 4096 in
      if md_Type d \<noteq> efi_type_code EfiConventionalMemory then
        Some (s\<lparr>reserved_bytes_total := reserved_bytes_total s + bytes\<rparr>)
      else if md_NumberOfPages d = 0 then Some s
      else
        let b = (md_PhysicalStart d + 4095) AND NOT 4095;
            e0 = md_PhysicalStart d + md_NumberOfPages d * 4096;
            e = (if e0 > PMM_MAX_FRAMES * 4096 then PMM_MAX_FRAMES * 4096 else e0)
        in do {
          s' \<leftarrow> count_loop (b div 4096) (e div 4096) s;
          Some (s'\<lparr>total_frames := total_frames s' + (e - b) div 4096\<rparr>)
        })"

fun init_regions :: "efi_memory_descriptor list \<Rightarrow> pmm_state \<Rightarrow> pmm_state c_result" where
  "init_regions [] s = Some s"
| "init_regions (d # ds) s = do { s' \<leftarrow> init_region d s; init_regions ds s' }"

definition reserve_bytes :: "u64 \<Rightarrow> u64 \<Rightarrow> pmm_state \<Rightarrow> pmm_state c_result" where
  "reserve_bytes base nbytes s = reserve_range (base div 4096) ((base + nbytes + 4095) div 4096) s"

definition pmm_report :: "pmm_state \<Rightarrow> pmm_state" where
  "pmm_report s = s\<lparr>pmm_log := pmm_log s
     @ the (format_text ''[MinOS PMM] Conventional: %u MiB, reserved: %u MiB%c''
         [Num (ucast (ucast (total_frames s * 4096 div (1024 * 1024)) :: u32)),
          Num (ucast (ucast (reserved_bytes_total s div (1024 * 1024)) :: u32)), Chr (CHR 0x0A)])
     @ the (format_text ''[MinOS PMM] 4 KiB frames: %u total, %u free%c''
         [Num (ucast (ucast (total_frames s) :: u32)), Num (ucast (ucast (free_frames s) :: u32)),
          Chr (CHR 0x0A)])\<rparr>"

text \<open>
  \<open>info\<close> is the pointer with the address of the structure (\<^term>\<open>None\<close> is null);
  the size of the structure is that of the x86-64 layout.
\<close>

definition sizeof_boot_info :: u64 where "sizeof_boot_info = 160"

definition pmm_init ::
    "(u64 \<Rightarrow> efi_memory_descriptor) \<Rightarrow> (u64 \<times> boot_info) option \<Rightarrow> pmm_state \<Rightarrow> pmm_state c_result" where
  "pmm_init memory info s =
     (let s0 = s\<lparr>bitmap := (\<lambda>i. if i < unat PMM_BITMAP_WORDS then 0 else bitmap s i),
                 total_frames := 0, free_frames := 0, reserved_bytes_total := 0\<rparr> in
      case info of
        None \<Rightarrow> Some s0
      | Some (addr, bi) \<Rightarrow>
          if memory_map bi = 0 \<or> descriptor_size bi = 0 then Some s0
          else do {
            s1 \<leftarrow> init_regions
                   (map_entries memory (memory_map bi) (memory_map_size bi) (descriptor_size bi)) s0;
            s2 \<leftarrow> (if initrd_size bi \<noteq> 0 then reserve_bytes (initrd_base bi) (initrd_size bi) s1
                   else Some s1);
            s3 \<leftarrow> reserve_bytes addr sizeof_boot_info s2;
            s4 \<leftarrow> reserve_bytes (memory_map bi) (memory_map_size bi) s3;
            s5 \<leftarrow> reserve_bytes (fb_base bi) (fb_size bi) s4;
            s6 \<leftarrow> reserve_bytes (kernel_image_base bi) (kernel_image_size bi) s5;
            s7 \<leftarrow> reserve_bytes (bootstrap_stack_base bi) (bootstrap_stack_size bi) s6;
            Some (pmm_report s7)
          })"

section \<open>Allocation and release\<close>

function alloc_loop :: "u64 \<Rightarrow> pmm_state \<Rightarrow> (u64 \<times> pmm_state) c_result" where
  "alloc_loop f s =
     (if f < total_frames s then do {
        used \<leftarrow> bitmap_test f s;
        (if \<not> used then do {
           s' \<leftarrow> bitmap_set f s;
           Some (f * 4096, s'\<lparr>free_frames := free_frames s' - 1\<rparr>)
         } else alloc_loop (f + 1) s)
      } else Some (0, s))"
  by pat_completeness auto
termination
  by (relation "measure (\<lambda>(f, s). unat (total_frames s) - unat f)")
    (auto simp: unat_plus_one_le word_less_nat_alt)

declare alloc_loop.simps [simp del]

definition pmm_alloc_frame :: "pmm_state \<Rightarrow> (u64 \<times> pmm_state) c_result" where
  "pmm_alloc_frame s = alloc_loop 1 s"

fun range_free :: "u64 \<Rightarrow> nat \<Rightarrow> pmm_state \<Rightarrow> bool c_result" where
  "range_free f 0 s = Some True"
| "range_free f (Suc n) s = do {
     used \<leftarrow> bitmap_test f s;
     (if used then Some False else range_free (f + 1) n s)
   }"

fun set_range :: "u64 \<Rightarrow> nat \<Rightarrow> pmm_state \<Rightarrow> pmm_state c_result" where
  "set_range f 0 s = Some s"
| "set_range f (Suc n) s = do { s' \<leftarrow> bitmap_set f s; set_range (f + 1) n s' }"

lemma bitmap_test_bound: "bitmap_test f s = Some b \<Longrightarrow> unat f < 2 ^ 24"
  by (auto simp: bitmap_test_def Let_def PMM_BITMAP_WORDS_def PMM_MAX_FRAMES_def drop_bit_eq_div
      word_less_nat_alt unat_div split: if_splits)

lemma range_free_False_bound: "range_free f n s = Some False \<Longrightarrow> unat f < 2 ^ 24"
  by (cases n) (auto dest: bitmap_test_bound split: bind_splits)

text \<open>
  The outer loop of \<^verbatim>\<open>pmm_alloc_frames\<close>.  It goes on only past a frame whose bit it has
  read, so it cannot run past the end of the bitmap.
\<close>

function alloc_frames_loop :: "u64 \<Rightarrow> u32 \<Rightarrow> pmm_state \<Rightarrow> (u64 \<times> pmm_state) c_result" where
  "alloc_frames_loop f count s =
     (if f + ucast count \<le> total_frames s then do {
        ok \<leftarrow> range_free f (unat count) s;
        (if ok then do {
           s' \<leftarrow> set_range f (unat count) s;
           Some (f * 4096, s'\<lparr>free_frames := free_frames s' - ucast count\<rparr>)
         } else alloc_frames_loop (f + 1) count s)
      } else Some (0, s))"
  by pat_completeness auto
termination
proof (relation "measure (\<lambda>(f, count, s). 2 ^ 24 - unat f)", goal_cases)
  case (2 f count s ok)
  then have "unat f < 2 ^ 24"
    by (auto dest: range_free_False_bound)
  then show ?case
    by (simp add: unat_word_ariths)
qed simp

declare alloc_frames_loop.simps [simp del]

definition pmm_alloc_frames :: "u32 \<Rightarrow> pmm_state \<Rightarrow> (u64 \<times> pmm_state) c_result" where
  "pmm_alloc_frames count s = (if count = 0 then Some (0, s) else alloc_frames_loop 1 count s)"

definition pmm_free_frame :: "u64 \<Rightarrow> pmm_state \<Rightarrow> pmm_state c_result" where
  "pmm_free_frame frame s =
     (if frame = 0 \<or> frame AND 4095 \<noteq> 0 then Some s
      else let f = frame div 4096 in
        if f < total_frames s then do {
          used \<leftarrow> bitmap_test f s;
          (if used then do {
             s' \<leftarrow> bitmap_clear f s;
             Some (s'\<lparr>free_frames := free_frames s' + 1\<rparr>)
           } else Some s)
        } else Some s)"

definition pmm_reserve :: "u64 \<Rightarrow> u64 \<Rightarrow> pmm_state \<Rightarrow> (int \<times> pmm_state) c_result" where
  "pmm_reserve start nbytes s =
     (if nbytes = 0 then Some (-1, s)
      else let b = (start + 4095) AND NOT 4095; e = (start + nbytes + 4095) AND NOT 4095 in
        if e > PMM_MAX_FRAMES * 4096 then Some (-1, s)
        else do { s' \<leftarrow> reserve_range (b div 4096) (e div 4096) s; Some (0, s') })"

definition pmm_is_available :: "u64 \<Rightarrow> pmm_state \<Rightarrow> bool c_result" where
  "pmm_is_available frame s =
     (if frame = 0 \<or> frame AND 4095 \<noteq> 0 then Some False
      else let f = frame div 4096 in
        if f < total_frames s then map_option Not (bitmap_test f s) else Some False)"

definition pmm_free_frames :: "pmm_state \<Rightarrow> u64" where "pmm_free_frames s = free_frames s"
definition pmm_total_bytes :: "pmm_state \<Rightarrow> u64" where "pmm_total_bytes s = total_frames s * 4096"
definition pmm_usable_bytes :: "pmm_state \<Rightarrow> u64" where "pmm_usable_bytes s = free_frames s * 4096"
definition pmm_reserved_bytes :: "pmm_state \<Rightarrow> u64" where
  "pmm_reserved_bytes s = reserved_bytes_total s"

section \<open>The bitmap as a set of frames\<close>

definition frame_used :: "pmm_state \<Rightarrow> nat \<Rightarrow> bool" where
  "frame_used s n \<longleftrightarrow> bit (bitmap s (n div 64)) (n mod 64)"

definition mark :: "nat \<Rightarrow> pmm_state \<Rightarrow> pmm_state" where
  "mark n s = s\<lparr>bitmap := (bitmap s)(n div 64 := bitmap s (n div 64) OR push_bit (n mod 64) 1)\<rparr>"

definition unmark :: "nat \<Rightarrow> pmm_state \<Rightarrow> pmm_state" where
  "unmark n s = s\<lparr>bitmap := (bitmap s)(n div 64 := bitmap s (n div 64) AND NOT (push_bit (n mod 64) 1))\<rparr>"

lemma frame_used_mark [simp]: "frame_used (mark n s) m \<longleftrightarrow> m = n \<or> frame_used s m"
proof (cases "m div 64 = n div 64")
  case True
  then have "m mod 64 = n mod 64 \<longleftrightarrow> m = n"
    by (metis div_mult_mod_eq)
  then show ?thesis
    using True by (auto simp: frame_used_def mark_def bit_or_iff bit_exp_iff possible_bit_word)
next
  case False
  then show ?thesis by (auto simp: frame_used_def mark_def)
qed

lemma frame_used_unmark [simp]: "frame_used (unmark n s) m \<longleftrightarrow> m \<noteq> n \<and> frame_used s m"
proof (cases "m div 64 = n div 64")
  case True
  then have "m mod 64 = n mod 64 \<longleftrightarrow> m = n"
    by (metis div_mult_mod_eq)
  then show ?thesis
    using True
    by (auto simp: frame_used_def unmark_def bit_and_iff bit_not_iff bit_exp_iff
        possible_bit_word)
next
  case False
  then show ?thesis by (auto simp: frame_used_def unmark_def)
qed

lemma mark_fields [simp]:
  "total_frames (mark n s) = total_frames s" "free_frames (mark n s) = free_frames s"
  "reserved_bytes_total (mark n s) = reserved_bytes_total s" "pmm_log (mark n s) = pmm_log s"
  "total_frames (unmark n s) = total_frames s" "free_frames (unmark n s) = free_frames s"
  "reserved_bytes_total (unmark n s) = reserved_bytes_total s"
  by (simp_all add: mark_def unmark_def)

lemma frame_used_counters [simp]:
  "frame_used (s\<lparr>free_frames := x\<rparr>) n = frame_used s n"
  "frame_used (s\<lparr>total_frames := x\<rparr>) n = frame_used s n"
  "frame_used (s\<lparr>reserved_bytes_total := x\<rparr>) n = frame_used s n"
  by (simp_all add: frame_used_def)

lemma bitmap_words: "unat PMM_BITMAP_WORDS = 2 ^ 18"
  by (simp add: PMM_BITMAP_WORDS_def PMM_MAX_FRAMES_def)

lemma frame_word: "unat (drop_bit 6 (f :: u64)) = unat f div 64"
  by (simp add: drop_bit_eq_div unat_div)

lemma frame_bit: "unat ((f :: u64) AND 63) = unat f mod 64"
  using and_mask_mod [of f 6] by (simp add: mask_eq_exp_minus_1 unat_mod)

lemma frame_in_bitmap: "unat (f :: u64) < 2 ^ 24 \<Longrightarrow> drop_bit 6 f < PMM_BITMAP_WORDS"
  by (simp add: word_less_nat_alt bitmap_words frame_word less_mult_imp_div_less)

lemma low_bit_test: "drop_bit k (w :: u64) AND 1 \<noteq> 0 \<longleftrightarrow> bit w k"
  by (simp add: and_one_eq odd_iff_mod_2_eq_one bit_iff_odd_drop_bit even_iff_mod_2_eq_zero)

lemma bitmap_test_eq: "unat f < 2 ^ 24 \<Longrightarrow> bitmap_test f s = Some (frame_used s (unat f))"
  by (simp add: bitmap_test_def frame_in_bitmap Let_def frame_word frame_bit low_bit_test frame_used_def
      del: push_bit_of_1)

lemma bitmap_set_eq: "unat f < 2 ^ 24 \<Longrightarrow> bitmap_set f s = Some (mark (unat f) s)"
  by (simp add: bitmap_set_def frame_in_bitmap Let_def frame_word frame_bit mark_def)

lemma bitmap_clear_eq: "unat f < 2 ^ 24 \<Longrightarrow> bitmap_clear f s = Some (unmark (unat f) s)"
  by (simp add: bitmap_clear_def frame_in_bitmap Let_def frame_word frame_bit unmark_def)

lemmas bitmap_eqs = bitmap_test_eq bitmap_set_eq bitmap_clear_eq

text \<open>An allocator whose frames all have a bit.\<close>

definition pmm_ok :: "pmm_state \<Rightarrow> bool" where
  "pmm_ok s \<longleftrightarrow> unat (total_frames s) \<le> 2 ^ 24"

definition take_frame :: "nat \<Rightarrow> pmm_state \<Rightarrow> pmm_state" where
  "take_frame n s = (mark n s)\<lparr>free_frames := free_frames s - 1\<rparr>"

definition give_frame :: "nat \<Rightarrow> pmm_state \<Rightarrow> pmm_state" where
  "give_frame n s = (unmark n s)\<lparr>free_frames := free_frames s + 1\<rparr>"

definition frame_addr :: "nat \<Rightarrow> u64" where
  "frame_addr n = of_nat n * 4096"

lemma unat_frame_addr: "n < 2 ^ 24 \<Longrightarrow> unat (frame_addr n) = n * 4096"
  by (simp add: frame_addr_def unat_word_ariths unat_of_nat_small)

lemma take_frame_simps [simp]:
  "frame_used (take_frame n s) m \<longleftrightarrow> m = n \<or> frame_used s m"
  "total_frames (take_frame n s) = total_frames s"
  "free_frames (take_frame n s) = free_frames s - 1"
  "pmm_ok (take_frame n s) = pmm_ok s"
  "reserved_bytes_total (take_frame n s) = reserved_bytes_total s"
  "pmm_log (take_frame n s) = pmm_log s"
  by (simp_all add: take_frame_def pmm_ok_def)

lemma give_frame_simps [simp]:
  "frame_used (give_frame n s) m \<longleftrightarrow> m \<noteq> n \<and> frame_used s m"
  "total_frames (give_frame n s) = total_frames s"
  "free_frames (give_frame n s) = free_frames s + 1"
  "pmm_ok (give_frame n s) = pmm_ok s"
  by (simp_all add: give_frame_def pmm_ok_def)

section \<open>Allocation\<close>

text \<open>The outcome of the search from frame \<open>n\<close> on: the lowest free frame, or none.\<close>

definition alloc_outcome :: "nat \<Rightarrow> pmm_state \<Rightarrow> u64 \<times> pmm_state \<Rightarrow> bool" where
  "alloc_outcome n s r \<longleftrightarrow>
     (r = (0, s) \<and> (\<forall>m. n \<le> m \<longrightarrow> m < unat (total_frames s) \<longrightarrow> frame_used s m))
     \<or> (\<exists>m. n \<le> m \<and> m < unat (total_frames s) \<and> \<not> frame_used s m
          \<and> (\<forall>k. n \<le> k \<longrightarrow> k < m \<longrightarrow> frame_used s k)
          \<and> r = (frame_addr m, take_frame m s))"

lemma alloc_outcome_skip:
  "frame_used s n \<Longrightarrow> alloc_outcome (Suc n) s r \<Longrightarrow> alloc_outcome n s r"
  unfolding alloc_outcome_def by (metis Suc_leI le_antisym not_less_eq_eq Suc_leD)

lemma alloc_loop_outcome:
  assumes "pmm_ok s"
  shows "\<exists>r. alloc_loop f s = Some r \<and> alloc_outcome (unat f) s r"
  using assms
proof (induction f s rule: alloc_loop.induct)
  case (1 f s)
  note unfold = alloc_loop.simps [of f s]
  show ?case
  proof (cases "f < total_frames s")
    case False
    then show ?thesis
      by (auto simp: unfold alloc_outcome_def word_less_nat_alt)
  next
    case True
    then have lt: "unat f < 2 ^ 24" and in_total: "unat f < unat (total_frames s)"
      using "1.prems" by (simp_all add: pmm_ok_def word_less_nat_alt)
    show ?thesis
    proof (cases "frame_used s (unat f)")
      case False
      then show ?thesis
        using True lt in_total
        by (auto simp: unfold bitmap_eqs alloc_outcome_def take_frame_def frame_addr_def
            intro!: exI [of _ "unat f"])
    next
      case used: True
      have "unat (f + 1) = Suc (unat f)"
        using unat_plus_one_le [OF True] by simp
      with "1.IH" [of True] "1.prems" True lt used show ?thesis
        by (auto simp: unfold bitmap_eqs intro: alloc_outcome_skip)
    qed
  qed
qed

section \<open>Frame allocators: the interface\<close>

text \<open>
  What the page-table code and the heap rely on: an allocator of the frames
  \<open>frames s\<close>, of which \<open>taken s\<close> are in use, hands out a frame that is not in use
  or the address 0 when there is none, and takes back only frames in use.
\<close>

locale frame_allocator =
  fixes alloc :: "'s \<Rightarrow> (u64 \<times> 's) c_result"
    and release :: "u64 \<Rightarrow> 's \<Rightarrow> 's c_result"
    and ok :: "'s \<Rightarrow> bool"
    and frames :: "'s \<Rightarrow> u64 set"
    and taken :: "'s \<Rightarrow> u64 set"
  assumes zero_no_frame: "ok s \<Longrightarrow> 0 \<notin> frames s"
    and alloc_none: "ok s \<Longrightarrow> frames s \<subseteq> taken s \<Longrightarrow> alloc s = Some (0, s)"
    and alloc_one: "ok s \<Longrightarrow> \<not> frames s \<subseteq> taken s \<Longrightarrow>
      \<exists>a s'. alloc s = Some (a, s') \<and> ok s' \<and> frames s' = frames s
        \<and> a \<in> frames s - taken s \<and> taken s' = insert a (taken s)"
    and release_taken: "ok s \<Longrightarrow> a \<in> frames s \<Longrightarrow> a \<in> taken s \<Longrightarrow>
      \<exists>s'. release a s = Some s' \<and> ok s' \<and> frames s' = frames s \<and> taken s' = taken s - {a}"
    and release_other: "ok s \<Longrightarrow> \<not> (a \<in> frames s \<and> a \<in> taken s) \<Longrightarrow> release a s = Some s"

fun alloc_many :: "('s \<Rightarrow> (u64 \<times> 's) c_result) \<Rightarrow> nat \<Rightarrow> 's \<Rightarrow> (u64 list \<times> 's) c_result" where
  "alloc_many al 0 s = Some ([], s)"
| "alloc_many al (Suc n) s = do {
     (a, s') \<leftarrow> al s;
     (if a = 0 then Some ([], s')
      else do { (as, s'') \<leftarrow> alloc_many al n s'; Some (a # as, s'') })
   }"

context frame_allocator
begin

lemma alloc_cases:
  assumes "ok s"
  obtains "alloc s = Some (0, s)" "frames s \<subseteq> taken s"
  | a s' where "alloc s = Some (a, s')" "ok s'" "frames s' = frames s" "a \<in> frames s" "a \<notin> taken s"
      "a \<noteq> 0" "taken s' = insert a (taken s)"
  using alloc_none [OF assms] alloc_one [OF assms] zero_no_frame [OF assms] by (metis Diff_iff)

lemma alloc_many_distinct:
  "ok s \<Longrightarrow> \<exists>as s'. alloc_many alloc n s = Some (as, s') \<and> ok s' \<and> frames s' = frames s
     \<and> distinct as \<and> set as \<subseteq> frames s - taken s \<and> taken s' = taken s \<union> set as
     \<and> (length as < n \<longrightarrow> frames s \<subseteq> taken s')"
proof (induction n arbitrary: s)
  case 0
  then show ?case by simp
next
  case (Suc n)
  from Suc.prems show ?case
  proof (cases rule: alloc_cases)
    case 1
    then show ?thesis using Suc.prems by simp
  next
    case (2 a s')
    from Suc.IH [OF 2(2)] show ?thesis
      using 2 by (auto simp: insert_commute)
  qed
qed

lemma alloc_release:
  assumes "ok s" and "alloc s = Some (a, s')" and "a \<noteq> 0"
  shows "\<exists>s''. release a s' = Some s'' \<and> taken s'' = taken s \<and> frames s'' = frames s \<and> ok s''"
  using assms(1)
proof (cases rule: alloc_cases)
  case 1
  then show ?thesis using assms by simp
next
  case (2 b t)
  then have "a = b" "s' = t" using assms by auto
  with 2 release_taken [of s' a] show ?thesis by auto
qed

lemma release_then_available:
  assumes "ok s" and "a \<in> frames s" and "a \<in> taken s"
  shows "\<exists>s' b t. release a s = Some s' \<and> alloc s' = Some (b, t) \<and> b \<noteq> 0"
proof -
  obtain s' where s': "release a s = Some s'" "ok s'" "frames s' = frames s" "taken s' = taken s - {a}"
    using release_taken [OF assms] by blast
  from s'(2) show ?thesis
    by (cases rule: alloc_cases) (use s' assms in auto)
qed

end

definition pmm_frames :: "pmm_state \<Rightarrow> u64 set" where
  "pmm_frames s = frame_addr ` {n. 1 \<le> n \<and> n < unat (total_frames s)}"

definition pmm_taken :: "pmm_state \<Rightarrow> u64 set" where
  "pmm_taken s = frame_addr ` {n. 1 \<le> n \<and> n < unat (total_frames s) \<and> frame_used s n}"

lemma frame_addr_inj: "m < 2 ^ 24 \<Longrightarrow> n < 2 ^ 24 \<Longrightarrow> frame_addr m = frame_addr n \<longleftrightarrow> m = n"
  by (metis mult_cancel2 unat_frame_addr zero_neq_numeral)

lemma frame_addr_in_taken:
  assumes "pmm_ok s" and "1 \<le> n" and "n < unat (total_frames s)"
  shows "frame_addr n \<in> pmm_taken s \<longleftrightarrow> frame_used s n"
proof -
  have "n < 2 ^ 24" using assms by (simp add: pmm_ok_def)
  moreover have "m < 2 ^ 24" if "m < unat (total_frames s)" for m
    using that assms by (simp add: pmm_ok_def)
  ultimately show ?thesis
    using assms(2,3) frame_addr_inj by (auto simp: pmm_taken_def)
qed

lemma frame_addr_div: "n < 2 ^ 24 \<Longrightarrow> frame_addr n div 4096 = of_nat n"
  by (simp add: word_unat_eq_iff unat_div unat_frame_addr unat_of_nat_small)

lemma low_bits_mod: "(a :: u64) AND 4095 = a mod 4096"
  using and_mask_mod [of a 12] by (simp add: mask_eq_exp_minus_1)

lemma aligned_iff: "(a :: u64) AND 4095 = 0 \<longleftrightarrow> unat a mod 4096 = 0"
  by (simp add: low_bits_mod word_unat_eq_iff unat_mod)

lemma aligned_frame_addr:
  assumes "(a :: u64) AND 4095 = 0"
  shows "a = frame_addr (unat (a div 4096))"
proof -
  have dvd: "unat a div 4096 * 4096 = unat a"
    using assms by (metis aligned_iff dvd_div_mult_self mod_eq_0_iff_dvd)
  have "frame_addr (unat (a div 4096)) = a div 4096 * 4096"
    by (simp add: frame_addr_def)
  then have "unat (frame_addr (unat (a div 4096))) = unat a div 4096 * 4096 mod 2 ^ 64"
    by (simp add: unat_word_ariths mod_mult_left_eq)
  also have "\<dots> = unat a"
    using dvd unat_u64_bound [of a] by simp
  finally show ?thesis
    by (simp add: word_unat_eq_iff)
qed

lemma frame_addr_aligned:
  assumes "n < 2 ^ 24"
  shows "frame_addr n AND 4095 = 0"
  using assms by (simp only: aligned_iff unat_frame_addr) simp

lemma pmm_frames_iff:
  assumes "pmm_ok s"
  shows "a \<in> pmm_frames s \<longleftrightarrow> a \<noteq> 0 \<and> a AND 4095 = 0 \<and> a div 4096 < total_frames s"
    (is "?l \<longleftrightarrow> ?r")
proof
  assume ?l
  then obtain n where n: "a = frame_addr n" "1 \<le> n" "n < unat (total_frames s)"
    by (auto simp: pmm_frames_def)
  then have lt: "n < 2 ^ 24" using assms by (simp add: pmm_ok_def)
  have "a \<noteq> 0"
    using unat_frame_addr [OF lt] n by auto
  moreover have "a div 4096 < total_frames s"
    using n lt by (simp add: frame_addr_div word_less_nat_alt unat_of_nat_small)
  ultimately show ?r
    using n frame_addr_aligned [OF lt] by simp
next
  assume r: ?r
  then have a: "a = frame_addr (unat (a div 4096))"
    using aligned_frame_addr by blast
  have "unat (a div 4096) \<noteq> 0"
  proof
    assume "unat (a div 4096) = 0"
    with a have "a = 0" by (simp add: frame_addr_def)
    with r show False by simp
  qed
  with a r show ?l
    by (auto simp: pmm_frames_def word_less_nat_alt intro!: image_eqI [of a _ "unat (a div 4096)"])
qed

lemma pmm_free_frame_eq:
  assumes "pmm_ok s"
  shows "pmm_free_frame a s =
    Some (if a \<in> pmm_frames s \<and> a \<in> pmm_taken s then give_frame (unat (a div 4096)) s else s)"
proof -
  let ?n = "unat (a div 4096)"
  show ?thesis
  proof (cases "a \<in> pmm_frames s")
    case True
    note iff = pmm_frames_iff [OF assms, of a, THEN iffD1, OF True]
    have a: "a = frame_addr ?n"
      using aligned_frame_addr iff by blast
    then have n1: "1 \<le> ?n"
      using iff by (cases "?n = 0") (auto simp: frame_addr_def)
    have n2: "?n < unat (total_frames s)" "?n < 2 ^ 24"
      using iff assms by (auto simp: word_less_nat_alt pmm_ok_def)
    have "a \<in> pmm_taken s \<longleftrightarrow> frame_used s ?n"
      using frame_addr_in_taken [OF assms n1 n2(1)] a by simp
    then show ?thesis
      using iff True n2 by (simp add: pmm_free_frame_def Let_def bitmap_eqs give_frame_def)
  next
    case False
    then show ?thesis
      using pmm_frames_iff [OF assms, of a] by (auto simp: pmm_free_frame_def Let_def)
  qed
qed

lemma pmm_taken_take:
  assumes "1 \<le> n" and "n < unat (total_frames s)"
  shows "pmm_taken (take_frame n s) = insert (frame_addr n) (pmm_taken s)"
  using assms by (auto simp: pmm_taken_def)

lemma pmm_taken_give:
  assumes "pmm_ok s" and "n < unat (total_frames s)"
  shows "pmm_taken (give_frame n s) = pmm_taken s - {frame_addr n}"
proof -
  have "frame_addr m = frame_addr n \<longleftrightarrow> m = n" if "m < unat (total_frames s)" for m
    using that assms frame_addr_inj by (simp add: pmm_ok_def)
  then show ?thesis
    by (auto simp: pmm_taken_def)
qed

interpretation pmm: frame_allocator pmm_alloc_frame pmm_free_frame pmm_ok pmm_frames pmm_taken
proof
  fix s :: pmm_state and a :: u64
  assume ok: "pmm_ok s"
  show "0 \<notin> pmm_frames s"
    by (simp add: pmm_frames_iff [OF ok])
  obtain r where r: "pmm_alloc_frame s = Some r" "alloc_outcome 1 s r"
    using alloc_loop_outcome [OF ok, of 1] by (auto simp: pmm_alloc_frame_def)
  have lt: "m < 2 ^ 24" if "m < unat (total_frames s)" for m
    using that ok by (simp add: pmm_ok_def)
  show "pmm_alloc_frame s = Some (0, s)" if "pmm_frames s \<subseteq> pmm_taken s"
    using that r frame_addr_in_taken [OF ok]
    by (auto simp: alloc_outcome_def pmm_frames_def subset_iff)
  show "\<exists>a s'. pmm_alloc_frame s = Some (a, s') \<and> pmm_ok s' \<and> pmm_frames s' = pmm_frames s
      \<and> a \<in> pmm_frames s - pmm_taken s \<and> pmm_taken s' = insert a (pmm_taken s)"
    if "\<not> pmm_frames s \<subseteq> pmm_taken s"
    using that r ok frame_addr_in_taken [OF ok] pmm_taken_take
    by (auto simp: alloc_outcome_def pmm_frames_def pmm_taken_def)
  show "\<exists>s'. pmm_free_frame a s = Some s' \<and> pmm_ok s' \<and> pmm_frames s' = pmm_frames s
      \<and> pmm_taken s' = pmm_taken s - {a}"
    if a: "a \<in> pmm_frames s" "a \<in> pmm_taken s"
  proof -
    have "unat (a div 4096) < unat (total_frames s)" "a = frame_addr (unat (a div 4096))"
      using a(1) aligned_frame_addr by (auto simp: pmm_frames_iff [OF ok] word_less_nat_alt)
    then show ?thesis
      using pmm_taken_give [OF ok, of "unat (a div 4096)"] a ok
      by (simp add: pmm_free_frame_eq [OF ok]) (simp add: pmm_frames_def)
  qed
  show "pmm_free_frame a s = Some s" if "\<not> (a \<in> pmm_frames s \<and> a \<in> pmm_taken s)"
    using that by (simp only: pmm_free_frame_eq [OF ok]) simp
qed

section \<open>The free counter\<close>

text \<open>
  The counter is never recomputed: it is kept by increments and decrements, as a
  64-bit number.  Its value plus the number of set bits is what every operation
  after the construction leaves unchanged.
\<close>

definition used_set :: "pmm_state \<Rightarrow> nat set" where
  "used_set s = {n. n < 2 ^ 24 \<and> frame_used s n}"

definition pmm_balance :: "pmm_state \<Rightarrow> u64" where
  "pmm_balance s = free_frames s + of_nat (card (used_set s))"

lemma used_set_finite [simp]: "finite (used_set s)"
  by (simp add: used_set_def)

lemma used_set_take: "n < 2 ^ 24 \<Longrightarrow> used_set (take_frame n s) = insert n (used_set s)"
  by (auto simp: used_set_def)

lemma used_set_give: "used_set (give_frame n s) = used_set s - {n}"
  by (auto simp: used_set_def)

lemma balance_take:
  assumes "n < 2 ^ 24" and "\<not> frame_used s n"
  shows "pmm_balance (take_frame n s) = pmm_balance s"
proof -
  have "n \<notin> used_set s" using assms by (simp add: used_set_def)
  then show ?thesis
    by (simp add: pmm_balance_def used_set_take [OF assms(1)])
qed

lemma balance_give:
  assumes "n < 2 ^ 24" and "frame_used s n"
  shows "pmm_balance (give_frame n s) = pmm_balance s"
proof -
  have "n \<in> used_set s" using assms by (simp add: used_set_def)
  then have "Suc (card (used_set s - {n})) = card (used_set s)"
    by (rule card_Suc_Diff1 [OF used_set_finite])
  then have "(of_nat (card (used_set s)) :: u64) = of_nat (card (used_set s - {n})) + 1"
    by (metis add.commute of_nat_Suc)
  then show ?thesis
    by (simp add: pmm_balance_def used_set_give)
qed

text \<open>Marking the frames from \<open>n\<close> to below \<open>m\<close> that are not marked yet.\<close>

definition reserved_to :: "nat \<Rightarrow> nat \<Rightarrow> pmm_state \<Rightarrow> pmm_state \<Rightarrow> bool" where
  "reserved_to n m s s' \<longleftrightarrow>
     (\<forall>k. frame_used s' k \<longleftrightarrow> n \<le> k \<and> k < m \<or> frame_used s k)
     \<and> total_frames s' = total_frames s \<and> pmm_balance s' = pmm_balance s"

lemma reserve_loop_marks:
  assumes "unat stop \<le> 2 ^ 24"
  shows "\<exists>s'. reserve_loop f stop s = Some s' \<and> reserved_to (unat f) (unat stop) s s'
    \<and> reserved_bytes_total s' = reserved_bytes_total s \<and> pmm_log s' = pmm_log s"
  using assms
proof (induction f stop s rule: reserve_loop.induct)
  case (1 f stop s)
  note unfold = reserve_loop.simps [of f stop s]
  show ?case
  proof (cases "f < stop")
    case False
    then show ?thesis
      by (auto simp: unfold reserved_to_def word_less_nat_alt)
  next
    case True
    then have lt: "unat f < 2 ^ 24" "unat f < unat stop"
      using "1.prems" by (simp_all add: word_less_nat_alt)
    have next_f: "unat (f + 1) = Suc (unat f)"
      using unat_plus_one_le [OF True] by simp
    define s1 where "s1 = (if frame_used s (unat f) then s else take_frame (unat f) s)"
    have body: "reserve_loop f stop s = reserve_loop (f + 1) stop s1"
      using True lt by (simp add: unfold bitmap_eqs s1_def take_frame_def)
    have IH: "\<exists>s'. reserve_loop (f + 1) stop s1 = Some s'
        \<and> reserved_to (unat (f + 1)) (unat stop) s1 s'
        \<and> reserved_bytes_total s' = reserved_bytes_total s1 \<and> pmm_log s' = pmm_log s1"
      using "1.IH" [of "frame_used s (unat f)" s1] "1.prems" True lt
      by (simp add: bitmap_eqs s1_def take_frame_def)
    have s1: "frame_used s1 k \<longleftrightarrow> k = unat f \<or> frame_used s k" "total_frames s1 = total_frames s"
      "pmm_balance s1 = pmm_balance s" "reserved_bytes_total s1 = reserved_bytes_total s"
      "pmm_log s1 = pmm_log s" for k
      using lt balance_take by (auto simp: s1_def)
    show ?thesis
      using IH lt unfolding body by (auto simp: reserved_to_def s1 next_f)
  qed
qed

lemma reserve_loop_overrun:
  assumes "2 ^ 24 < unat stop" and "f < stop"
  shows "reserve_loop f stop s = None"
  using assms
proof (induction f stop s rule: reserve_loop.induct)
  case (1 f stop s)
  note unfold = reserve_loop.simps [of f stop s]
  show ?case
  proof (cases "unat f < 2 ^ 24")
    case False
    then have "bitmap_test f s = None"
      using bitmap_test_bound by (cases "bitmap_test f s") auto
    then show ?thesis using "1.prems" by (simp add: unfold)
  next
    case True
    define s1 where "s1 = (if frame_used s (unat f) then s else take_frame (unat f) s)"
    have "f + 1 < stop"
      using True "1.prems" unat_plus_one_le [of f stop] by (simp add: word_less_nat_alt)
    then have "reserve_loop (f + 1) stop s1 = None"
      using "1.IH" [of "frame_used s (unat f)" s1] "1.prems" True
      by (simp add: bitmap_eqs s1_def take_frame_def)
    then show ?thesis
      using True "1.prems"
      by (cases "frame_used s (unat f)") (simp_all add: unfold bitmap_eqs s1_def take_frame_def)
  qed
qed

text \<open>The frames a byte range touches.\<close>

definition lo_frame :: "u64 \<Rightarrow> nat" where "lo_frame base = unat (base div 4096)"
definition hi_frame :: "u64 \<Rightarrow> u64 \<Rightarrow> nat" where
  "hi_frame base nbytes = unat ((base + nbytes + 4095) div 4096)"

lemma reserved_to_counters [simp]:
  "reserved_to n m s (s'\<lparr>reserved_bytes_total := x\<rparr>) = reserved_to n m s s'"
  by (simp add: reserved_to_def pmm_balance_def used_set_def)

lemma reserve_bytes_marks:
  assumes "hi_frame base nbytes \<le> 2 ^ 24"
  shows "\<exists>s'. reserve_bytes base nbytes s = Some s'
    \<and> reserved_to (lo_frame base) (hi_frame base nbytes) s s'"
  using reserve_loop_marks [of "(base + nbytes + 4095) div 4096" "base div 4096" s] assms
  by (auto simp: reserve_bytes_def reserve_range_def lo_frame_def hi_frame_def)

lemma reserve_bytes_overrun:
  assumes "2 ^ 24 < hi_frame base nbytes" and "lo_frame base < hi_frame base nbytes"
  shows "reserve_bytes base nbytes s = None"
  using reserve_loop_overrun [of "(base + nbytes + 4095) div 4096" "base div 4096" s] assms
  by (simp add: reserve_bytes_def reserve_range_def lo_frame_def hi_frame_def word_less_nat_alt)

section \<open>Construction\<close>

lemma count_loop_counts:
  assumes "unat stop \<le> 2 ^ 24" and "\<forall>k < 2 ^ 24. \<not> frame_used s k"
  shows "\<exists>s'. count_loop f stop s = Some s' \<and> (\<forall>k < 2 ^ 24. \<not> frame_used s' k)
    \<and> total_frames s' = total_frames s
    \<and> free_frames s' = free_frames s + of_nat (unat stop - unat f)"
  using assms
proof (induction f stop s rule: count_loop.induct)
  case (1 f stop s)
  note unfold = count_loop.simps [of f stop s]
  show ?case
  proof (cases "f < stop")
    case False
    then show ?thesis
      using "1.prems" by (auto simp: unfold word_less_nat_alt)
  next
    case True
    then have lt: "unat f < 2 ^ 24" "unat f < unat stop"
      using "1.prems" by (simp_all add: word_less_nat_alt)
    let ?s = "give_frame (unat f) s"
    have free: "\<not> frame_used s (unat f)" using "1.prems" lt by simp
    have body: "count_loop f stop s = count_loop (f + 1) stop ?s"
      using True lt free by (simp add: unfold bitmap_eqs give_frame_def)
    obtain s' where s': "count_loop (f + 1) stop ?s = Some s'"
        "\<forall>k < 2 ^ 24. \<not> frame_used s' k" "total_frames s' = total_frames s"
        "free_frames s' = free_frames s + 1 + of_nat (unat stop - unat (f + 1))"
      using "1.IH" [of False ?s] "1.prems" True lt free
      by (auto simp: bitmap_eqs give_frame_def)
    have "unat stop - unat f = Suc (unat stop - unat (f + 1))"
      using lt unat_plus_one_le [OF True] by simp
    then show ?thesis
      using s' unfolding body by simp
  qed
qed

text \<open>
  A descriptor as the firmware specification promises it: page-aligned, and its end
  inside the 64 GiB the bitmap covers.
\<close>

definition conventional :: "efi_memory_descriptor \<Rightarrow> bool" where
  "conventional d \<longleftrightarrow> md_Type d = efi_type_code EfiConventionalMemory"

definition region_fits :: "efi_memory_descriptor \<Rightarrow> bool" where
  "region_fits d \<longleftrightarrow> (conventional d \<longrightarrow>
     unat (md_PhysicalStart d) mod 4096 = 0
     \<and> unat (md_PhysicalStart d) + unat (md_NumberOfPages d) * 4096 \<le> 2 ^ 36)"

definition conv_pages :: "efi_memory_descriptor list \<Rightarrow> nat" where
  "conv_pages ds = (\<Sum>d\<leftarrow>filter conventional ds. unat (md_NumberOfPages d))"

lemma round_up_aligned:
  assumes "unat (a :: u64) mod 4096 = 0" and "unat a \<le> 2 ^ 36"
  shows "(a + 4095) AND - 4096 = a"
proof -
  obtain m where m: "unat a = m * 4096"
    using assms(1) by (metis dvd_def mod_eq_0_iff_dvd mult.commute)
  have "unat (a + 4095) = m * 4096 + 4095"
    using assms(2) m by (simp add: unat_word_ariths)
  then have "unat ((a + 4095) AND - 4096) = unat a"
    by (simp add: m)
  then show ?thesis by (simp add: word_unat_eq_iff)
qed

lemma init_region_counts:
  assumes fits: "region_fits d" and clear: "\<forall>k < 2 ^ 24. \<not> frame_used s k"
  shows "\<exists>s'. init_region d s = Some s' \<and> (\<forall>k < 2 ^ 24. \<not> frame_used s' k)
    \<and> total_frames s' = total_frames s + of_nat (conv_pages [d])
    \<and> free_frames s' = free_frames s + of_nat (conv_pages [d])"
proof (cases "conventional d \<and> md_NumberOfPages d \<noteq> 0")
  case False
  then show ?thesis
    using clear by (auto simp: init_region_def Let_def conv_pages_def conventional_def)
next
  case True
  define a n where "a = md_PhysicalStart d" and "n = md_NumberOfPages d"
  have al: "unat a mod 4096 = 0" and le: "unat a + unat n * 4096 \<le> 2 ^ 36"
    using fits True by (simp_all add: region_fits_def a_def n_def)
  have down: "(a + 4095) AND - 4096 = a"
    using round_up_aligned [OF al] le by simp
  have nbytes: "unat (n * 4096) = unat n * 4096"
    using le by (simp add: unat_word_ariths)
  have e: "unat (a + n * 4096) = unat a + unat n * 4096"
    using le nbytes by (simp add: unat_plus_if')
  have lim: "\<not> a + n * 4096 > PMM_MAX_FRAMES * 4096"
    using le e by (simp add: word_less_nat_alt PMM_MAX_FRAMES_def)
  have hi: "unat ((a + n * 4096) div 4096) = unat a div 4096 + unat n"
    using e by (simp add: unat_div)
  have diff: "n * 4096 div 4096 = n"
    using nbytes by (simp add: word_unat_eq_iff unat_div)
  have "unat a = unat a div 4096 * 4096"
    using al by (metis dvd_div_mult_self mod_eq_0_iff_dvd)
  then have "(unat a div 4096 + unat n) * 4096 \<le> 2 ^ 24 * 4096"
    using le by (simp only: add_mult_distrib) simp
  then have "unat a div 4096 + unat n \<le> 2 ^ 24"
    by simp
  then show ?thesis
    using count_loop_counts [of "(a + n * 4096) div 4096" s "a div 4096"] clear hi True
    by (auto simp: init_region_def Let_def conventional_def conv_pages_def
        down lim diff unat_div a_def [symmetric] n_def [symmetric])
qed

lemma conv_pages_Cons: "conv_pages (d # ds) = conv_pages [d] + conv_pages ds"
  by (simp add: conv_pages_def)

lemma init_regions_counts:
  assumes "\<forall>d \<in> set ds. region_fits d" and "\<forall>k < 2 ^ 24. \<not> frame_used s k"
  shows "\<exists>s'. init_regions ds s = Some s' \<and> (\<forall>k < 2 ^ 24. \<not> frame_used s' k)
    \<and> total_frames s' = total_frames s + of_nat (conv_pages ds)
    \<and> free_frames s' = free_frames s + of_nat (conv_pages ds)"
  using assms
proof (induction ds arbitrary: s)
  case Nil
  then show ?case by (simp add: conv_pages_def)
next
  case (Cons d ds)
  have fits: "region_fits d" and rest: "\<forall>d \<in> set ds. region_fits d"
    using Cons.prems by auto
  obtain s1 where s1: "init_region d s = Some s1" "\<forall>k < 2 ^ 24. \<not> frame_used s1 k"
      "total_frames s1 = total_frames s + of_nat (conv_pages [d])"
      "free_frames s1 = free_frames s + of_nat (conv_pages [d])"
    using init_region_counts [OF fits Cons.prems(2)] by blast
  show ?case
    using Cons.IH [OF rest s1(2)] s1
    by (auto simp: conv_pages_Cons [of d ds] add.assoc)
qed

text \<open>The byte ranges the construction reserves, in its order.\<close>

definition kernel_ranges :: "u64 \<Rightarrow> boot_info \<Rightarrow> (u64 \<times> u64) list" where
  "kernel_ranges addr bi =
     (if initrd_size bi \<noteq> 0 then [(initrd_base bi, initrd_size bi)] else [])
     @ [(addr, sizeof_boot_info), (memory_map bi, memory_map_size bi), (fb_base bi, fb_size bi),
        (kernel_image_base bi, kernel_image_size bi),
        (bootstrap_stack_base bi, bootstrap_stack_size bi)]"

fun reserve_all :: "(u64 \<times> u64) list \<Rightarrow> pmm_state \<Rightarrow> pmm_state c_result" where
  "reserve_all [] s = Some s"
| "reserve_all ((b, n) # rs) s = do { s' \<leftarrow> reserve_bytes b n s; reserve_all rs s' }"

lemma reserve_all_marks:
  assumes "\<forall>(b, n) \<in> set rs. hi_frame b n \<le> 2 ^ 24"
  shows "\<exists>s'. reserve_all rs s = Some s'
    \<and> (\<forall>k. frame_used s' k \<longleftrightarrow> frame_used s k \<or> (\<exists>(b, n) \<in> set rs. lo_frame b \<le> k \<and> k < hi_frame b n))
    \<and> total_frames s' = total_frames s \<and> pmm_balance s' = pmm_balance s"
  using assms
proof (induction rs arbitrary: s)
  case Nil
  then show ?case by simp
next
  case (Cons r rs)
  obtain b n where r: "r = (b, n)" by (cases r)
  obtain s1 where s1: "reserve_bytes b n s = Some s1"
      "reserved_to (lo_frame b) (hi_frame b n) s s1"
    using reserve_bytes_marks [of b n s] Cons.prems r by auto
  from Cons.IH [of s1] Cons.prems show ?case
    using s1 by (auto simp: r reserved_to_def)
qed

lemma pmm_init_unfold:
  assumes "memory_map bi \<noteq> 0" and "descriptor_size bi \<noteq> 0"
  shows "pmm_init memory (Some (addr, bi)) s = do {
    s1 \<leftarrow> init_regions
           (map_entries memory (memory_map bi) (memory_map_size bi) (descriptor_size bi))
           (s\<lparr>bitmap := (\<lambda>i. if i < unat PMM_BITMAP_WORDS then 0 else bitmap s i),
              total_frames := 0, free_frames := 0, reserved_bytes_total := 0\<rparr>);
    s2 \<leftarrow> reserve_all (kernel_ranges addr bi) s1;
    Some (pmm_report s2) }"
  using assms by (simp add: pmm_init_def kernel_ranges_def Let_def cong: Option.bind_cong)

lemma pmm_report_simps [simp]:
  "frame_used (pmm_report s) k = frame_used s k" "total_frames (pmm_report s) = total_frames s"
  "free_frames (pmm_report s) = free_frames s" "pmm_balance (pmm_report s) = pmm_balance s"
  by (simp_all add: pmm_report_def frame_used_def pmm_balance_def used_set_def)

lemma pmm_init_spec:
  assumes "memory_map bi \<noteq> 0" and "descriptor_size bi \<noteq> 0"
    and ds: "ds = map_entries memory (memory_map bi) (memory_map_size bi) (descriptor_size bi)"
    and fits: "\<forall>d \<in> set ds. region_fits d" and pages: "conv_pages ds \<le> 2 ^ 24"
    and ranges: "\<forall>(b, n) \<in> set (kernel_ranges addr bi). hi_frame b n \<le> 2 ^ 24"
  shows "\<exists>s'. pmm_init memory (Some (addr, bi)) s = Some s' \<and> pmm_ok s'
    \<and> unat (total_frames s') = conv_pages ds
    \<and> (\<forall>k < 2 ^ 24. frame_used s' k \<longleftrightarrow>
         (\<exists>(b, n) \<in> set (kernel_ranges addr bi). lo_frame b \<le> k \<and> k < hi_frame b n))
    \<and> pmm_balance s' = of_nat (conv_pages ds)"
proof -
  let ?s0 = "s\<lparr>bitmap := (\<lambda>i. if i < unat PMM_BITMAP_WORDS then 0 else bitmap s i),
              total_frames := 0, free_frames := 0, reserved_bytes_total := 0\<rparr>"
  have "\<forall>k < 2 ^ 24. \<not> frame_used ?s0 k"
    by (auto simp: frame_used_def bitmap_words less_mult_imp_div_less)
  from init_regions_counts [OF fits this] obtain s1 where
    s1: "init_regions ds ?s0 = Some s1" "\<forall>k < 2 ^ 24. \<not> frame_used s1 k"
      "total_frames s1 = of_nat (conv_pages ds)" "free_frames s1 = of_nat (conv_pages ds)"
    by auto
  have "used_set s1 = {}"
    using s1(2) by (auto simp: used_set_def)
  then have bal: "pmm_balance s1 = of_nat (conv_pages ds)"
    by (simp add: pmm_balance_def s1(4))
  have total: "unat (of_nat (conv_pages ds) :: u64) = conv_pages ds"
    using pages by (intro unat_of_nat_small) simp
  obtain s2 where s2: "reserve_all (kernel_ranges addr bi) s1 = Some s2"
      "\<forall>k. frame_used s2 k \<longleftrightarrow> frame_used s1 k
         \<or> (\<exists>(b, n) \<in> set (kernel_ranges addr bi). lo_frame b \<le> k \<and> k < hi_frame b n)"
      "total_frames s2 = total_frames s1" "pmm_balance s2 = pmm_balance s1"
    using reserve_all_marks [OF ranges] by blast
  have "pmm_init memory (Some (addr, bi)) s = Some (pmm_report s2)"
    using s1(1) s2(1) unfolding ds by (simp add: pmm_init_unfold [OF assms(1,2)])
  moreover have "\<forall>k < 2 ^ 24. frame_used s2 k \<longleftrightarrow>
      (\<exists>(b, n) \<in> set (kernel_ranges addr bi). lo_frame b \<le> k \<and> k < hi_frame b n)"
    using s2(2) s1(2) by blast
  ultimately show ?thesis
    using s2(3,4) s1(3) bal pages total by (simp add: pmm_ok_def)
qed

section \<open>Runs of frames\<close>

lemma range_free_eq:
  "unat f + n \<le> 2 ^ 24 \<Longrightarrow> range_free f n s = Some (\<forall>k. unat f \<le> k \<and> k < unat f + n \<longrightarrow> \<not> frame_used s k)"
proof (induction n arbitrary: f)
  case 0
  then show ?case by auto
next
  case (Suc n)
  then have lt: "unat f < 2 ^ 24" by simp
  have f1: "unat (f + 1) = Suc (unat f)"
    using lt by (simp add: unat_word_ariths)
  have split: "(\<forall>k. unat f \<le> k \<and> k < unat f + Suc n \<longrightarrow> P k)
      \<longleftrightarrow> P (unat f) \<and> (\<forall>k. Suc (unat f) \<le> k \<and> k < Suc (unat f) + n \<longrightarrow> P k)" for P
    by (auto simp: Suc_le_eq) (metis le_neq_implies_less)
  have "range_free f (Suc n) s = Some (\<not> frame_used s (unat f)
      \<and> (\<forall>k. Suc (unat f) \<le> k \<and> k < Suc (unat f) + n \<longrightarrow> \<not> frame_used s k))"
    using Suc.IH [of "f + 1"] Suc.prems lt f1 by (simp add: bitmap_eqs)
  then show ?case
    unfolding split .
qed

lemma set_range_marks:
  assumes "unat f + n \<le> 2 ^ 24"
  shows "\<exists>s'. set_range f n s = Some s'
    \<and> (\<forall>k. frame_used s' k \<longleftrightarrow> unat f \<le> k \<and> k < unat f + n \<or> frame_used s k)
    \<and> total_frames s' = total_frames s \<and> free_frames s' = free_frames s"
  using assms
proof (induction n arbitrary: f s)
  case 0
  then show ?case by auto
next
  case (Suc n)
  then have lt: "unat f < 2 ^ 24" by simp
  have f1: "unat (f + 1) = Suc (unat f)"
    using lt by (simp add: unat_word_ariths)
  have "unat (f + 1) + n \<le> 2 ^ 24" using Suc.prems f1 by simp
  from Suc.IH [OF this, of "mark (unat f) s"] show ?case
    using lt f1 by (auto simp: bitmap_eqs Suc_le_eq)
qed

lemma balance_add_range:
  assumes used: "\<forall>k. frame_used s' k \<longleftrightarrow> m \<le> k \<and> k < m + n \<or> frame_used s k"
    and fresh: "\<forall>k. m \<le> k \<and> k < m + n \<longrightarrow> \<not> frame_used s k" and "m + n \<le> 2 ^ 24"
    and "free_frames s' = free_frames s - of_nat n"
  shows "pmm_balance s' = pmm_balance s"
proof -
  have "k \<in> used_set s' \<longleftrightarrow> k \<in> used_set s \<union> {m..<m + n}" for k
    using used [rule_format, of k] assms(3) by (auto simp: used_set_def)
  then have "used_set s' = used_set s \<union> {m..<m + n}"
    by blast
  moreover have "used_set s \<inter> {m..<m + n} = {}"
    using fresh by (auto simp: used_set_def)
  ultimately have "card (used_set s') = card (used_set s) + n"
    by (simp add: card_Un_disjoint)
  then show ?thesis
    using assms(4) by (simp add: pmm_balance_def)
qed

text \<open>The outcome of the search for \<open>n\<close> consecutive frames from \<open>lo\<close> on.\<close>

definition run_free :: "pmm_state \<Rightarrow> nat \<Rightarrow> nat \<Rightarrow> bool" where
  "run_free s m n \<longleftrightarrow> m + n \<le> unat (total_frames s)
     \<and> (\<forall>k. m \<le> k \<and> k < m + n \<longrightarrow> \<not> frame_used s k)"

definition run_outcome :: "nat \<Rightarrow> nat \<Rightarrow> pmm_state \<Rightarrow> u64 \<times> pmm_state \<Rightarrow> bool" where
  "run_outcome lo n s r \<longleftrightarrow>
     (r = (0, s) \<and> (\<forall>m \<ge> lo. \<not> run_free s m n))
     \<or> (\<exists>m s'. r = (frame_addr m, s') \<and> lo \<le> m \<and> run_free s m n
          \<and> (\<forall>k. lo \<le> k \<longrightarrow> k < m \<longrightarrow> \<not> run_free s k n)
          \<and> (\<forall>k. frame_used s' k \<longleftrightarrow> m \<le> k \<and> k < m + n \<or> frame_used s k)
          \<and> total_frames s' = total_frames s \<and> pmm_balance s' = pmm_balance s)"

lemma run_outcome_skip:
  "\<not> run_free s lo n \<Longrightarrow> run_outcome (Suc lo) n s r \<Longrightarrow> run_outcome lo n s r"
  unfolding run_outcome_def by (metis Suc_leD Suc_leI le_neq_implies_less)

lemma take_run:
  assumes "unat f + unat (count :: u32) \<le> 2 ^ 24" "run_free s (unat f) (unat count)"
  shows "\<exists>s1. set_range f (unat count) s = Some s1 \<and> total_frames s1 = total_frames s \<and> free_frames s1 = free_frames s
    \<and> (\<forall>k. frame_used s1 k \<longleftrightarrow> unat f \<le> k \<and> k < unat f + unat count \<or> frame_used s k)
    \<and> pmm_balance (s1\<lparr>free_frames := free_frames s1 - ucast count\<rparr>) = pmm_balance s"
proof -
  obtain s1 where s1: "set_range f (unat count) s = Some s1"
      "\<forall>k. frame_used s1 k \<longleftrightarrow> unat f \<le> k \<and> k < unat f + unat count \<or> frame_used s k"
      "total_frames s1 = total_frames s" "free_frames s1 = free_frames s"
    using set_range_marks [OF assms(1)] by blast
  let ?s = "s1\<lparr>free_frames := free_frames s1 - ucast count\<rparr>"
  have "pmm_balance ?s = pmm_balance s"
    using balance_add_range [of ?s "unat f" "unat count" s] s1 assms by (simp add: run_free_def of_nat_unat_u32)
  then show ?thesis using s1 by blast
qed

lemma alloc_frames_loop_outcome:
  assumes "pmm_ok s" and "count \<noteq> 0" and "unat f \<le> 2 ^ 24"
  shows "\<exists>r. alloc_frames_loop f count s = Some r \<and> run_outcome (unat f) (unat count) s r"
  using assms
proof (induction f count s rule: alloc_frames_loop.induct)
  case (1 f count s)
  note unfold = alloc_frames_loop.simps [of f count s]
  let ?n = "unat count"
  have n: "0 < ?n" "?n < 2 ^ 32"
    using "1.prems"(2) unat_u32_bound [of count] by (simp_all add: unat_gt_0)
  have sum: "unat (f + ucast count) = unat f + ?n"
    using "1.prems"(3) n by (simp add: unat_word_ariths)
  show ?case
  proof (cases "f + ucast count \<le> total_frames s")
    case False
    then show ?thesis
      using sum by (auto simp: unfold run_outcome_def run_free_def word_le_nat_alt)
  next
    case True
    then have in_total: "unat f + ?n \<le> unat (total_frames s)"
      using sum by (simp add: word_le_nat_alt)
    then have le: "unat f + ?n \<le> 2 ^ 24"
      using "1.prems"(1) by (simp add: pmm_ok_def)
    have test: "range_free f ?n s = Some (run_free s (unat f) ?n)"
      using range_free_eq [OF le] in_total by (simp add: run_free_def)
    show ?thesis
    proof (cases "run_free s (unat f) ?n")
      case ok: True
      show ?thesis
        using take_run [OF le ok] True test ok by (auto simp: unfold run_outcome_def frame_addr_def intro!: exI [of _ "unat f"])
    next
      case skip: False
      have f1: "unat (f + 1) = Suc (unat f)"
        using "1.prems"(3) by (simp add: unat_word_ariths)
      have "unat (f + 1) \<le> 2 ^ 24"
        using le n f1 by simp
      with "1.IH" [OF True test skip] "1.prems" show ?thesis
        using True test skip f1 by (auto simp: unfold intro: run_outcome_skip)
    qed
  qed
qed

section \<open>Sequences of operations\<close>

datatype pmm_op = Op_alloc | Op_alloc_run u32 | Op_free u64 | Op_reserve u64 u64

fun pmm_step :: "pmm_op \<Rightarrow> pmm_state \<Rightarrow> pmm_state c_result" where
  "pmm_step Op_alloc s = map_option snd (pmm_alloc_frame s)"
| "pmm_step (Op_alloc_run n) s = map_option snd (pmm_alloc_frames n s)"
| "pmm_step (Op_free a) s = pmm_free_frame a s"
| "pmm_step (Op_reserve a n) s = map_option snd (pmm_reserve a n s)"

fun pmm_run :: "pmm_op list \<Rightarrow> pmm_state \<Rightarrow> pmm_state c_result" where
  "pmm_run [] s = Some s"
| "pmm_run (x # xs) s = do { s' \<leftarrow> pmm_step x s; pmm_run xs s' }"

definition pmm_kept :: "pmm_state \<Rightarrow> pmm_state \<Rightarrow> bool" where
  "pmm_kept s s' \<longleftrightarrow> pmm_ok s' \<and> total_frames s' = total_frames s \<and> pmm_balance s' = pmm_balance s"

lemma pmm_kept_refl: "pmm_ok s \<Longrightarrow> pmm_kept s s"
  by (simp add: pmm_kept_def)

lemma pmm_kept_trans: "pmm_kept s s' \<Longrightarrow> pmm_kept s' s'' \<Longrightarrow> pmm_kept s s''"
  by (simp add: pmm_kept_def)

lemma pmm_kept_reserved: "reserved_to n m s s' \<Longrightarrow> pmm_ok s \<Longrightarrow> pmm_kept s s'"
  by (simp add: pmm_kept_def reserved_to_def pmm_ok_def)

lemma pmm_kept_counter [simp]:
  "pmm_kept s (s'\<lparr>reserved_bytes_total := x\<rparr>) = pmm_kept s s'"
  by (simp add: pmm_kept_def pmm_ok_def pmm_balance_def used_set_def)

lemma alloc_frame_kept:
  assumes "pmm_ok s"
  shows "\<exists>a s'. pmm_alloc_frame s = Some (a, s') \<and> pmm_kept s s'"
proof -
  obtain r where r: "pmm_alloc_frame s = Some r" "alloc_outcome 1 s r"
    using alloc_loop_outcome [OF assms, of 1] by (auto simp: pmm_alloc_frame_def)
  moreover have "m < unat (total_frames s) \<Longrightarrow> m < 2 ^ 24" for m
    using assms by (simp add: pmm_ok_def)
  ultimately show ?thesis
    using assms balance_take by (auto simp: alloc_outcome_def pmm_kept_def)
qed

lemma alloc_frames_kept:
  assumes "pmm_ok s"
  shows "\<exists>a s'. pmm_alloc_frames n s = Some (a, s') \<and> pmm_kept s s'"
proof (cases "n = 0")
  case True
  then show ?thesis using assms by (simp add: pmm_alloc_frames_def pmm_kept_refl)
next
  case False
  then show ?thesis
    using alloc_frames_loop_outcome [OF assms False, of 1] assms
    by (auto simp: pmm_alloc_frames_def run_outcome_def pmm_kept_def pmm_ok_def)
qed

lemma free_frame_kept:
  assumes "pmm_ok s"
  shows "\<exists>s'. pmm_free_frame a s = Some s' \<and> pmm_kept s s'"
proof (cases "a \<in> pmm_frames s \<and> a \<in> pmm_taken s")
  case False
  then show ?thesis using assms by (auto simp: pmm_free_frame_eq pmm_kept_refl)
next
  case True
  let ?n = "unat (a div 4096)"
  have n: "?n < unat (total_frames s)" "a = frame_addr ?n"
    using True aligned_frame_addr by (auto simp: pmm_frames_iff [OF assms] word_less_nat_alt)
  then have "1 \<le> ?n"
    using True by (cases "?n = 0") (auto simp: pmm_frames_iff [OF assms] frame_addr_def)
  then have "frame_used s ?n"
    using frame_addr_in_taken [OF assms _ n(1)] True n(2) by simp
  moreover have "?n < 2 ^ 24"
    using n assms by (simp add: pmm_ok_def)
  ultimately show ?thesis
    using True assms balance_give by (simp add: pmm_free_frame_eq pmm_kept_def)
qed

lemma reserve_kept:
  assumes "pmm_ok s"
  shows "\<exists>rc s'. pmm_reserve a n s = Some (rc, s') \<and> pmm_kept s s'"
proof -
  let ?b = "(a + 4095) AND NOT 4095" and ?e = "(a + n + 4095) AND NOT 4095"
  show ?thesis
  proof (cases "n = 0 \<or> ?e > PMM_MAX_FRAMES * 4096")
    case True
    then show ?thesis using assms by (auto simp: pmm_reserve_def pmm_kept_refl)
  next
    case False
    then have "unat ?e \<le> 2 ^ 24 * 4096"
      by (simp add: word_less_nat_alt not_less PMM_MAX_FRAMES_def)
    then have "unat (?e div 4096) \<le> 2 ^ 24"
      by (simp only: unat_div) simp
    from reserve_loop_marks [OF this, of "?b div 4096" s] obtain s' where
      "reserve_loop (?b div 4096) (?e div 4096) s = Some s'"
      "reserved_to (unat (?b div 4096)) (unat (?e div 4096)) s s'" by blast
    then show ?thesis
      using False assms
      by (simp add: pmm_reserve_def reserve_range_def Let_def pmm_kept_reserved)
  qed
qed

lemma pmm_step_kept: "pmm_ok s \<Longrightarrow> \<exists>s'. pmm_step x s = Some s' \<and> pmm_kept s s'"
  using alloc_frame_kept alloc_frames_kept free_frame_kept reserve_kept
  by (cases x) fastforce+

lemma pmm_run_kept: "pmm_ok s \<Longrightarrow> \<exists>s'. pmm_run xs s = Some s' \<and> pmm_kept s s'"
proof (induction xs arbitrary: s)
  case Nil
  then show ?case by (simp add: pmm_kept_refl)
next
  case (Cons x xs)
  obtain s1 where "pmm_step x s = Some s1" "pmm_kept s s1"
    using pmm_step_kept [OF Cons.prems] by blast
  with Cons.IH [of s1] show ?case
    using pmm_kept_trans by (fastforce simp: pmm_kept_def)
qed

section \<open>Properties\<close>

text \<open>
  C32: \<^verbatim>\<open>pmm_alloc_frame\<close> returns the address of the lowest frame above frame 0 whose
  bit is clear, sets exactly that bit and decrements the counter; it returns 0 and
  changes nothing exactly when every such frame is taken.
\<close>

theorem pmm_alloc_frame_lowest_free:
  assumes "pmm_ok s"
  shows "\<exists>a s'. pmm_alloc_frame s = Some (a, s') \<and>
    (if \<exists>m. 1 \<le> m \<and> m < unat (total_frames s) \<and> \<not> frame_used s m
     then \<exists>m. 1 \<le> m \<and> m < unat (total_frames s) \<and> \<not> frame_used s m
            \<and> \<not> (\<exists>k. 1 \<le> k \<and> k < m \<and> \<not> frame_used s k)
            \<and> unat a = m * 4096 \<and> frame_used s' = (frame_used s)(m := True)
            \<and> free_frames s' = free_frames s - 1 \<and> total_frames s' = total_frames s
     else a = 0 \<and> s' = s)"
proof -
  obtain r where r: "pmm_alloc_frame s = Some r" "alloc_outcome 1 s r"
    using alloc_loop_outcome [OF assms, of 1] by (auto simp: pmm_alloc_frame_def)
  have lt: "m < unat (total_frames s) \<Longrightarrow> m < 2 ^ 24" for m
    using assms by (simp add: pmm_ok_def)
  show ?thesis
  proof (cases "\<exists>m. 1 \<le> m \<and> m < unat (total_frames s) \<and> \<not> frame_used s m")
    case False
    then show ?thesis using r by (auto simp: alloc_outcome_def)
  next
    case True
    then obtain m where m: "1 \<le> m" "m < unat (total_frames s)" "\<not> frame_used s m"
        "\<forall>k. 1 \<le> k \<longrightarrow> k < m \<longrightarrow> frame_used s k" "r = (frame_addr m, take_frame m s)"
      using r(2) by (auto simp: alloc_outcome_def)
    moreover have "frame_used (take_frame m s) = (frame_used s)(m := True)"
      by (auto simp: fun_eq_iff)
    ultimately show ?thesis
      using r(1) True unat_frame_addr [OF lt [OF m(2)]]
      by (auto intro!: exI [of _ m])
  qed
qed

definition sample_pmm :: pmm_state where
  "sample_pmm = \<lparr>bitmap = (\<lambda>i. if i = 0 then 7 else 0), total_frames = 8, free_frames = 5,
     reserved_bytes_total = 0, pmm_log = []\<rparr>"

lemma sample_pmm_ok: "pmm_ok sample_pmm"
  by (simp add: sample_pmm_def pmm_ok_def)

lemma sample_pmm_used: "frame_used sample_pmm 1" "frame_used sample_pmm 2" "\<not> frame_used sample_pmm 3"
  by (simp_all add: sample_pmm_def frame_used_def bit_iff_odd)

theorem pmm_alloc_frame_lowest_free_witness:
  "pmm_ok sample_pmm \<and> (\<exists>s'. pmm_alloc_frame sample_pmm = Some (0x3000, s') \<and> free_frames s' = 4)"
proof -
  have total: "unat (total_frames sample_pmm) = 8" and free: "free_frames sample_pmm = 5"
    by (simp_all add: sample_pmm_def)
  have ex: "\<exists>m. 1 \<le> m \<and> m < unat (total_frames sample_pmm) \<and> \<not> frame_used sample_pmm m"
    using sample_pmm_used(3) total by (intro exI [of _ 3]) simp
  obtain a s' m where a: "pmm_alloc_frame sample_pmm = Some (a, s')" "1 \<le> m" "\<not> frame_used sample_pmm m"
      "\<not> (\<exists>k. 1 \<le> k \<and> k < m \<and> \<not> frame_used sample_pmm k)" "unat a = m * 4096"
      "free_frames s' = free_frames sample_pmm - 1"
    using pmm_alloc_frame_lowest_free [OF sample_pmm_ok] ex by auto
  have "m \<noteq> 1" "m \<noteq> 2"
    using a(3) sample_pmm_used by auto
  moreover have "\<not> 3 < m"
    using a(4) sample_pmm_used(3) by auto
  ultimately have "m = 3" using a(2) by linarith
  then have "a = 0x3000" using a(5) by (simp add: word_unat_eq_iff)
  then show ?thesis using a free sample_pmm_ok by simp
qed

text \<open>
  C1: frames handed out and not given back are distinct: \<open>n\<close> allocations in a row
  return pairwise different page-aligned addresses, none of which was in use, and
  they stop early only when no frame is left.
\<close>

theorem pmm_allocations_distinct:
  assumes "pmm_ok s"
  shows "\<exists>as s'. alloc_many pmm_alloc_frame n s = Some (as, s') \<and> distinct as
    \<and> set as \<subseteq> pmm_frames s - pmm_taken s \<and> pmm_taken s' = pmm_taken s \<union> set as
    \<and> (length as < n \<longrightarrow> pmm_frames s \<subseteq> pmm_taken s')"
  using pmm.alloc_many_distinct [OF assms] by blast

theorem pmm_allocations_distinct_witness:
  "pmm_ok sample_pmm
   \<and> (\<exists>as s'. alloc_many pmm_alloc_frame 3 sample_pmm = Some (as, s') \<and> distinct as)"
  using pmm_allocations_distinct [OF sample_pmm_ok, of 3] sample_pmm_ok by blast

text \<open>
  C17: from a state whose frames all lie in the bitmap, every sequence of
  allocations, releases and reservations runs without an access outside the bitmap,
  and keeps the counter exact: free counter plus number of set bits stays the same
  64-bit number.
\<close>

theorem pmm_counter_conserved:
  assumes "pmm_ok s"
  shows "\<exists>s'. pmm_run ops s = Some s' \<and> pmm_ok s' \<and> total_frames s' = total_frames s
    \<and> free_frames s' + of_nat (card (used_set s')) = free_frames s + of_nat (card (used_set s))"
  using pmm_run_kept [OF assms, of ops] by (auto simp: pmm_kept_def pmm_balance_def)

theorem pmm_counter_conserved_witness:
  "pmm_ok sample_pmm
   \<and> (\<exists>s'. pmm_run [Op_alloc, Op_alloc_run 2, Op_free 0x1000, Op_reserve 0x5000 1] sample_pmm = Some s'
        \<and> free_frames s' + of_nat (card (used_set s'))
          = free_frames sample_pmm + of_nat (card (used_set sample_pmm)))"
  using pmm_counter_conserved [OF sample_pmm_ok, of "[Op_alloc, Op_alloc_run 2, Op_free 0x1000, Op_reserve 0x5000 1]"]
    sample_pmm_ok by blast

text \<open>
  \<^verbatim>\<open>pmm_alloc_frames\<close> returns the lowest run of \<open>count\<close> consecutive free frames and
  sets exactly their bits, or returns 0 and changes nothing when no such run exists.
\<close>

lemma pmm_alloc_frames_lowest_run:
  assumes "pmm_ok s" and "count \<noteq> 0"
  shows "\<exists>a s'. pmm_alloc_frames count s = Some (a, s') \<and>
    (if \<exists>m. 1 \<le> m \<and> run_free s m (unat count)
     then \<exists>m. 1 \<le> m \<and> run_free s m (unat count)
            \<and> \<not> (\<exists>k. 1 \<le> k \<and> k < m \<and> run_free s k (unat count))
            \<and> unat a = m * 4096
            \<and> (\<forall>k. frame_used s' k \<longleftrightarrow> m \<le> k \<and> k < m + unat count \<or> frame_used s k)
     else a = 0 \<and> s' = s)"
proof -
  obtain r where r: "pmm_alloc_frames count s = Some r" "run_outcome 1 (unat count) s r"
    using alloc_frames_loop_outcome [OF assms, of 1] assms by (auto simp: pmm_alloc_frames_def)
  show ?thesis
  proof (cases "\<exists>m. 1 \<le> m \<and> run_free s m (unat count)")
    case False
    then show ?thesis using r by (auto simp: run_outcome_def)
  next
    case True
    then obtain m s' where m: "r = (frame_addr m, s')" "1 \<le> m" "run_free s m (unat count)"
        "\<forall>k. 1 \<le> k \<longrightarrow> k < m \<longrightarrow> \<not> run_free s k (unat count)"
        "\<forall>k. frame_used s' k \<longleftrightarrow> m \<le> k \<and> k < m + unat count \<or> frame_used s k"
      using r(2) by (auto simp: run_outcome_def)
    have "0 < unat count" using assms(2) by (simp add: unat_gt_0)
    then have "m < 2 ^ 24"
      using m(3) assms(1) by (simp add: run_free_def pmm_ok_def)
    then have "unat (frame_addr m) = m * 4096" by (rule unat_frame_addr)
    then show ?thesis
      using r(1) True m by (auto intro!: exI [of _ m])
  qed
qed

lemma pmm_alloc_frames_sample:
  "pmm_ok sample_pmm \<and> (2 :: u32) \<noteq> 0
   \<and> (\<exists>a s'. pmm_alloc_frames 2 sample_pmm = Some (a, s') \<and> a \<noteq> 0)"
proof -
  have "\<not> frame_used sample_pmm 4"
    by (simp add: sample_pmm_def frame_used_def bit_iff_odd)
  then have "\<not> frame_used sample_pmm k" if "3 \<le> k" "k < 5" for k
    using that sample_pmm_used(3) by (cases "k = 3") (auto simp: le_less dest!: Suc_leI elim: less_SucE)
  then have "run_free sample_pmm 3 2"
    by (simp add: run_free_def) (simp add: sample_pmm_def)
  then have ex: "\<exists>m. 1 \<le> m \<and> run_free sample_pmm m (unat (2 :: u32))"
    by (intro exI [of _ 3]) simp
  have ne: "(2 :: u32) \<noteq> 0" by simp
  obtain a s' m where "pmm_alloc_frames 2 sample_pmm = Some (a, s')" "1 \<le> m" "unat a = m * 4096"
    using pmm_alloc_frames_lowest_run [OF sample_pmm_ok ne] ex by (auto simp only: if_True)
  moreover from this have "a \<noteq> 0" by auto
  ultimately show ?thesis
    using sample_pmm_ok ne by blast
qed

section \<open>What the construction protects\<close>

lemma byte_range_frames:
  assumes "unat b + unat n \<le> 2 ^ 36"
  shows "hi_frame b n \<le> 2 ^ 24" and "lo_frame b = unat b div 4096"
    and "hi_frame b n = (unat b + unat n + 4095) div 4096"
proof -
  have "unat (b + n) = unat b + unat n"
    using assms by (intro unat_add_lem [THEN iffD1]) simp
  moreover have "unat (b + n + 4095) = unat (b + n) + 4095"
    using assms calculation by (simp add: unat_word_ariths)
  ultimately show "hi_frame b n = (unat b + unat n + 4095) div 4096"
    by (simp add: hi_frame_def unat_div)
  then show "hi_frame b n \<le> 2 ^ 24" using assms by simp
  show "lo_frame b = unat b div 4096" by (simp add: lo_frame_def unat_div)
qed

lemma free_frame_outside:
  assumes "unat b + unat n \<le> 2 ^ 36" and "\<not> (lo_frame b \<le> m \<and> m < hi_frame b n)"
  shows "m * 4096 + 4096 \<le> unat b \<or> unat b + unat n \<le> m * 4096"
  using assms(2) unfolding byte_range_frames [OF assms(1)] by (auto simp: not_le not_less)


text \<open>
  A machine for the examples below: conventional memory from 1 MiB, with the kernel
  image at its start; the first MiB is reserved and not in the map.
\<close>

definition small_map :: "u64 \<Rightarrow> efi_memory_descriptor" where
  "small_map a = \<lparr>md_Type = efi_type_code EfiConventionalMemory, md_PhysicalStart = 0x100000,
     md_VirtualStart = 0, md_NumberOfPages = 16, md_Attribute = 0\<rparr>"

definition small_boot_info :: boot_info where
  "small_boot_info = zero_boot_info\<lparr>memory_map := 0x108000, memory_map_size := 48,
     descriptor_size := 48, fb_base := 0xC0000000, fb_size := 0x1000,
     kernel_image_base := 0x100000, kernel_image_size := 0x2000,
     bootstrap_stack_base := 0x104000, bootstrap_stack_size := 0x1000\<rparr>"

lemma small_map_entries:
  "map_entries small_map (memory_map small_boot_info) (memory_map_size small_boot_info)
     (descriptor_size small_boot_info) = [small_map 0x108000]"
  by (simp add: map_entries_def small_boot_info_def zero_boot_info_def)

lemma small_facts:
  "memory_map small_boot_info \<noteq> 0" "descriptor_size small_boot_info \<noteq> 0"
  "\<forall>d \<in> set [small_map 0x108000]. region_fits d" "conv_pages [small_map 0x108000] = 16"
  "\<forall>(b, n) \<in> set (kernel_ranges 0x109000 small_boot_info). unat b + unat n \<le> 2 ^ 36"
  by (simp_all add: small_boot_info_def zero_boot_info_def small_map_def region_fits_def
      conv_pages_def conventional_def kernel_ranges_def sizeof_boot_info_def)


section \<open>What it does not protect\<close>

lemma small_init:
  "\<exists>s'. pmm_init small_map (Some (0x109000, small_boot_info)) sample_pmm = Some s' \<and> pmm_ok s'
    \<and> unat (total_frames s') = 16 \<and> \<not> frame_used s' 1"
proof -
  have hi: "\<forall>(b, n) \<in> set (kernel_ranges 0x109000 small_boot_info). hi_frame b n \<le> 2 ^ 24"
    using small_facts(5) byte_range_frames(1) by auto
  have "\<not> (\<exists>(b, n) \<in> set (kernel_ranges 0x109000 small_boot_info). lo_frame b \<le> 1 \<and> 1 < hi_frame b n)"
    by (simp add: kernel_ranges_def small_boot_info_def zero_boot_info_def lo_frame_def sizeof_boot_info_def)
  moreover have "conv_pages [small_map 0x108000] \<le> 2 ^ 24" using small_facts(4) by simp
  ultimately show ?thesis
    using pmm_init_spec [OF small_facts(1,2) small_map_entries [symmetric] small_facts(3) _ hi, of sample_pmm]
      small_facts(4) by auto
qed


text \<open>
  \<^verbatim>\<open>pmm_reserve\<close> rounds the start of the range up: a range that ends inside its first
  page reserves nothing, although the call reports success.
\<close>

lemma pmm_reserve_inside_page:
  "pmm_reserve 100 100 s = Some (0, s)"
  by (simp add: pmm_reserve_def reserve_range_def reserve_loop.simps PMM_MAX_FRAMES_def Let_def)

text \<open>
  A framebuffer that ends above 64 GiB makes \<^verbatim>\<open>pmm_init\<close> write past the bitmap: only the
  regions of the map are clipped to the bitmap, the reserved ranges are not.
\<close>

lemma pmm_init_high_framebuffer:
  assumes "memory_map bi \<noteq> 0" and "descriptor_size bi \<noteq> 0"
    and "2 ^ 24 < hi_frame (fb_base bi) (fb_size bi)"
    and "lo_frame (fb_base bi) < hi_frame (fb_base bi) (fb_size bi)"
  shows "pmm_init memory (Some (addr, bi)) s = None"
  using assms(1,2) reserve_bytes_overrun [OF assms(3,4)]
  by (auto simp: pmm_init_def Let_def bind_eq_None_conv)

lemma pmm_init_high_framebuffer_witness:
  "2 ^ 24 < hi_frame 0x4000000000 0x1000
   \<and> pmm_init small_map (Some (0x109000, small_boot_info\<lparr>fb_base := 0x4000000000\<rparr>)) sample_pmm = None"
proof -
  have "2 ^ 24 < hi_frame 0x4000000000 0x1000" "lo_frame 0x4000000000 < hi_frame 0x4000000000 0x1000"
    by (simp_all add: hi_frame_def lo_frame_def)
  then show ?thesis
    using pmm_init_high_framebuffer
        [of "small_boot_info\<lparr>fb_base := 0x4000000000\<rparr>" small_map "0x109000" sample_pmm]
      small_facts(1,2)
    by (simp add: small_boot_info_def)
qed

end
