(* ===== verification/Minos_Ata.thy ===== *)
theory Minos_Ata
  imports Minos_Serial
begin

text \<open>
  The polled ATA driver of \<^verbatim>\<open>kernel/ata.c\<close>: 28-bit addressed transfers of one sector on the
  primary master, and its detection.  The theory shows what holds on any hardware (the
  waits are bounded, requests that are out of range touch no port), models a drive
  that follows the PIO protocol, and shows that driver and drive together are a
  block device: the interface that the file system relies on.
\<close>

section \<open>The driver (ata.c)\<close>

definition ATA_DATA :: u16 where "ATA_DATA = 0x1F0"
definition ATA_SECCOUNT :: u16 where "ATA_SECCOUNT = 0x1F2"
definition ATA_LBA0 :: u16 where "ATA_LBA0 = 0x1F3"
definition ATA_LBA1 :: u16 where "ATA_LBA1 = 0x1F4"
definition ATA_LBA2 :: u16 where "ATA_LBA2 = 0x1F5"
definition ATA_DRIVE :: u16 where "ATA_DRIVE = 0x1F6"
definition ATA_STATUS :: u16 where "ATA_STATUS = 0x1F7"
definition ATA_COMMAND :: u16 where "ATA_COMMAND = 0x1F7"
definition ATA_CONTROL :: u16 where "ATA_CONTROL = 0x3F6"
definition ATA_SR_BSY :: u8 where "ATA_SR_BSY = 0x80"
definition ATA_SR_DRQ :: u8 where "ATA_SR_DRQ = 0x08"
definition ATA_SR_ERR :: u8 where "ATA_SR_ERR = 0x01"
definition ATA_CMD_READ :: u8 where "ATA_CMD_READ = 0x20"
definition ATA_CMD_WRITE :: u8 where "ATA_CMD_WRITE = 0x30"
definition ATA_CMD_IDENTIFY :: u8 where "ATA_CMD_IDENTIFY = 0xEC"

lemmas ata_ports = ATA_DATA_def ATA_SECCOUNT_def ATA_LBA0_def ATA_LBA1_def ATA_LBA2_def
  ATA_DRIVE_def ATA_STATUS_def ATA_COMMAND_def ATA_CONTROL_def
lemmas ata_bits = ATA_SR_BSY_def ATA_SR_DRQ_def ATA_SR_ERR_def
lemmas ata_cmds = ATA_CMD_READ_def ATA_CMD_WRITE_def ATA_CMD_IDENTIFY_def

record 'd ata_machine = "'d machine" +
  present :: bool
  sector_count :: u32

definition status_is :: "'d hw \<Rightarrow> u8 \<Rightarrow> u8 \<Rightarrow> (('d, 'm) machine_scheme, bool) state" where
  "status_is hw bits val = do {
     status \<leftarrow> inb hw ATA_STATUS;
     State_Monad.return (status AND bits = val)
   }"

text \<open>A \<^verbatim>\<open>do ... while (--timeout)\<close> loop: at most a million polls.\<close>

definition ata_wait :: "'d hw \<Rightarrow> u8 \<Rightarrow> u8 \<Rightarrow> (('d, 'm) machine_scheme, int) state" where
  "ata_wait hw bits val = do {
     timeout \<leftarrow> poll (status_is hw bits val) 1000000;
     State_Monad.return (if timeout = 0 then -1 else 0)
   }"

text \<open>
  The two transfer loops from word \<open>i\<close> on, \<open>n\<close> words.  The callers' buffers are arrays of 512 bytes.
\<close>

fun out_words :: "'d hw \<Rightarrow> u8 list \<Rightarrow> nat \<Rightarrow> nat \<Rightarrow> (('d, 'm) machine_scheme, unit) state" where
  "out_words hw buffer i 0 = State_Monad.return ()"
| "out_words hw buffer i (Suc n) = do {
     outw hw ATA_DATA (ucast (buffer ! (i * 2)) OR push_bit 8 (ucast (buffer ! (i * 2 + 1))));
     out_words hw buffer (i + 1) n
   }"

fun in_words :: "'d hw \<Rightarrow> u8 list \<Rightarrow> nat \<Rightarrow> nat \<Rightarrow> (('d, 'm) machine_scheme, u8 list) state" where
  "in_words hw buffer i 0 = State_Monad.return buffer"
| "in_words hw buffer i (Suc n) = do {
     w \<leftarrow> inw hw ATA_DATA;
     in_words hw (buffer[i * 2 := ucast w, i * 2 + 1 := ucast (drop_bit 8 w)]) (i + 1) n
   }"

text \<open>
  The buffer is a pointer (\<^term>\<open>None\<close> is null); a read returns it filled.
\<close>

definition ata_transfer ::
    "'d hw \<Rightarrow> u32 \<Rightarrow> u8 list option \<Rightarrow> bool \<Rightarrow> (('d, 'm) ata_machine_scheme, int \<times> u8 list option) state" where
  "ata_transfer hw lba buffer write = do {
     m \<leftarrow> State (\<lambda>m. (m, m));
     (case buffer of
        None \<Rightarrow> State_Monad.return (-1, None)
      | Some b \<Rightarrow>
          if \<not> present m \<or> lba AND 0xF0000000 \<noteq> 0 \<or> sector_count m = 0 \<or> sector_count m \<le> lba
          then State_Monad.return (-1, Some b)
          else do {
            rc \<leftarrow> ata_wait hw ATA_SR_BSY 0;
            if rc \<noteq> 0 then State_Monad.return (-1, Some b) else do {
            outb hw ATA_DRIVE (ucast (0xE0 OR (drop_bit 24 lba AND 0x0F)));
            outb hw ATA_SECCOUNT 1;
            outb hw ATA_LBA0 (ucast lba);
            outb hw ATA_LBA1 (ucast (drop_bit 8 lba));
            outb hw ATA_LBA2 (ucast (drop_bit 16 lba));
            outb hw ATA_COMMAND (if write then ATA_CMD_WRITE else ATA_CMD_READ);
            rc \<leftarrow> ata_wait hw (ATA_SR_BSY OR ATA_SR_DRQ OR ATA_SR_ERR) ATA_SR_DRQ;
            if rc \<noteq> 0 then State_Monad.return (-1, Some b) else
            if write then do {
              out_words hw b 0 256;
              outb hw ATA_COMMAND 0xE7;
              rc \<leftarrow> ata_wait hw ATA_SR_BSY 0;
              State_Monad.return (rc, Some b)
            }
            else do {
              b' \<leftarrow> in_words hw b 0 256;
              State_Monad.return (0, Some b')
            } }
          })
   }"

text \<open>The loop over the identification data, keeping words 60 and 61.\<close>

fun identify_words ::
    "'d hw \<Rightarrow> nat \<Rightarrow> nat \<Rightarrow> u16 \<times> u16 \<Rightarrow> (('d, 'm) machine_scheme, u16 \<times> u16) state" where
  "identify_words hw i 0 lh = State_Monad.return lh"
| "identify_words hw i (Suc n) lh = do {
     w \<leftarrow> inw hw ATA_DATA;
     identify_words hw (i + 1) n (if i = 60 then w else fst lh, if i = 61 then w else snd lh)
   }"

definition ata_primary_master_init :: "'d hw \<Rightarrow> (('d, 'm) ata_machine_scheme, int) state" where
  "ata_primary_master_init hw = do {
     State (\<lambda>m. ((), m\<lparr>present := False, sector_count := 0\<rparr>));
     outb hw ATA_CONTROL 2;
     outb hw ATA_DRIVE 0xA0;
     io_wait hw;
     outb hw ATA_SECCOUNT 0;
     outb hw ATA_LBA0 0;
     outb hw ATA_LBA1 0;
     outb hw ATA_LBA2 0;
     outb hw ATA_COMMAND ATA_CMD_IDENTIFY;
     status \<leftarrow> inb hw ATA_STATUS;
     if status = 0 then State_Monad.return (-1) else do {
     rc \<leftarrow> ata_wait hw ATA_SR_BSY 0;
     if rc \<noteq> 0 then State_Monad.return (-1) else do {
     lba1 \<leftarrow> inb hw ATA_LBA1;
     if lba1 \<noteq> 0 then State_Monad.return (-1) else do {
     lba2 \<leftarrow> inb hw ATA_LBA2;
     if lba2 \<noteq> 0 then State_Monad.return (-1) else do {
     rc \<leftarrow> ata_wait hw (ATA_SR_DRQ OR ATA_SR_ERR) ATA_SR_DRQ;
     if rc \<noteq> 0 then State_Monad.return (-1) else do {
     lh \<leftarrow> identify_words hw 0 256 (0, 0);
     State (\<lambda>m. ((), m\<lparr>sector_count := push_bit 16 (ucast (snd lh)) OR ucast (fst lh), present := True\<rparr>));
     log_text (''[MinOS ATA] primary master PIO device ready (28-bit LBA).'' @ [CHR 0x0A]);
     State_Monad.return 0 }}}}} }"

definition ata_primary_master_present :: "('d, 'm) ata_machine_scheme \<Rightarrow> bool" where
  "ata_primary_master_present m = present m"

definition ata_read28 ::
    "'d hw \<Rightarrow> u32 \<Rightarrow> u8 list option \<Rightarrow> (('d, 'm) ata_machine_scheme, int \<times> u8 list option) state" where
  "ata_read28 hw lba buffer = ata_transfer hw lba buffer False"

definition ata_write28 ::
    "'d hw \<Rightarrow> u32 \<Rightarrow> u8 list option \<Rightarrow> (('d, 'm) ata_machine_scheme, int) state" where
  "ata_write28 hw lba buffer = do {
     r \<leftarrow> ata_transfer hw lba buffer True;
     State_Monad.return (fst r)
   }"

section \<open>A drive\<close>

text \<open>
  A drive that follows the PIO protocol.  After a command it is busy for \<open>d_delay\<close> reads
  of the status; then it offers the words of a read or of its identification, or takes
  the words of a write, which reach the medium with the last one.
\<close>

record disk =
  d_data :: "nat \<Rightarrow> u8 list"
  d_count :: nat
  d_delay :: nat
  d_busy :: nat
  d_lba0 :: u8
  d_lba1 :: u8
  d_lba2 :: u8
  d_drive :: u8
  d_out :: "u16 list"
  d_in :: "u16 list option"
  d_err :: bool

fun words_of :: "u8 list \<Rightarrow> u16 list" where
  "words_of (a # b # bs) = (ucast a OR push_bit 8 (ucast b)) # words_of bs"
| "words_of _ = []"

fun bytes_of :: "u16 list \<Rightarrow> u8 list" where
  "bytes_of [] = []"
| "bytes_of (w # ws) = ucast w # ucast (drop_bit 8 w) # bytes_of ws"

definition d_lba :: "disk \<Rightarrow> nat" where
  "d_lba d = unat (d_lba0 d) + 256 * unat (d_lba1 d) + 65536 * unat (d_lba2 d)
     + 16777216 * unat (d_drive d AND 0x0F)"

definition identity :: "disk \<Rightarrow> u16 list" where
  "identity d = map (\<lambda>i. if i = 60 then of_nat (d_count d) else if i = 61 then of_nat (d_count d div 65536)
     else 0) [0..<256]"

definition idle_status :: "disk \<Rightarrow> u8" where
  "idle_status d = 0x40 OR (if d_out d \<noteq> [] \<or> d_in d \<noteq> None then 0x08 else 0) OR (if d_err d then 1 else 0)"

definition disk_inb :: "u16 \<Rightarrow> disk \<Rightarrow> u8 \<times> disk" where
  "disk_inb p d =
     (if p = ATA_STATUS then
        (if d_busy d = 0 then (idle_status d, d) else (0x80, d\<lparr>d_busy := d_busy d - 1\<rparr>))
      else if p = ATA_LBA1 then (d_lba1 d, d)
      else if p = ATA_LBA2 then (d_lba2 d, d)
      else (0xFF, d))"

definition disk_command :: "u8 \<Rightarrow> disk \<Rightarrow> disk" where
  "disk_command v d =
     (let d' = d\<lparr>d_busy := d_delay d, d_out := [], d_in := None, d_err := False\<rparr>
      in if v = 0xE7 then d'
         else if v = 0xEC then d'\<lparr>d_out := identity d\<rparr>
         else if v = 0x20 \<and> d_lba d < d_count d then d'\<lparr>d_out := words_of (d_data d (d_lba d))\<rparr>
         else if v = 0x30 \<and> d_lba d < d_count d then d'\<lparr>d_in := Some []\<rparr>
         else d'\<lparr>d_err := True\<rparr>)"

definition disk_outb :: "u16 \<Rightarrow> u8 \<Rightarrow> disk \<Rightarrow> disk" where
  "disk_outb p v d =
     (if p = ATA_LBA0 then d\<lparr>d_lba0 := v\<rparr>
      else if p = ATA_LBA1 then d\<lparr>d_lba1 := v\<rparr>
      else if p = ATA_LBA2 then d\<lparr>d_lba2 := v\<rparr>
      else if p = ATA_DRIVE then d\<lparr>d_drive := v\<rparr>
      else if p = ATA_COMMAND then disk_command v d
      else d)"

definition disk_inw :: "u16 \<Rightarrow> disk \<Rightarrow> u16 \<times> disk" where
  "disk_inw p d =
     (if p = ATA_DATA then (case d_out d of [] \<Rightarrow> (0xFFFF, d) | w # ws \<Rightarrow> (w, d\<lparr>d_out := ws\<rparr>))
      else (0xFFFF, d))"

definition disk_outw :: "u16 \<Rightarrow> u16 \<Rightarrow> disk \<Rightarrow> disk" where
  "disk_outw p w d =
     (if p = ATA_DATA then
        (case d_in d of
           None \<Rightarrow> d
         | Some ws \<Rightarrow>
             if length ws = 255
             then d\<lparr>d_data := (d_data d)(d_lba d := bytes_of (ws @ [w])), d_in := None, d_busy := d_delay d\<rparr>
             else d\<lparr>d_in := Some (ws @ [w])\<rparr>)
      else d)"

definition disk_hw :: "disk hw" where
  "disk_hw = \<lparr>hw_inb = disk_inb, hw_outb = disk_outb, hw_inw = disk_inw, hw_outw = disk_outw\<rparr>"

lemma disk_hw_sel [simp]:
  "hw_inb disk_hw = disk_inb" "hw_outb disk_hw = disk_outb" "hw_inw disk_hw = disk_inw"
  "hw_outw disk_hw = disk_outw"
  by (simp_all add: disk_hw_def)

section \<open>Words and bytes\<close>

lemma word_bytes:
  "ucast (ucast (a :: u8) OR push_bit 8 (ucast (b :: u8)) :: u16) = a"
  "ucast (drop_bit 8 (ucast (a :: u8) OR push_bit 8 (ucast (b :: u8)) :: u16)) = b"
  by (rule bit_eqI, auto simp: bit_ucast_iff bit_or_iff bit_push_bit_iff bit_drop_bit_eq bit_imp_le_length
      dest: bit_imp_le_length)+

lemma bytes_of_words_of: "even (length b) \<Longrightarrow> bytes_of (words_of b) = b"
  by (induction b rule: words_of.induct) (auto simp: word_bytes simp del: drop_bit_or)

lemma bytes_of_append [simp]: "bytes_of (v @ w) = bytes_of v @ bytes_of w"
  by (induction v) auto

lemma length_words_of [simp]: "length (words_of b) = length b div 2"
  by (induction b rule: words_of.induct) auto

lemma length_bytes_of [simp]: "length (bytes_of w) = 2 * length w"
  by (induction w) auto

lemma words_of_nth:
  "i < length b div 2 \<Longrightarrow> words_of b ! i = ucast (b ! (i * 2)) OR push_bit 8 (ucast (b ! (i * 2 + 1)))"
proof (induction b arbitrary: i rule: words_of.induct)
  case (1 x y bs)
  then show ?case by (cases i) auto
qed auto

section \<open>On any hardware\<close>

lemma status_only_reads: "only_reads 1 m (snd (run_state (status_is hw bits val) m))"
  using only_reads_inb [of 0 m hw ATA_STATUS] by (simp add: status_is_def split_beta)

lemma ata_wait_only_reads: "only_reads 1000000 m (snd (run_state (ata_wait hw bits val) m))"
  using poll_only_reads [OF status_only_reads [of _ hw bits val], of 1000000 m]
  by (simp add: ata_wait_def split_beta)

lemma ata_wait_answers: "fst (run_state (ata_wait hw bits val) m) \<in> {0, -1}"
  by (simp add: ata_wait_def split_beta)

text \<open>
  \<open>m'\<close> is \<open>m\<close> with another device state and trace, the driver's statics unchanged, after at
  most \<open>n\<close> port accesses.
\<close>

definition ata_ran :: "nat \<Rightarrow> ('d, 'm) ata_machine_scheme \<Rightarrow> ('d, 'm) ata_machine_scheme \<Rightarrow> bool" where
  "ata_ran n m m' \<longleftrightarrow> (\<exists>d es. m' = m\<lparr>dev := d, trace := trace m @ es\<rparr> \<and> length es \<le> n)"

lemma ata_ran_refl: "ata_ran n m m"
  unfolding ata_ran_def by (rule exI [of _ "dev m"], rule exI [of _ "[]"]) simp

lemma ata_ran_trans:
  assumes "ata_ran j m m'" and "ata_ran k m' m''"
  shows "ata_ran (j + k) m m''"
proof -
  obtain d es where 1: "m' = m\<lparr>dev := d, trace := trace m @ es\<rparr>" "length es \<le> j"
    using assms(1) by (auto simp: ata_ran_def)
  obtain d' es' where 2: "m'' = m'\<lparr>dev := d', trace := trace m' @ es'\<rparr>" "length es' \<le> k"
    using assms(2) by (auto simp: ata_ran_def)
  show ?thesis
    using 1 2 unfolding ata_ran_def by (intro exI [of _ d'] exI [of _ "es @ es'"]) simp
qed

lemma ata_ran_mono: "ata_ran j m m' \<Longrightarrow> j \<le> k \<Longrightarrow> ata_ran k m m'"
  by (force simp: ata_ran_def)

lemma ata_ran_reads: "only_reads n m m' \<Longrightarrow> ata_ran n m m'"
  by (force simp: only_reads_def ata_ran_def)

lemma ata_ran_port:
  "ata_ran 1 m (snd (run_state (outb hw p v) m))" "ata_ran 1 m (snd (run_state (inb hw p) m))"
  "ata_ran 1 m (snd (run_state (outw hw p w) m))" "ata_ran 1 m (snd (run_state (inw hw p) m))"
  unfolding ata_ran_def run_simps snd_conv by (rule exI, rule exI, rule conjI, rule refl, simp)+

lemma ata_ran_wait: "ata_ran 1000000 m (snd (run_state (ata_wait hw bits val) m))"
  by (rule ata_ran_reads [OF ata_wait_only_reads])

lemma ata_ran_out_words: "ata_ran n m (snd (run_state (out_words hw b i n) m))"
proof (induction n arbitrary: m i)
  case 0
  then show ?case by (simp add: ata_ran_refl)
next
  case (Suc n)
  then show ?case
    using ata_ran_trans [OF ata_ran_port(3) Suc.IH] by (simp add: split_beta)
qed

lemma ata_ran_in_words: "ata_ran n m (snd (run_state (in_words hw b i n) m))"
proof (induction n arbitrary: m i b)
  case 0
  then show ?case by (simp add: ata_ran_refl)
next
  case (Suc n)
  then show ?case
    using ata_ran_trans [OF ata_ran_port(4) Suc.IH] by (simp add: split_beta)
qed

text \<open>A transfer in the range of the drive, from the first wait on.\<close>

definition select_sector :: "'d hw \<Rightarrow> u32 \<Rightarrow> bool \<Rightarrow> (('d, 'm) machine_scheme, unit) state" where
  "select_sector hw lba write = do {
     outb hw ATA_DRIVE (ucast (0xE0 OR (drop_bit 24 lba AND 0x0F)));
     outb hw ATA_SECCOUNT 1;
     outb hw ATA_LBA0 (ucast lba);
     outb hw ATA_LBA1 (ucast (drop_bit 8 lba));
     outb hw ATA_LBA2 (ucast (drop_bit 16 lba));
     outb hw ATA_COMMAND (if write then ATA_CMD_WRITE else ATA_CMD_READ)
   }"

definition move_data :: "'d hw \<Rightarrow> u8 list \<Rightarrow> bool \<Rightarrow> (('d, 'm) machine_scheme, int \<times> u8 list option) state" where
  "move_data hw b write =
     (if write then do {
        out_words hw b 0 256;
        outb hw ATA_COMMAND 0xE7;
        rc \<leftarrow> ata_wait hw ATA_SR_BSY 0;
        State_Monad.return (rc, Some b)
      }
      else do {
        b' \<leftarrow> in_words hw b 0 256;
        State_Monad.return (0, Some b')
      })"

definition in_range :: "u32 \<Rightarrow> ('d, 'm) ata_machine_scheme \<Rightarrow> bool" where
  "in_range lba m \<longleftrightarrow> present m \<and> lba AND 0xF0000000 = 0 \<and> sector_count m \<noteq> 0 \<and> lba < sector_count m"

lemma ata_transfer_eq:
  "run_state (ata_transfer hw lba (Some b) write) m =
     (if \<not> in_range lba m then ((-1, Some b), m)
      else run_state (do {
        rc \<leftarrow> ata_wait hw ATA_SR_BSY 0;
        if rc \<noteq> 0 then State_Monad.return (-1, Some b) else do {
        select_sector hw lba write;
        rc \<leftarrow> ata_wait hw (ATA_SR_BSY OR ATA_SR_DRQ OR ATA_SR_ERR) ATA_SR_DRQ;
        if rc \<noteq> 0 then State_Monad.return (-1, Some b) else move_data hw b write } }) m)"
  by (auto simp: ata_transfer_def in_range_def select_sector_def move_data_def split_beta not_le)

lemma ata_ran_select: "ata_ran 6 m (snd (run_state (select_sector hw lba write) m))"
  unfolding ata_ran_def select_sector_def
  by (cases "write"; simp add: run_outb) (rule exI, rule exI, rule conjI, rule refl, simp)+

lemma ata_ran_move: "ata_ran 1000257 m (snd (run_state (move_data hw b write) m))"
proof (cases "write")
  case False
  then show ?thesis
    using ata_ran_mono [OF ata_ran_in_words [of 256 m hw b 0], of 1000257]
    by (simp add: move_data_def split_beta)
next
  case True
  let ?m1 = "snd (run_state (out_words hw b 0 256) m)"
  let ?m2 = "snd (run_state (outb hw ATA_COMMAND 0xE7) ?m1)"
  have "ata_ran (256 + 1 + 1000000) m (snd (run_state (ata_wait hw ATA_SR_BSY 0) ?m2))"
    by (rule ata_ran_trans [OF ata_ran_trans [OF ata_ran_out_words ata_ran_port(1)] ata_ran_wait])
  then show ?thesis
    using True by (simp add: move_data_def split_beta)
qed

lemma ata_transfer_ran: "ata_ran 3000263 m (snd (run_state (ata_transfer hw lba (Some b) write) m))"
proof (cases "in_range lba m")
  case False
  then show ?thesis by (simp add: ata_transfer_eq ata_ran_refl)
next
  case True
  let ?m1 = "snd (run_state (ata_wait hw ATA_SR_BSY 0) m)"
  let ?m2 = "snd (run_state (select_sector hw lba write) ?m1)"
  let ?m3 = "snd (run_state (ata_wait hw (ATA_SR_BSY OR ATA_SR_DRQ OR ATA_SR_ERR) ATA_SR_DRQ) ?m2)"
  have 1: "ata_ran 1000000 m ?m1" by (rule ata_ran_wait)
  have 3: "ata_ran (1000000 + 6 + 1000000) m ?m3"
    by (rule ata_ran_trans [OF ata_ran_trans [OF 1 ata_ran_select] ata_ran_wait])
  have 4: "ata_ran (1000000 + 6 + 1000000 + 1000257) m (snd (run_state (move_data hw b write) ?m3))"
    by (rule ata_ran_trans [OF 3 ata_ran_move])
  show ?thesis
    using True ata_ran_mono [OF 1, of 3000263] ata_ran_mono [OF 3, of 3000263] ata_ran_mono [OF 4, of 3000263]
    by (simp add: ata_transfer_eq split_beta)
qed

section \<open>On a drive that follows the protocol\<close>

lemma disk_status:
  "disk_inb ATA_STATUS d = (if d_busy d = 0 then (idle_status d, d) else (0x80, d\<lparr>d_busy := d_busy d - 1\<rparr>))"
  by (simp add: disk_inb_def ata_ports)

lemma disk_poll:
  fixes m :: "(disk, 'm) machine_scheme"
  assumes "d_busy (dev m) < n" and "idle_status (dev m) AND bits = val" and "0x80 AND bits \<noteq> val"
  shows "\<exists>k es. run_state (poll (status_is disk_hw bits val) n) m
    = (Suc k, m\<lparr>dev := (dev m)\<lparr>d_busy := 0\<rparr>, trace := trace m @ es\<rparr>)"
  using assms
proof (induction n arbitrary: m)
  case 0
  then show ?case by simp
next
  case (Suc n)
  show ?case
  proof (cases "d_busy (dev m) = 0")
    case True
    then have "dev m = (dev m)\<lparr>d_busy := 0\<rparr>" by simp
    then have "m\<lparr>dev := (dev m)\<lparr>d_busy := 0\<rparr>, trace := t\<rparr> = m\<lparr>trace := t\<rparr>" for t
      by (metis machine.surjective machine.update_convs(1,2))
    then show ?thesis
      using True Suc.prems
      by (intro exI [of _ n] exI [of _ "[In8 ATA_STATUS (idle_status (dev m))]"])
         (simp add: status_is_def run_inb disk_status)
  next
    case False
    let ?m = "m\<lparr>dev := (dev m)\<lparr>d_busy := d_busy (dev m) - 1\<rparr>, trace := trace m @ [In8 ATA_STATUS 0x80]\<rparr>"
    have "run_state (poll (status_is disk_hw bits val) (Suc n)) m
        = run_state (poll (status_is disk_hw bits val) n) ?m"
      using False Suc.prems(3) by (simp add: status_is_def run_inb disk_status)
    moreover have "idle_status (dev ?m) = idle_status (dev m)"
      by (simp add: idle_status_def)
    moreover have "d_busy (dev ?m) < n"
      using Suc.prems(1) False by simp
    moreover obtain k es where "run_state (poll (status_is disk_hw bits val) n) ?m
        = (Suc k, ?m\<lparr>dev := (dev ?m)\<lparr>d_busy := 0\<rparr>, trace := trace ?m @ es\<rparr>)"
      using Suc.IH [of ?m] Suc.prems(2,3) calculation(2,3) by auto
    ultimately show ?thesis
      by (intro exI [of _ k] exI [of _ "In8 ATA_STATUS 0x80 # es"]) simp
  qed
qed

lemma disk_wait:
  fixes m :: "(disk, 'm) machine_scheme"
  assumes "d_busy (dev m) < 1000000" and "idle_status (dev m) AND bits = val" and "0x80 AND bits \<noteq> val"
  shows "\<exists>es. run_state (ata_wait disk_hw bits val) m
    = (0, m\<lparr>dev := (dev m)\<lparr>d_busy := 0\<rparr>, trace := trace m @ es\<rparr>)"
  using disk_poll [OF assms] by (auto simp: ata_wait_def)

lemma idle_not_busy: "idle_status d AND ATA_SR_BSY = 0"
  by (simp add: idle_status_def ata_bits)

lemma disk_wait_idle:
  fixes m :: "(disk, 'm) machine_scheme"
  assumes "d_busy (dev m) < 1000000"
  shows "\<exists>es. run_state (ata_wait disk_hw ATA_SR_BSY 0) m
    = (0, m\<lparr>dev := (dev m)\<lparr>d_busy := 0\<rparr>, trace := trace m @ es\<rparr>)"
  by (rule disk_wait [OF assms idle_not_busy]) (simp add: ata_bits)

text \<open>The driver's split of a 28-bit address is undone by the drive's registers.\<close>

lemma lba_registers:
  assumes "(lba :: u32) AND 0xF0000000 = 0"
  shows "unat (ucast lba :: u8) + 256 * unat (ucast (drop_bit 8 lba) :: u8)
    + 65536 * unat (ucast (drop_bit 16 lba) :: u8)
    + 16777216 * unat ((ucast (0xE0 OR (drop_bit 24 lba AND 0x0F)) :: u8) AND 0x0F) = unat lba"
proof -
  have top: "NOT (mask 28) = (0xF0000000 :: u32)" by (simp add: mask_eq_exp_minus_1)
  have "lba - lba mod 2 ^ 28 = 0"
    using assms and_not_mask [of lba 28] top by simp
  then have "unat lba = unat (lba mod 2 ^ 28)" by simp
  then have lt: "unat lba < 2 ^ 28" by (simp add: unat_mod)
  have "list_all (\<lambda>n. unat ((ucast (0xE0 OR ((of_nat n :: u32) AND 0x0F)) :: u8) AND 0x0F) = n) [0..<16]"
    by code_simp
  note nibble = all_below [OF this, of "unat (drop_bit 24 lba)"]
  have q: "unat (drop_bit 24 lba) = unat lba div 2 ^ 24"
    by (simp add: drop_bit_eq_div unat_div)
  then have "unat (drop_bit 24 lba) < 16" using lt by (simp add: less_mult_imp_div_less)
  from nibble [OF this]
  have "unat ((ucast (0xE0 OR (drop_bit 24 lba AND 0x0F)) :: u8) AND 0x0F) = unat (drop_bit 24 lba)"
    by simp
  then have "unat ((ucast (0xE0 OR (drop_bit 24 lba AND 0x0F)) :: u8) AND 0x0F) = unat lba div 2 ^ 24"
    using q by simp
  then show ?thesis
    using nat_bytes4 [of "unat lba"] by (simp add: unat_ucast_mod drop_bit_eq_div unat_div)
qed

text \<open>Register writes: what they leave of the drive.\<close>

lemma disk_command_transfer:
  assumes "d_lba r < d_count r" and "d = disk_command (if write then 0x30 else 0x20) r"
  shows "d_lba d = d_lba r \<and> d_data d = d_data r \<and> d_count d = d_count r \<and> d_delay d = d_delay r
    \<and> d_busy d = d_delay r \<and> \<not> d_err d
    \<and> (if write then d_in d = Some [] \<and> d_out d = []
       else d_in d = None \<and> d_out d = words_of (d_data r (d_lba r)))"
  using assms by (cases "write") (simp_all add: disk_command_def Let_def d_lba_def)

lemma disk_command_flush:
  "d_data (disk_command 0xE7 r) = d_data r" "d_count (disk_command 0xE7 r) = d_count r"
  "d_delay (disk_command 0xE7 r) = d_delay r" "d_busy (disk_command 0xE7 r) = d_delay r"
  by (simp_all add: disk_command_def)

lemma run_select:
  fixes m :: "(disk, 'm) machine_scheme"
  assumes "lba AND 0xF0000000 = 0" and "unat lba < d_count (dev m)"
  shows "\<exists>es d. run_state (select_sector disk_hw lba write) m = ((), m\<lparr>dev := d, trace := trace m @ es\<rparr>)
    \<and> d_lba d = unat lba \<and> d_data d = d_data (dev m) \<and> d_count d = d_count (dev m)
    \<and> d_delay d = d_delay (dev m) \<and> d_busy d = d_delay (dev m) \<and> \<not> d_err d
    \<and> (if write then d_in d = Some [] \<and> d_out d = []
       else d_in d = None \<and> d_out d = words_of (d_data (dev m) (unat lba)))"
proof -
  let ?r = "(dev m)\<lparr>d_drive := ucast (0xE0 OR (drop_bit 24 lba AND 0x0F)), d_lba0 := ucast lba,
     d_lba1 := ucast (drop_bit 8 lba), d_lba2 := ucast (drop_bit 16 lba)\<rparr>"
  have l: "d_lba ?r = unat lba"
    using lba_registers [OF assms(1)] by (simp add: d_lba_def)
  have "\<exists>es. run_state (select_sector disk_hw lba write) m
      = ((), m\<lparr>dev := disk_command (if write then 0x30 else 0x20) ?r, trace := trace m @ es\<rparr>)"
    by (cases "write"; simp add: select_sector_def run_outb disk_outb_def ata_ports ata_cmds)
       (rule exI, rule refl)+
  then show ?thesis
    using disk_command_transfer [OF _ refl, of ?r "write"] l assms(2) by fastforce
qed

lemma in_words_disk:
  fixes m :: "(disk, 'm) machine_scheme"
  assumes "d_out (dev m) = ws" and "length ws = n" and "length b = 2 * (i + n)"
  shows "\<exists>es. run_state (in_words disk_hw b i n) m
    = (take (2 * i) b @ bytes_of ws, m\<lparr>dev := (dev m)\<lparr>d_out := []\<rparr>, trace := trace m @ es\<rparr>)"
  using assms
proof (induction n arbitrary: m i b ws)
  case 0
  then have "dev m = (dev m)\<lparr>d_out := []\<rparr>" by simp
  then have "m\<lparr>dev := (dev m)\<lparr>d_out := []\<rparr>, trace := trace m @ []\<rparr> = m"
    by (metis machine.surjective machine.update_convs(1,2) append_Nil2)
  then show ?case using 0 by (intro exI [of _ "[]"]) simp
next
  case (Suc n)
  obtain w vs where ws: "ws = w # vs" using Suc.prems(2) by (cases ws) auto
  let ?m = "m\<lparr>dev := (dev m)\<lparr>d_out := vs\<rparr>, trace := trace m @ [In16 ATA_DATA w]\<rparr>"
  let ?b = "b[i * 2 := ucast w, i * 2 + 1 := ucast (drop_bit 8 w)]"
  have step: "run_state (in_words disk_hw b i (Suc n)) m = run_state (in_words disk_hw ?b (i + 1) n) ?m"
    using Suc.prems(1) by (simp add: run_inw disk_inw_def ws)
  obtain es where ih: "run_state (in_words disk_hw ?b (i + 1) n) ?m
      = (take (2 * (i + 1)) ?b @ bytes_of vs, ?m\<lparr>dev := (dev ?m)\<lparr>d_out := []\<rparr>, trace := trace ?m @ es\<rparr>)"
    using Suc.IH [of ?m vs ?b "i + 1"] Suc.prems ws by auto
  have "2 * i + 1 < length b" using Suc.prems(3) by simp
  then have "take (2 * (i + 1)) ?b = take (2 * i) b @ [ucast w, ucast (drop_bit 8 w)]"
    by (simp add: take_Suc_conv_app_nth mult.commute [of 2] take_update_cancel nth_list_update)
  then show ?case
    unfolding step ih by (intro exI [of _ "In16 ATA_DATA w # es"]) (simp add: ws)
qed

lemma out_words_disk:
  fixes m :: "(disk, 'm) machine_scheme"
  assumes "d_in (dev m) = Some (take i (words_of b))" and "length b = 512" and "i + Suc n = 256"
  shows "\<exists>es. run_state (out_words disk_hw b i (Suc n)) m = ((), m\<lparr>dev := (dev m)\<lparr>
      d_data := (d_data (dev m))(d_lba (dev m) := b), d_in := None, d_busy := d_delay (dev m)\<rparr>,
      trace := trace m @ es\<rparr>)"
  using assms
proof (induction n arbitrary: m i)
  case 0
  then have i: "i = 255" by simp
  have "take 255 (words_of b) @ [words_of b ! 255] = words_of b"
    using 0(2) take_Suc_conv_app_nth [of 255 "words_of b"] by simp
  then have "bytes_of (take 255 (words_of b) @ [words_of b ! 255]) = b"
    using 0(2) bytes_of_words_of [of b] by simp
  then show ?case
    using 0 i words_of_nth [of 255 b]
    by (intro exI [of _ "[Out16 ATA_DATA (words_of b ! 255)]"])
       (simp add: run_outw disk_outw_def fun_upd_def del: bytes_of_append)
next
  case (Suc n)
  let ?w = "ucast (b ! (i * 2)) OR push_bit 8 (ucast (b ! (i * 2 + 1))) :: u16"
  let ?m = "m\<lparr>dev := (dev m)\<lparr>d_in := Some (take (i + 1) (words_of b))\<rparr>, trace := trace m @ [Out16 ATA_DATA ?w]\<rparr>"
  have "take i (words_of b) @ [?w] = take (i + 1) (words_of b)" "length (take i (words_of b)) \<noteq> 255"
    using Suc.prems words_of_nth [of i b] by (simp_all add: take_Suc_conv_app_nth)
  then have step: "run_state (out_words disk_hw b i (Suc (Suc n))) m = run_state (out_words disk_hw b (i + 1) (Suc n)) ?m"
    using Suc.prems(1) by (simp only: out_words.simps) (simp add: run_outw disk_outw_def)
  have l: "d_lba (dev ?m) = d_lba (dev m)" by (simp add: d_lba_def)
  have p: "d_in (dev ?m) = Some (take (i + 1) (words_of b))" "length b = 512" "i + 1 + Suc n = 256"
    using Suc.prems by simp_all
  obtain es where "run_state (out_words disk_hw b (i + 1) (Suc n)) ?m = ((), ?m\<lparr>dev := (dev ?m)\<lparr>
      d_data := (d_data (dev ?m))(d_lba (dev ?m) := b), d_in := None, d_busy := d_delay (dev ?m)\<rparr>,
      trace := trace ?m @ es\<rparr>)"
    using Suc.IH [OF p] by blast
  then show ?case
    unfolding step l by (intro exI [of _ "Out16 ATA_DATA ?w # es"]) (simp add: fun_upd_def)
qed

text \<open>
  A machine whose driver has found the drive it talks to: the sizes agree, the drive
  answers within the driver's patience and its sectors have 512 bytes.
\<close>

definition disk_ok :: "(disk, 'm) ata_machine_scheme \<Rightarrow> bool" where
  "disk_ok m \<longleftrightarrow> present m \<and> unat (sector_count m) = d_count (dev m) \<and> d_count (dev m) \<le> 2 ^ 28
     \<and> d_busy (dev m) < 1000000 \<and> d_delay (dev m) < 1000000 \<and> (\<forall>i. length (d_data (dev m) i) = 512)"

definition disk_sector :: "(disk, 'm) ata_machine_scheme \<Rightarrow> nat \<Rightarrow> u8 list" where
  "disk_sector m = d_data (dev m)"

definition disk_count :: "(disk, 'm) ata_machine_scheme \<Rightarrow> nat" where
  "disk_count m = d_count (dev m)"

lemma small_lba: "unat (lba :: u32) < 2 ^ 28 \<Longrightarrow> lba AND 0xF0000000 = 0"
proof -
  assume "unat lba < 2 ^ 28"
  then have "unat (lba mod 2 ^ 28) = unat lba" by (simp add: unat_mod)
  then have "lba mod 2 ^ 28 = lba" by (rule word_unat_eqI)
  moreover have "NOT (mask 28) = (0xF0000000 :: u32)" by (simp add: mask_eq_exp_minus_1)
  ultimately show ?thesis using and_not_mask [of lba 28] by simp
qed

lemma disk_in_range: "disk_ok m \<Longrightarrow> in_range lba m \<longleftrightarrow> unat lba < disk_count m"
  using small_lba [of lba]
  by (auto simp: disk_ok_def in_range_def disk_count_def word_less_nat_alt)

text \<open>Up to the point where the drive is ready for the data.\<close>

lemma disk_transfer_start:
  fixes m :: "(disk, 'm) ata_machine_scheme"
  assumes "disk_ok m" and "unat lba < disk_count m"
  shows "\<exists>es d. run_state (ata_transfer disk_hw lba (Some b) write) m
      = run_state (move_data disk_hw b write) (m\<lparr>dev := d, trace := trace m @ es\<rparr>)
    \<and> d_lba d = unat lba \<and> d_data d = disk_sector m \<and> d_count d = d_count (dev m)
    \<and> d_delay d = d_delay (dev m) \<and> d_busy d = 0 \<and> \<not> d_err d
    \<and> (if write then d_in d = Some [] \<and> d_out d = []
       else d_in d = None \<and> d_out d = words_of (disk_sector m (unat lba)))"
proof -
  let ?bits = "ATA_SR_BSY OR ATA_SR_DRQ OR ATA_SR_ERR"
  obtain e1 where 1: "run_state (ata_wait disk_hw ATA_SR_BSY 0) m
      = (0, m\<lparr>dev := (dev m)\<lparr>d_busy := 0\<rparr>, trace := trace m @ e1\<rparr>)" (is "_ = (0, ?m1)")
    using disk_wait_idle [of m] assms(1) by (auto simp: disk_ok_def)
  have "lba AND 0xF0000000 = 0" "unat lba < d_count (dev ?m1)"
    using assms small_lba [of lba] by (auto simp: disk_ok_def disk_count_def)
  from run_select [OF this, of "write"] obtain e2 d where
    2: "run_state (select_sector disk_hw lba write) ?m1
        = ((), ?m1\<lparr>dev := d, trace := trace ?m1 @ e2\<rparr>)" (is "_ = ((), ?m2)")
    and d: "d_lba d = unat lba" "d_data d = d_data (dev m)" "d_count d = d_count (dev m)"
      "d_delay d = d_delay (dev m)" "d_busy d = d_delay (dev m)" "\<not> d_err d"
      "if write then d_in d = Some [] \<and> d_out d = []
       else d_in d = None \<and> d_out d = words_of (d_data (dev m) (unat lba))"
    by auto
  have "length (words_of (d_data (dev m) (unat lba))) = 256"
    using assms(1) by (simp add: disk_ok_def)
  then have "words_of (d_data (dev m) (unat lba)) \<noteq> []" by force
  then have ready: "idle_status d AND ?bits = ATA_SR_DRQ"
    using d(6,7) by (cases "write") (auto simp: idle_status_def ata_bits)
  have "d_busy (dev ?m2) < 1000000"
    using assms(1) d(5) by (simp add: disk_ok_def)
  from disk_wait [OF this, of ?bits ATA_SR_DRQ] ready obtain e3 where
    3: "run_state (ata_wait disk_hw ?bits ATA_SR_DRQ) ?m2
        = (0, ?m2\<lparr>dev := d\<lparr>d_busy := 0\<rparr>, trace := trace ?m2 @ e3\<rparr>)"
    by (auto simp: ata_bits)
  have "run_state (ata_transfer disk_hw lba (Some b) write) m
      = run_state (move_data disk_hw b write) (m\<lparr>dev := d\<lparr>d_busy := 0\<rparr>, trace := trace m @ (e1 @ e2 @ e3)\<rparr>)"
    using 1 2 3 disk_in_range [OF assms(1), of lba] assms(2) by (simp add: ata_transfer_eq)
  moreover have "d_lba (d\<lparr>d_busy := 0\<rparr>) = d_lba d" by (simp add: d_lba_def)
  ultimately show ?thesis
    using d unfolding disk_sector_def
    by (intro exI [of _ "e1 @ e2 @ e3"] exI [of _ "d\<lparr>d_busy := 0\<rparr>"]) auto
qed

lemma disk_read:
  fixes m :: "(disk, 'm) ata_machine_scheme"
  assumes "disk_ok m" and "unat lba < disk_count m" and "length b = 512"
  shows "\<exists>m'. run_state (ata_read28 disk_hw lba (Some b)) m = ((0, Some (disk_sector m (unat lba))), m')
    \<and> disk_ok m' \<and> disk_sector m' = disk_sector m \<and> disk_count m' = disk_count m
    \<and> ata_machine.more m' = ata_machine.more m \<and> klog m' = klog m"
proof -
  let ?s = "disk_sector m (unat lba)"
  obtain es d where t: "run_state (ata_transfer disk_hw lba (Some b) False) m
      = run_state (move_data disk_hw b False) (m\<lparr>dev := d, trace := trace m @ es\<rparr>)"
    and d: "d_data d = disk_sector m" "d_count d = d_count (dev m)" "d_delay d = d_delay (dev m)"
      "d_busy d = 0" "d_out d = words_of ?s"
    using disk_transfer_start [OF assms(1,2), of b False] by auto
  let ?m = "m\<lparr>dev := d, trace := trace m @ es\<rparr>"
  have "length ?s = 512" using assms(1) by (simp add: disk_ok_def disk_sector_def)
  then have w: "length (words_of ?s) = 256" "bytes_of (words_of ?s) = ?s"
    by (simp_all add: bytes_of_words_of)
  obtain e2 where "run_state (in_words disk_hw b 0 256) ?m
      = (take (2 * 0) b @ bytes_of (words_of ?s), ?m\<lparr>dev := (dev ?m)\<lparr>d_out := []\<rparr>, trace := trace ?m @ e2\<rparr>)"
    using in_words_disk [of ?m "words_of ?s" 256 b 0] d(5) w(1) assms(3) by auto
  then have "run_state (ata_read28 disk_hw lba (Some b)) m
      = ((0, Some ?s), ?m\<lparr>dev := d\<lparr>d_out := []\<rparr>, trace := trace ?m @ e2\<rparr>)"
    by (simp add: ata_read28_def t move_data_def w(2))
  then show ?thesis
    using assms(1) d by (auto simp: disk_ok_def disk_sector_def disk_count_def)
qed

lemma disk_write:
  fixes m :: "(disk, 'm) ata_machine_scheme"
  assumes "disk_ok m" and "unat lba < disk_count m" and "length b = 512"
  shows "\<exists>m'. run_state (ata_write28 disk_hw lba (Some b)) m = (0, m')
    \<and> disk_ok m' \<and> disk_sector m' = (disk_sector m)(unat lba := b) \<and> disk_count m' = disk_count m
    \<and> ata_machine.more m' = ata_machine.more m \<and> klog m' = klog m"
proof -
  obtain es d where t: "run_state (ata_transfer disk_hw lba (Some b) True) m
      = run_state (move_data disk_hw b True) (m\<lparr>dev := d, trace := trace m @ es\<rparr>)"
    and d: "d_data d = disk_sector m" "d_count d = d_count (dev m)" "d_delay d = d_delay (dev m)"
      "d_busy d = 0" "d_in d = Some []" "d_lba d = unat lba"
    using disk_transfer_start [OF assms(1,2), of b True] by auto
  let ?m = "m\<lparr>dev := d, trace := trace m @ es\<rparr>"
  let ?d = "d\<lparr>d_data := (d_data d)(d_lba d := b), d_in := None, d_busy := d_delay d\<rparr>"
  have p: "d_in (dev ?m) = Some (take 0 (words_of b))" "length b = 512" "0 + Suc 255 = 256"
    using d(5) assms(3) by simp_all
  have "dev ?m = d" "Suc 255 = 256" by simp_all
  with out_words_disk [OF p] obtain e2 where 2: "run_state (out_words disk_hw b 0 256) ?m
      = ((), ?m\<lparr>dev := ?d, trace := trace ?m @ e2\<rparr>)" (is "_ = ((), ?m2)")
    by (simp only:) blast
  let ?f = "disk_command 0xE7 ?d"
  let ?m3 = "?m2\<lparr>dev := ?f, trace := trace ?m2 @ [Out8 ATA_COMMAND 0xE7]\<rparr>"
  note f = disk_command_flush
  have "d_busy (dev ?m3) < 1000000" using assms(1) d(3) by (simp add: f disk_ok_def)
  then obtain e3 where "run_state (ata_wait disk_hw ATA_SR_BSY 0) ?m3
      = (0, ?m3\<lparr>dev := ?f\<lparr>d_busy := 0\<rparr>, trace := trace ?m3 @ e3\<rparr>)"
    using disk_wait_idle [of ?m3] by auto
  then have "run_state (ata_write28 disk_hw lba (Some b)) m
      = (0, ?m3\<lparr>dev := ?f\<lparr>d_busy := 0\<rparr>, trace := trace ?m3 @ e3\<rparr>)"
    using 2 by (simp add: ata_write28_def t move_data_def run_outb disk_outb_def ata_ports)
  then show ?thesis
    using assms(1,3) d by (auto simp: disk_ok_def disk_sector_def disk_count_def f)
qed

section \<open>Block devices: the interface\<close>

text \<open>
  What the file system relies on: sectors of 512 bytes that reads return and writes
  replace, and an error that changes nothing for a sector out of range.
\<close>

fun write_sectors ::
    "(u32 \<Rightarrow> u8 list option \<Rightarrow> 's \<Rightarrow> int \<times> 's) \<Rightarrow> (u32 \<times> u8 list) list \<Rightarrow> 's \<Rightarrow> int list \<times> 's" where
  "write_sectors wr [] s = ([], s)"
| "write_sectors wr ((lba, b) # ws) s =
     (case wr lba (Some b) s of (rc, s1) \<Rightarrow> case write_sectors wr ws s1 of (rcs, s2) \<Rightarrow> (rc # rcs, s2))"

locale block_device =
  fixes rd :: "u32 \<Rightarrow> u8 list option \<Rightarrow> 's \<Rightarrow> (int \<times> u8 list option) \<times> 's"
    and wr :: "u32 \<Rightarrow> u8 list option \<Rightarrow> 's \<Rightarrow> int \<times> 's"
    and sector :: "'s \<Rightarrow> nat \<Rightarrow> u8 list"
    and count :: "'s \<Rightarrow> nat"
    and ok :: "'s \<Rightarrow> bool"
  assumes read_sector: "ok s \<Longrightarrow> unat lba < count s \<Longrightarrow> length b = 512 \<Longrightarrow>
      \<exists>s'. rd lba (Some b) s = ((0, Some (sector s (unat lba))), s')
        \<and> ok s' \<and> sector s' = sector s \<and> count s' = count s"
    and write_sector: "ok s \<Longrightarrow> unat lba < count s \<Longrightarrow> length b = 512 \<Longrightarrow>
      \<exists>s'. wr lba (Some b) s = (0, s')
        \<and> ok s' \<and> sector s' = (sector s)(unat lba := b) \<and> count s' = count s"
    and read_outside: "ok s \<Longrightarrow> count s \<le> unat lba \<Longrightarrow> rd lba bo s = ((-1, bo), s)"
    and write_outside: "ok s \<Longrightarrow> count s \<le> unat lba \<Longrightarrow> wr lba bo s = (-1, s)"
    and sector_length: "ok s \<Longrightarrow> length (sector s i) = 512"
begin

text \<open>A sector reads back as it was last written, whatever other sectors were written.\<close>

lemma write_all_sectors:
  "ok s \<Longrightarrow> \<forall>(lba, b) \<in> set ws. unat lba < count s \<and> length b = 512 \<Longrightarrow>
     \<exists>s'. write_sectors wr ws s = (replicate (length ws) 0, s') \<and> ok s' \<and> count s' = count s
       \<and> sector s' = foldl (\<lambda>f (lba, b). f(unat lba := b)) (sector s) ws"
proof (induction ws arbitrary: s)
  case Nil
  then show ?case by simp
next
  case (Cons w ws)
  obtain lba b where w: "w = (lba, b)" by (cases w)
  then have "unat lba < count s" "length b = 512" using Cons.prems(2) by auto
  from write_sector [OF Cons.prems(1) this] obtain s1 where s1: "wr lba (Some b) s = (0, s1)" "ok s1"
      "sector s1 = (sector s)(unat lba := b)" "count s1 = count s"
    by blast
  with Cons.IH [of s1] Cons.prems(2) w show ?case by auto
qed

lemma read_back:
  assumes "ok s" and "\<forall>(lba, b) \<in> set (ws @ (lba, b) # vs). unat lba < count s \<and> length b = 512"
    and "\<forall>(l, c) \<in> set vs. l \<noteq> lba" and "length buf = 512"
  shows "\<exists>s' s''. write_sectors wr (ws @ (lba, b) # vs) s = (replicate (length (ws @ (lba, b) # vs)) 0, s')
    \<and> rd lba (Some buf) s' = ((0, Some b), s'')"
proof -
  obtain s' where s': "write_sectors wr (ws @ (lba, b) # vs) s = (replicate (length (ws @ (lba, b) # vs)) 0, s')"
      "ok s'" "count s' = count s"
      "sector s' = foldl (\<lambda>f (lba, b). f(unat lba := b)) (sector s) (ws @ (lba, b) # vs)"
    using write_all_sectors [OF assms(1,2)] by blast
  have "foldl (\<lambda>f (lba, b). f(unat lba := b)) g vs (unat lba) = g (unat lba)" for g
    using assms(3) by (induction vs arbitrary: g) (auto simp: word_unat_eq_iff)
  then have "sector s' (unat lba) = b" using s'(4) by simp
  then show ?thesis
    using read_sector [OF s'(2), of lba buf] s'(1,3) assms(2,4) by auto
qed

end

interpretation ata_disk: block_device
  "\<lambda>lba b m. run_state (ata_read28 disk_hw lba b) m" "\<lambda>lba b m. run_state (ata_write28 disk_hw lba b) m"
  disk_sector disk_count disk_ok
proof
  fix m :: "(disk, 'm) ata_machine_scheme" and lba :: u32 and b :: "u8 list" and bo :: "u8 list option" and i
  assume ok: "disk_ok m"
  show "length (disk_sector m i) = 512" using ok by (simp add: disk_ok_def disk_sector_def)
  have out: "\<not> in_range lba m" if "disk_count m \<le> unat lba"
    using that disk_in_range [OF ok] by simp
  show "run_state (ata_read28 disk_hw lba bo) m = ((-1, bo), m)" if "disk_count m \<le> unat lba"
    using out [OF that] by (cases bo) (simp_all add: ata_read28_def ata_transfer_eq, simp add: ata_transfer_def)
  show "run_state (ata_write28 disk_hw lba bo) m = (-1, m)" if "disk_count m \<le> unat lba"
    using out [OF that] by (cases bo) (simp_all add: ata_write28_def ata_transfer_eq, simp add: ata_transfer_def)
  show "\<exists>m'. run_state (ata_read28 disk_hw lba (Some b)) m = ((0, Some (disk_sector m (unat lba))), m')
      \<and> disk_ok m' \<and> disk_sector m' = disk_sector m \<and> disk_count m' = disk_count m"
    if "unat lba < disk_count m" "length b = 512"
    using disk_read [OF ok that] by blast
  show "\<exists>m'. run_state (ata_write28 disk_hw lba (Some b)) m = (0, m')
      \<and> disk_ok m' \<and> disk_sector m' = (disk_sector m)(unat lba := b) \<and> disk_count m' = disk_count m"
    if "unat lba < disk_count m" "length b = 512"
    using disk_write [OF ok that] by blast
qed

section \<open>Detection of the drive\<close>

lemma identify_disk:
  fixes m :: "(disk, 'm) machine_scheme"
  assumes "d_out (dev m) = ws" and "length ws = n"
  shows "\<exists>es. run_state (identify_words disk_hw i n lh) m =
    ((if i \<le> 60 \<and> 60 < i + n then ws ! (60 - i) else fst lh,
      if i \<le> 61 \<and> 61 < i + n then ws ! (61 - i) else snd lh),
     m\<lparr>dev := (dev m)\<lparr>d_out := []\<rparr>, trace := trace m @ es\<rparr>)"
  using assms
proof (induction n arbitrary: m i lh ws)
  case 0
  then have "dev m = (dev m)\<lparr>d_out := []\<rparr>" by simp
  then have "m\<lparr>dev := (dev m)\<lparr>d_out := []\<rparr>, trace := trace m @ []\<rparr> = m"
    by (metis machine.surjective machine.update_convs(1,2) append_Nil2)
  then show ?case by (intro exI [of _ "[]"]) auto
next
  case (Suc n)
  obtain w vs where ws: "ws = w # vs" using Suc.prems(2) by (cases ws) auto
  let ?m = "m\<lparr>dev := (dev m)\<lparr>d_out := vs\<rparr>, trace := trace m @ [In16 ATA_DATA w]\<rparr>"
  let ?lh = "(if i = 60 then w else fst lh, if i = 61 then w else snd lh)"
  have step: "run_state (identify_words disk_hw i (Suc n) lh) m = run_state (identify_words disk_hw (i + 1) n ?lh) ?m"
    using Suc.prems(1) by (simp add: run_inw disk_inw_def ws)
  have p: "d_out (dev ?m) = vs" "length vs = n" using Suc.prems(2) ws by simp_all
  obtain es where ih: "run_state (identify_words disk_hw (i + 1) n ?lh) ?m =
    ((if i + 1 \<le> 60 \<and> 60 < i + 1 + n then vs ! (60 - (i + 1)) else fst ?lh,
      if i + 1 \<le> 61 \<and> 61 < i + 1 + n then vs ! (61 - (i + 1)) else snd ?lh),
     ?m\<lparr>dev := (dev ?m)\<lparr>d_out := []\<rparr>, trace := trace ?m @ es\<rparr>)"
    using Suc.IH [OF p] by blast
  show ?case
    unfolding step ih by (intro exI [of _ "In16 ATA_DATA w # es"]) (auto simp: ws nth_Cons')
qed

lemma count_words:
  assumes "n < 2 ^ 32"
  shows "unat (push_bit 16 (ucast (of_nat (n div 65536) :: u16)) OR ucast (of_nat n :: u16) :: u32) = n"
proof -
  let ?h = "ucast (of_nat (n div 65536) :: u16) :: u32" and ?l = "ucast (of_nat n :: u16) :: u32"
  have h: "unat ?h = n div 65536"
    using assms by (simp add: unat_ucast_mod unat_of_nat less_mult_imp_div_less)
  have l: "unat ?l = n mod 65536"
    by (simp add: unat_ucast_mod unat_of_nat)
  have low: "\<not> bit ?l k" if "16 \<le> k" for k
    using that by (auto simp: bit_ucast_iff dest: bit_imp_le_length)
  then have "push_bit 16 ?h OR ?l = push_bit 16 ?h + ?l"
    by (intro disjunctive_add [symmetric]) (use low in \<open>auto simp: bit_push_bit_iff\<close>)
  moreover have "unat (push_bit 16 ?h) = n div 65536 * 65536"
    using h assms by (simp add: push_bit_eq_mult unat_word_ariths less_mult_imp_div_less)
  moreover have "n div 65536 * 65536 + n mod 65536 < 2 ^ 32"
    using assms div_mult_mod_eq [of n 65536] by simp
  ultimately show ?thesis
    using l by (simp add: unat_word_ariths)
qed

text \<open>The command and the answer to it.\<close>

definition send_identify :: "'d hw \<Rightarrow> (('d, 'm) ata_machine_scheme, unit) state" where
  "send_identify hw = do {
     State (\<lambda>m. ((), m\<lparr>present := False, sector_count := 0\<rparr>));
     outb hw ATA_CONTROL 2; outb hw ATA_DRIVE 0xA0; io_wait hw; outb hw ATA_SECCOUNT 0;
     outb hw ATA_LBA0 0; outb hw ATA_LBA1 0; outb hw ATA_LBA2 0;
     outb hw ATA_COMMAND ATA_CMD_IDENTIFY }"

definition read_identify :: "'d hw \<Rightarrow> (('d, 'm) ata_machine_scheme, int) state" where
  "read_identify hw = do {
     status \<leftarrow> inb hw ATA_STATUS;
     if status = 0 then State_Monad.return (-1) else do {
     rc \<leftarrow> ata_wait hw ATA_SR_BSY 0;
     if rc \<noteq> 0 then State_Monad.return (-1) else do {
     lba1 \<leftarrow> inb hw ATA_LBA1;
     if lba1 \<noteq> 0 then State_Monad.return (-1) else do {
     lba2 \<leftarrow> inb hw ATA_LBA2;
     if lba2 \<noteq> 0 then State_Monad.return (-1) else do {
     rc \<leftarrow> ata_wait hw (ATA_SR_DRQ OR ATA_SR_ERR) ATA_SR_DRQ;
     if rc \<noteq> 0 then State_Monad.return (-1) else do {
     lh \<leftarrow> identify_words hw 0 256 (0, 0);
     State (\<lambda>m. ((), m\<lparr>sector_count := push_bit 16 (ucast (snd lh)) OR ucast (fst lh), present := True\<rparr>));
     log_text (''[MinOS ATA] primary master PIO device ready (28-bit LBA).'' @ [CHR 0x0A]);
     State_Monad.return 0 }}}}} }"

lemma init_eq: "ata_primary_master_init hw = do { send_identify hw; read_identify hw }"
  by (simp add: ata_primary_master_init_def send_identify_def read_identify_def)

lemma run_send_identify:
  "\<exists>es. run_state (send_identify disk_hw) m = ((), m\<lparr>present := False, sector_count := 0,
     dev := disk_command 0xEC ((dev m)\<lparr>d_drive := 0xA0, d_lba0 := 0, d_lba1 := 0, d_lba2 := 0\<rparr>),
     trace := trace m @ es\<rparr>)"
  by (simp add: send_identify_def run_outb run_io_wait disk_outb_def ata_ports ata_cmds) (rule exI, rule refl)

lemma run_read_identify:
  fixes m :: "(disk, 'm) ata_machine_scheme"
  assumes "d_out (dev m) = ws" and "length ws = 256" and "d_busy (dev m) < 1000000"
    and "\<not> d_err (dev m)" and "d_lba1 (dev m) = 0" and "d_lba2 (dev m) = 0"
  shows "\<exists>es log. run_state (read_identify disk_hw) m = (0, m\<lparr>dev := (dev m)\<lparr>d_busy := 0, d_out := []\<rparr>,
     trace := trace m @ es, sector_count := push_bit 16 (ucast (ws ! 61)) OR ucast (ws ! 60),
     present := True, klog := klog m @ log\<rparr>)"
proof -
  let ?d = "dev m" and ?s = "disk_inb ATA_STATUS (dev m)"
  have ne: "ws \<noteq> []" using assms(2) by auto
  then have idle: "idle_status ?d = 0x48" using assms(1,4) by (simp add: idle_status_def)
  have st: "fst ?s \<noteq> 0" "d_busy (snd ?s) < 1000000" "(snd ?s)\<lparr>d_busy := 0\<rparr> = ?d\<lparr>d_busy := 0\<rparr>"
    using idle assms(3) by (auto simp: disk_status)
  let ?m1 = "m\<lparr>dev := snd ?s, trace := trace m @ [In8 ATA_STATUS (fst ?s)]\<rparr>"
  obtain e1 where w1: "run_state (ata_wait disk_hw ATA_SR_BSY 0) ?m1
      = (0, ?m1\<lparr>dev := ?d\<lparr>d_busy := 0\<rparr>, trace := trace ?m1 @ e1\<rparr>)"
    using disk_wait_idle [of ?m1] st(2,3) by auto
  let ?m2 = "m\<lparr>dev := ?d\<lparr>d_busy := 0\<rparr>, trace := trace m @ In8 ATA_STATUS (fst ?s) # e1 @ [In8 ATA_LBA1 0, In8 ATA_LBA2 0]\<rparr>"
  have lba: "disk_inb ATA_LBA1 (?d\<lparr>d_busy := 0\<rparr>) = (0, ?d\<lparr>d_busy := 0\<rparr>)" "disk_inb ATA_LBA2 (?d\<lparr>d_busy := 0\<rparr>) = (0, ?d\<lparr>d_busy := 0\<rparr>)"
    using assms(5,6) by (simp_all add: disk_inb_def ata_ports)
  have "idle_status (dev ?m2) AND (ATA_SR_DRQ OR ATA_SR_ERR) = ATA_SR_DRQ"
    using assms(1,4) ne by (simp add: idle_status_def ata_bits)
  then obtain e2 where w2: "run_state (ata_wait disk_hw (ATA_SR_DRQ OR ATA_SR_ERR) ATA_SR_DRQ) ?m2
      = (0, ?m2\<lparr>dev := ?d\<lparr>d_busy := 0\<rparr>, trace := trace ?m2 @ e2\<rparr>)"
    using disk_wait [of ?m2 "ATA_SR_DRQ OR ATA_SR_ERR" ATA_SR_DRQ] by (auto simp: ata_bits)
  let ?m3 = "?m2\<lparr>dev := ?d\<lparr>d_busy := 0\<rparr>, trace := trace ?m2 @ e2\<rparr>"
  have "d_out (dev ?m3) = ws" using assms(1) by simp
  from identify_disk [OF this assms(2), of 0 "(0, 0)"] obtain e3 where
    w3: "run_state (identify_words disk_hw 0 256 (0, 0)) ?m3
      = ((ws ! 60, ws ! 61), ?m3\<lparr>dev := (dev ?m3)\<lparr>d_out := []\<rparr>, trace := trace ?m3 @ e3\<rparr>)"
    by (auto simp del: identify_words.simps)
  show ?thesis
    using st(1) w1 w2 w3 lba
    by (simp add: read_identify_def run_inb run_log_text del: identify_words.simps)
       (rule exI, rule exI, rule refl)
qed

lemma disk_identify:
  fixes m :: "(disk, 'm) ata_machine_scheme"
  assumes "d_delay (dev m) < 1000000" and "d_count (dev m) \<le> 2 ^ 28"
    and "\<forall>i. length (d_data (dev m) i) = 512"
  shows "\<exists>m'. run_state (ata_primary_master_init disk_hw) m = (0, m') \<and> disk_ok m'
    \<and> disk_sector m' = disk_sector m \<and> disk_count m' = disk_count m"
proof -
  let ?c = "disk_command 0xEC ((dev m)\<lparr>d_drive := 0xA0, d_lba0 := 0, d_lba1 := 0, d_lba2 := 0\<rparr>)"
  have c: "d_out ?c = identity (dev m)" "d_data ?c = d_data (dev m)" "d_count ?c = d_count (dev m)"
      "d_delay ?c = d_delay (dev m)" "d_busy ?c = d_delay (dev m)" "\<not> d_err ?c"
      "d_lba1 ?c = 0" "d_lba2 ?c = 0"
    by (simp_all add: disk_command_def Let_def identity_def)
  obtain e1 where 1: "run_state (send_identify disk_hw) m
      = ((), m\<lparr>present := False, sector_count := 0, dev := ?c, trace := trace m @ e1\<rparr>)" (is "_ = ((), ?m1)")
    using run_send_identify by blast
  have i: "length (identity (dev m)) = 256" "identity (dev m) ! 60 = of_nat (d_count (dev m))"
      "identity (dev m) ! 61 = of_nat (d_count (dev m) div 65536)"
    by (simp_all add: identity_def)
  have p: "d_out (dev ?m1) = identity (dev m)" "d_busy (dev ?m1) < 1000000" "\<not> d_err (dev ?m1)"
      "d_lba1 (dev ?m1) = 0" "d_lba2 (dev ?m1) = 0"
    using c assms(1) by simp_all
  obtain e2 log where 2: "run_state (read_identify disk_hw) ?m1 = (0, ?m1\<lparr>dev := (dev ?m1)\<lparr>d_busy := 0, d_out := []\<rparr>,
     trace := trace ?m1 @ e2,
     sector_count := push_bit 16 (ucast (identity (dev m) ! 61)) OR ucast (identity (dev m) ! 60),
     present := True, klog := klog ?m1 @ log\<rparr>)"
    using run_read_identify [OF p(1) i(1) p(2-5)] by blast
  have "unat (push_bit 16 (ucast (identity (dev m) ! 61)) OR ucast (identity (dev m) ! 60) :: u32) = d_count (dev m)"
    unfolding i using assms(2) by (intro count_words) simp
  then show ?thesis
    using 1 2 c assms by (simp add: init_eq disk_ok_def disk_sector_def disk_count_def)
qed

section \<open>Properties\<close>

text \<open>
  C35: on any hardware a transfer returns after at most 3000263 port accesses and leaves the
  driver's statics alone; a request for a sector outside the drive, with no drive or with
  a null buffer answers -1 without a single port access.
\<close>

theorem ata_transfer_bounded:
  "(\<exists>d es. snd (run_state (ata_transfer hw lba (Some b) write) m) = m\<lparr>dev := d, trace := trace m @ es\<rparr>
      \<and> length es \<le> 3000263)
   \<and> (run_state (ata_transfer hw lba (Some b) write) m = ((-1, Some b), m)
      \<or> present m \<and> lba < sector_count m)
   \<and> run_state (ata_transfer hw lba None write) m = ((-1, None), m)"
  using ata_transfer_ran [of m hw lba b "write"]
  by (auto simp: ata_ran_def ata_transfer_eq in_range_def) (simp_all add: ata_transfer_def)


definition sample_disk :: disk where
  "sample_disk = \<lparr>d_data = (\<lambda>i. replicate 512 0), d_count = 4, d_delay = 2, d_busy = 0, d_lba0 = 0, d_lba1 = 0,
     d_lba2 = 0, d_drive = 0, d_out = [], d_in = None, d_err = False\<rparr>"

definition sample_ata :: "disk ata_machine" where
  "sample_ata = \<lparr>dev = sample_disk, trace = [], klog = [], serial_initialized = True,
     present = True, sector_count = 4\<rparr>"

lemma sample_ata_ok: "disk_ok sample_ata" "disk_count sample_ata = 4"
  by (simp_all add: disk_ok_def sample_ata_def sample_disk_def disk_count_def)


text \<open>
  Detection works.  On a drive that answers within the driver's patience
  \<^verbatim>\<open>ata_primary_master_init\<close> answers 0, and the driver then knows the drive's size exactly,
  from words 60 and 61 of its identification; no sector changes.
\<close>

lemma ata_init_detects_drive:
  fixes m :: "(disk, 'm) ata_machine_scheme"
  assumes "d_delay (dev m) < 1000000" and "d_count (dev m) \<le> 2 ^ 28"
    and "\<forall>i. length (d_data (dev m) i) = 512"
  shows "\<exists>m'. run_state (ata_primary_master_init disk_hw) m = (0, m') \<and> disk_ok m'
    \<and> unat (sector_count m') = d_count (dev m) \<and> disk_sector m' = disk_sector m"
  using disk_identify [OF assms] by (auto simp: disk_ok_def disk_count_def)

lemma ata_init_sample:
  "\<exists>m'. run_state (ata_primary_master_init disk_hw) (sample_ata\<lparr>present := False\<rparr>) = (0, m')
     \<and> unat (sector_count m') = 4"
  using ata_init_detects_drive [of "sample_ata\<lparr>present := False\<rparr>"]
  by (auto simp: sample_ata_def sample_disk_def)

end
