(* ===== verification/Minos_Vfs.thy ===== *)
theory Minos_Vfs
  imports Minos_Ata Minos_Boot
begin

text \<open>
  The file system of \<^verbatim>\<open>kernel/vfs.c\<close>: a table of 64 records (name, parent, type, size, place
  on disk) and 64 file buffers of 4 KiB in memory, path normalisation and lookup, the
  operations on files and directories, and the table's image in eight disk sectors.
  A C string is a list of characters without the terminating null; a name array is the
  list of its 32 characters.  Reading a name array without a terminator, following a
  parent index outside the table and writing past a path buffer of 128 bytes are
  undefined and \<^term>\<open>None\<close> here.
\<close>

section \<open>Data (vfs.h, vfs.c)\<close>

definition VFS_PATH_MAX :: nat where "VFS_PATH_MAX = 127"
definition VFS_NAME_MAX :: nat where "VFS_NAME_MAX = 31"
definition VFS_FILE_MAX :: nat where "VFS_FILE_MAX = 64"
definition VFS_SECTOR_SIZE :: u32 where "VFS_SECTOR_SIZE = 512"
definition VFS_META_SECTORS :: u32 where "VFS_META_SECTORS = 8"
definition VFS_DATA_SECTORS_PER_FILE :: u32 where "VFS_DATA_SECTORS_PER_FILE = 8"
definition VFS_DISK_END_LBA :: u32 where "VFS_DISK_END_LBA = 65536"
definition VFS_RESERVED_SECTORS :: u32 where "VFS_RESERVED_SECTORS = 512"
definition VFS_META_LBA :: u32 where "VFS_META_LBA = VFS_DISK_END_LBA - VFS_RESERVED_SECTORS"
definition VFS_DATA_LBA :: u32 where "VFS_DATA_LBA = VFS_META_LBA + VFS_META_SECTORS"
definition VFS_CONTENT_MAX :: u32 where "VFS_CONTENT_MAX = VFS_DATA_SECTORS_PER_FILE * VFS_SECTOR_SIZE"
definition VFS_MAGIC :: u32 where "VFS_MAGIC = 0x534F4E4D"

lemma vfs_lbas: "VFS_META_LBA = 65024" "VFS_DATA_LBA = 65032" "VFS_CONTENT_MAX = 4096"
  by (simp_all add: VFS_META_LBA_def VFS_DATA_LBA_def VFS_CONTENT_MAX_def VFS_DISK_END_LBA_def
      VFS_RESERVED_SECTORS_def VFS_META_SECTORS_def VFS_DATA_SECTORS_PER_FILE_def VFS_SECTOR_SIZE_def)

definition VFS_DIRECTORY :: u8 where "VFS_DIRECTORY = 1"
definition VFS_FILE :: u8 where "VFS_FILE = 2"

record vfs_stat =
  st_type :: u8
  st_size :: u32

record vfs_dirent =
  de_name :: "char list"
  de_type :: u8
  de_size :: u32

text \<open>The parent is a 16-bit signed number, kept as its bits.\<close>

record vfs_record =
  v_name :: "char list"
  v_parent :: u16
  v_type :: u8
  v_used :: u8
  v_size :: u32
  v_data_lba :: u32

record 'd vfs_machine = "'d ata_machine" +
  records :: "vfs_record list"
  contents :: "u8 list list"
  generation :: u32
  disk_backed :: bool

section \<open>Strings\<close>

text \<open>The string in a character array: the characters before the first null.\<close>

definition cstr :: "char list \<Rightarrow> string c_result" where
  "cstr a = (if CHR 0x00 \<in> set a then Some (takeWhile (\<lambda>c. c \<noteq> CHR 0x00) a) else None)"

text \<open>\<^verbatim>\<open>copy\<close> into an array of at least \<open>cap\<close> characters; \<^term>\<open>None\<close> is a null source.\<close>

definition copy :: "char list \<Rightarrow> string option \<Rightarrow> nat \<Rightarrow> char list" where
  "copy d s cap =
     (if cap = 0 then d
      else let t = take (cap - 1) (case s of None \<Rightarrow> [] | Some s' \<Rightarrow> s')
           in t @ [CHR 0x00] @ drop (length t + 1) d)"

section \<open>Path normalisation\<close>

text \<open>The loop over the components; \<open>parts\<close> are the components kept so far.\<close>

function normalize_loop :: "string \<Rightarrow> string list \<Rightarrow> string list option" where
  "normalize_loop path parts =
     (if path = [] then Some parts
      else
        let comp = takeWhile (\<lambda>c. c \<noteq> CHR ''/'') path;
            rest = dropWhile (\<lambda>c. c = CHR ''/'') (dropWhile (\<lambda>c. c \<noteq> CHR ''/'') path)
        in if comp = [] \<or> comp = ''.'' then normalize_loop rest parts
           else if comp = ''..'' then normalize_loop rest (if parts = [] then [] else butlast parts)
           else if length comp \<le> VFS_NAME_MAX \<and> length parts < 16 then normalize_loop rest (parts @ [comp])
           else None)"
  by pat_completeness auto

lemma rest_shorter:
  assumes "path \<noteq> []"
  shows "length (dropWhile (\<lambda>c. c = CHR ''/'') (dropWhile (\<lambda>c. c \<noteq> CHR ''/'') path)) < length path"
proof (cases path)
  case Nil
  then show ?thesis using assms by simp
next
  case (Cons c cs)
  then show ?thesis
    using length_dropWhile_le [of "\<lambda>c. c = CHR ''/''" cs] length_dropWhile_le [of "\<lambda>c. c \<noteq> CHR ''/''" cs]
      length_dropWhile_le [of "\<lambda>c. c = CHR ''/''" "dropWhile (\<lambda>c. c \<noteq> CHR ''/'') cs"]
    by simp
qed

termination normalize_loop
  by (relation "measure (\<lambda>(path, parts). length path)") (auto simp: rest_shorter)

declare normalize_loop.simps [simp del]

text \<open>One component added to the output.\<close>

definition append_part :: "string \<Rightarrow> string \<Rightarrow> string" where
  "append_part out p = (if length out > 1 then out @ ''/'' else out) @ p"

definition render :: "string list \<Rightarrow> string" where
  "render parts = foldl append_part ''/'' parts"

text \<open>
  The part for absolute paths: the status and the output buffer, which has room for 127
  characters and the terminator.
\<close>

definition normalize_abs :: "string \<Rightarrow> (int \<times> string) c_result" where
  "normalize_abs path =
     (case normalize_loop (tl path) [] of
        None \<Rightarrow> Some (-1, [])
      | Some parts \<Rightarrow> if length (render parts) \<le> VFS_PATH_MAX then Some (0, render parts) else None)"

text \<open>
  A relative path: \<open>work\<close> is the normalised working directory; the two are joined and
  normalised again.
\<close>

definition normalize_join :: "string \<Rightarrow> string \<Rightarrow> (int \<times> string) c_result" where
  "normalize_join work path =
     (if length work + 1 + length path > VFS_PATH_MAX then Some (-1, [])
      else let joined = (if length work > 1 then work @ ''/'' else work) @ path in do {
        (rc, out) \<leftarrow> normalize_abs joined;
        Some (if rc = 0 then (0, take VFS_PATH_MAX out) else (-1, joined))
      })"

definition is_absolute :: "string \<Rightarrow> bool" where
  "is_absolute path \<longleftrightarrow> path \<noteq> [] \<and> hd path = CHR ''/''"

text \<open>
  The recursion of \<^verbatim>\<open>vfs_normalize\<close> is at most three calls deep: \<open>normalize_root\<close> is the
  function with working directory \<^verbatim>\<open>/\<close>.  A null or empty path is \<^term>\<open>None\<close> or \<open>[]\<close>.
\<close>

definition normalize_root :: "string \<Rightarrow> (int \<times> string) c_result" where
  "normalize_root path =
     (if path = [] then Some (-1, [])
      else if is_absolute path then normalize_abs path
      else normalize_join ''/'' path)"

definition vfs_normalize :: "string option \<Rightarrow> string option \<Rightarrow> (int \<times> string) c_result" where
  "vfs_normalize cwd path =
     (case path of
        None \<Rightarrow> Some (-1, [])
      | Some p \<Rightarrow>
          if p = [] then Some (-1, [])
          else if is_absolute p then normalize_abs p
          else (case cwd of
              None \<Rightarrow> Some (-1, [])
            | Some w \<Rightarrow> do {
                (rc, work) \<leftarrow> normalize_root w;
                (if rc \<noteq> 0 then Some (-1, []) else normalize_join work p)
              }))"

section \<open>Lookup\<close>

text \<open>
  The walk to the root, 16 steps at most: the indices from \<open>at\<close> upwards.  An index is
  the parent converted to 32 bits, so a negative parent is outside the table.
\<close>

definition parent_index :: "vfs_record \<Rightarrow> u32" where
  "parent_index r = scast (v_parent r)"

fun walk_up :: "vfs_record list \<Rightarrow> nat \<Rightarrow> u32 \<Rightarrow> nat list c_result" where
  "walk_up recs 0 at = Some []"
| "walk_up recs (Suc n) at =
     (if at = 0 then Some []
      else if unat at < length recs then do {
        st \<leftarrow> walk_up recs n (parent_index (recs ! unat at));
        Some (unat at # st)
      } else None)"

text \<open>
  A name added to a path buffer of 128 bytes.  The name is cut at the end of the buffer;
  a separator added to a full path puts the terminator outside it.
\<close>

definition add_name :: "string \<Rightarrow> string \<Rightarrow> string c_result" where
  "add_name path name =
     (let q = (if length path > 1 then path @ ''/'' else path)
      in if length q > VFS_PATH_MAX then None else Some (q @ take (VFS_PATH_MAX - length q) name))"

fun add_names :: "vfs_record list \<Rightarrow> nat list \<Rightarrow> string \<Rightarrow> string c_result" where
  "add_names recs [] path = Some path"
| "add_names recs (k # ks) path = do {
     name \<leftarrow> cstr (v_name (recs ! k));
     path' \<leftarrow> add_name path name;
     add_names recs ks path'
   }"

definition candidate_path :: "vfs_record list \<Rightarrow> nat \<Rightarrow> string c_result" where
  "candidate_path recs i = do {
     parent \<leftarrow> (if v_parent (recs ! i) = 0 then Some ''/''
               else do {
                 st \<leftarrow> walk_up recs 16 (parent_index (recs ! i));
                 add_names recs (rev st) ''/'' });
     add_names recs [i] parent
   }"

text \<open>The loop of \<^verbatim>\<open>find\<close> from record \<open>i\<close> on.\<close>

fun find_loop :: "vfs_record list \<Rightarrow> string \<Rightarrow> nat list \<Rightarrow> int c_result" where
  "find_loop recs normalized [] = Some (-1)"
| "find_loop recs normalized (i # is) =
     (if v_used (recs ! i) = 0 then find_loop recs normalized is
      else if sint (v_parent (recs ! i)) < 0 then find_loop recs normalized is
      else do {
        candidate \<leftarrow> candidate_path recs i;
        (if candidate = normalized then Some (int i) else find_loop recs normalized is)
      })"

definition find_path :: "vfs_record list \<Rightarrow> string option \<Rightarrow> int c_result" where
  "find_path recs path = do {
     (rc, normalized) \<leftarrow> vfs_normalize (Some ''/'') path;
     (if rc \<noteq> 0 then Some (-1)
      else if normalized = ''/'' then Some 0
      else find_loop recs normalized [1..<VFS_FILE_MAX])
   }"

text \<open>
  \<^verbatim>\<open>parent_and_name\<close>: status, parent and name; the split is the last slash after the
  first character.
\<close>

definition last_slash :: "string \<Rightarrow> nat" where
  "last_slash s = foldl (\<lambda>split i. if s ! i = CHR ''/'' then i else split) 0 [1..<length s]"

definition parent_and_name :: "vfs_record list \<Rightarrow> string option \<Rightarrow> (int \<times> int \<times> string) c_result" where
  "parent_and_name recs path = do {
     (rc, normalized) \<leftarrow> vfs_normalize (Some ''/'') path;
     (if rc \<noteq> 0 \<or> normalized = ''/'' then Some (-1, 0, [])
      else
        let split = last_slash normalized;
            name = take VFS_NAME_MAX (drop (if split \<noteq> 0 then split + 1 else 1) normalized);
            parent_path = (if split = 0 then ''/'' else take split normalized)
        in do {
          parent \<leftarrow> find_path recs (Some parent_path);
          Some (if 0 \<le> parent \<and> v_type (recs ! nat parent) = VFS_DIRECTORY then 0 else -1, parent, name)
        })
   }"

section \<open>The table on disk\<close>

definition char_of_byte :: "u8 \<Rightarrow> char" where
  "char_of_byte b = char_of (unat b)"

definition le_bytes16 :: "u16 \<Rightarrow> u8 list" where
  "le_bytes16 w = [ucast w, ucast (drop_bit 8 w)]"

definition from_le16 :: "u8 list \<Rightarrow> u16" where
  "from_le16 b = ucast (b ! 0) OR push_bit 8 (ucast (b ! 1))"

definition from_le32 :: "u8 list \<Rightarrow> u32" where
  "from_le32 b = ucast (b ! 0) OR push_bit 8 (ucast (b ! 1)) OR push_bit 16 (ucast (b ! 2))
     OR push_bit 24 (ucast (b ! 3))"

text \<open>The 44 bytes of a record, in the layout of the structure on x86-64.\<close>

definition sizeof_record :: nat where "sizeof_record = 44"

definition record_bytes :: "vfs_record \<Rightarrow> u8 list" where
  "record_bytes r = map byte_of_char (v_name r) @ le_bytes16 (v_parent r) @ [v_type r, v_used r]
     @ le_bytes32 (v_size r) @ le_bytes32 (v_data_lba r)"

definition record_of_bytes :: "u8 list \<Rightarrow> vfs_record" where
  "record_of_bytes b = \<lparr>v_name = map char_of_byte (take 32 b), v_parent = from_le16 (drop 32 b),
     v_type = b ! 34, v_used = b ! 35, v_size = from_le32 (drop 36 b), v_data_lba = from_le32 (drop 40 b)\<rparr>"

definition metadata_image :: "u32 \<Rightarrow> vfs_record list \<Rightarrow> u8 list" where
  "metadata_image gen recs =
     (let used = le_bytes32 VFS_MAGIC @ le_bytes32 gen @ concat (map record_bytes recs)
      in used @ replicate (4096 - length used) 0)"

definition records_of_image :: "u8 list \<Rightarrow> vfs_record list" where
  "records_of_image all =
     map (\<lambda>i. record_of_bytes (take sizeof_record (drop (8 + i * sizeof_record) all))) [0..<VFS_FILE_MAX]"

text \<open>The loops over the eight sectors, from sector \<open>i\<close> on.\<close>

fun write_meta :: "'d hw \<Rightarrow> u8 list \<Rightarrow> nat \<Rightarrow> nat \<Rightarrow> ('d, 'm) ata_machine_scheme \<Rightarrow> int \<times> ('d, 'm) ata_machine_scheme" where
  "write_meta hw all i 0 m = (0, m)"
| "write_meta hw all i (Suc n) m =
     (case run_state (ata_write28 hw (VFS_META_LBA + of_nat i) (Some (take 512 (drop (i * 512) all)))) m of
        (rc, m') \<Rightarrow> if rc \<noteq> 0 then (-1, m') else write_meta hw all (i + 1) n m')"

fun read_meta ::
    "'d hw \<Rightarrow> nat \<Rightarrow> nat \<Rightarrow> u8 list \<Rightarrow> ('d, 'm) ata_machine_scheme \<Rightarrow> (bool \<times> u8 list) \<times> ('d, 'm) ata_machine_scheme" where
  "read_meta hw i 0 all m = ((True, all), m)"
| "read_meta hw i (Suc n) all m =
     (case run_state (ata_read28 hw (VFS_META_LBA + of_nat i) (Some (take 512 (drop (i * 512) all)))) m of
        ((rc, b), m') \<Rightarrow>
          if rc \<noteq> 0 then ((False, all), m')
          else read_meta hw (i + 1) n (take (i * 512) all @ the b @ drop ((i + 1) * 512) all) m')"

definition persist :: "'d hw \<Rightarrow> ('d, 'm) vfs_machine_scheme \<Rightarrow> int \<times> ('d, 'm) vfs_machine_scheme" where
  "persist hw m =
     (if \<not> disk_backed m then (0, m)
      else let m1 = m\<lparr>generation := generation m + 1\<rparr>
           in write_meta hw (metadata_image (generation m1) (records m1)) 0 8 m1)"

definition zero_record :: vfs_record where
  "zero_record = \<lparr>v_name = replicate 32 (CHR 0x00), v_parent = 0, v_type = 0, v_used = 0, v_size = 0, v_data_lba = 0\<rparr>"

definition root_record :: vfs_record where
  "root_record = zero_record\<lparr>v_used := 1, v_type := VFS_DIRECTORY, v_parent := -1,
     v_name := copy (v_name zero_record) (Some ''/'') 32\<rparr>"

fun log_records :: "nat list \<Rightarrow> ('d, 'm) vfs_machine_scheme \<Rightarrow> ('d, 'm) vfs_machine_scheme c_result" where
  "log_records [] m = Some m"
| "log_records (i # is) m =
     (let r = records m ! i in
      if v_used r = 0 then log_records is m
      else do {
        name \<leftarrow> cstr (v_name r);
        log_records is (snd (run_state (log_fmt (''[MinOS VFS] record=%u name=%s parent=%d size=%u'' @ [CHR 0x0A])
          [Num (of_nat i), Str (Some name), Num (ucast (parent_index r)), Num (ucast (v_size r))]) m))
      })"

text \<open>
  The load of the table: whether it succeeded, and the machine.  The buffers are
  uninitialised in C and filled by the reads before they are used.
\<close>

definition load_metadata :: "'d hw \<Rightarrow> ('d, 'm) vfs_machine_scheme \<Rightarrow> bool \<times> ('d, 'm) vfs_machine_scheme" where
  "load_metadata hw m =
     (if \<not> disk_backed m then (False, m)
      else case run_state (ata_read28 hw VFS_META_LBA (Some (replicate 512 0))) m of
        ((rc, sector), m1) \<Rightarrow>
          if rc \<noteq> 0 \<or> from_le32 (the sector) \<noteq> VFS_MAGIC then (False, m1)
          else case read_meta hw 0 8 (replicate 4096 0) m1 of
            ((complete, all), m2) \<Rightarrow>
              if complete then (True, m2\<lparr>records := records_of_image all, generation := from_le32 (drop 4 all)\<rparr>)
              else (False, m2))"

definition vfs_init :: "'d hw \<Rightarrow> ('d, 'm) vfs_machine_scheme \<Rightarrow> (int \<times> ('d, 'm) vfs_machine_scheme) c_result" where
  "vfs_init hw m =
     (let m0 = m\<lparr>records := (replicate VFS_FILE_MAX zero_record)[0 := root_record], generation := 0,
                 disk_backed := ata_primary_master_present m\<rparr>
      in case load_metadata hw m0 of (loaded, m1) \<Rightarrow>
         let m2 = snd (run_state (log_fmt (''[MinOS VFS] metadata %s, generation=%u'' @ [CHR 0x0A])
                    [Str (Some (if loaded then ''loaded'' else ''initialized'')), Num (ucast (generation m1))]) m1)
         in do {
           m3 \<leftarrow> log_records [1..<VFS_FILE_MAX] m2;
           Some (persist hw (snd (run_state (log_text (''[MinOS VFS] mounted persistent metadata filesystem at /.''
             @ [CHR 0x0A])) m3)))
         })"

section \<open>Files and directories\<close>

definition vfs_stat_path ::
    "vfs_record list \<Rightarrow> string option \<Rightarrow> vfs_stat option \<Rightarrow> (int \<times> vfs_stat option) c_result" where
  "vfs_stat_path recs path st = do {
     n \<leftarrow> find_path recs path;
     Some (if n < 0 \<or> st = None then (-1, st)
           else (0, Some \<lparr>st_type = v_type (recs ! nat n), st_size = v_size (recs ! nat n)\<rparr>))
   }"

definition vfs_is_directory :: "vfs_record list \<Rightarrow> string option \<Rightarrow> bool c_result" where
  "vfs_is_directory recs path = do {
     (rc, s) \<leftarrow> vfs_stat_path recs path (Some \<lparr>st_type = 0, st_size = 0\<rparr>);
     Some (rc = 0 \<and> st_type (the s) = VFS_DIRECTORY)
   }"

definition free_slot :: "vfs_record list \<Rightarrow> nat option" where
  "free_slot recs = List.find (\<lambda>i. v_used (recs ! i) = 0) [1..<VFS_FILE_MAX]"

definition new_record :: "nat \<Rightarrow> int \<Rightarrow> string \<Rightarrow> u8 \<Rightarrow> vfs_record" where
  "new_record slot parent name ty = zero_record\<lparr>v_used := 1, v_type := ty, v_parent := of_int parent,
     v_name := copy (v_name zero_record) (Some name) 32, v_data_lba := VFS_DATA_LBA + of_nat slot * 8\<rparr>"

definition create :: "'d hw \<Rightarrow> string option \<Rightarrow> u8 \<Rightarrow> ('d, 'm) vfs_machine_scheme
    \<Rightarrow> (int \<times> ('d, 'm) vfs_machine_scheme) c_result" where
  "create hw path ty m = do {
     n \<leftarrow> find_path (records m) path;
     (if 0 \<le> n then Some (-1, m)
      else do {
        (rc, parent, name) \<leftarrow> parent_and_name (records m) path;
        (if rc \<noteq> 0 \<or> name = [] then Some (-1, m)
         else case free_slot (records m) of
             None \<Rightarrow> Some (-1, m)
           | Some slot \<Rightarrow> Some (persist hw (m\<lparr>records := (records m)[slot := new_record slot parent name ty]\<rparr>)))
      })
   }"

definition vfs_mkdir :: "'d hw \<Rightarrow> string option \<Rightarrow> ('d, 'm) vfs_machine_scheme
    \<Rightarrow> (int \<times> ('d, 'm) vfs_machine_scheme) c_result" where
  "vfs_mkdir hw p m = create hw p VFS_DIRECTORY m"

definition vfs_touch :: "'d hw \<Rightarrow> string option \<Rightarrow> ('d, 'm) vfs_machine_scheme
    \<Rightarrow> (int \<times> ('d, 'm) vfs_machine_scheme) c_result" where
  "vfs_touch hw p m = do {
     n \<leftarrow> find_path (records m) p;
     (if 0 \<le> n then Some (0, m) else create hw p VFS_FILE m)
   }"

definition mark_unused :: "nat \<Rightarrow> ('d, 'm) vfs_machine_scheme \<Rightarrow> ('d, 'm) vfs_machine_scheme" where
  "mark_unused n m = m\<lparr>records := (records m)[n := (records m ! n)\<lparr>v_used := 0\<rparr>]\<rparr>"

definition vfs_rmdir :: "'d hw \<Rightarrow> string option \<Rightarrow> ('d, 'm) vfs_machine_scheme
    \<Rightarrow> (int \<times> ('d, 'm) vfs_machine_scheme) c_result" where
  "vfs_rmdir hw p m = do {
     n \<leftarrow> find_path (records m) p;
     Some (if n \<le> 0 \<or> v_type (records m ! nat n) \<noteq> VFS_DIRECTORY then (-1, m)
           else if list_ex (\<lambda>i. v_used (records m ! i) \<noteq> 0 \<and> sint (v_parent (records m ! i)) = n) [1..<VFS_FILE_MAX]
           then (-1, m)
           else persist hw (mark_unused (nat n) m))
   }"

definition vfs_remove :: "'d hw \<Rightarrow> string option \<Rightarrow> ('d, 'm) vfs_machine_scheme
    \<Rightarrow> (int \<times> ('d, 'm) vfs_machine_scheme) c_result" where
  "vfs_remove hw p m = do {
     n \<leftarrow> find_path (records m) p;
     Some (if n \<le> 0 \<or> v_type (records m ! nat n) \<noteq> VFS_FILE then (-1, m)
           else persist hw (mark_unused (nat n) m))
   }"

text \<open>The loop that loads the buffer of file \<open>n\<close> from disk, from sector \<open>i\<close> on.\<close>

definition overwrite :: "nat \<Rightarrow> 'a list \<Rightarrow> 'a list \<Rightarrow> 'a list" where
  "overwrite pos xs c = take pos c @ xs @ drop (pos + length xs) c"

fun load_file :: "'d hw \<Rightarrow> u32 \<Rightarrow> nat \<Rightarrow> nat \<Rightarrow> nat \<Rightarrow> ('d, 'm) vfs_machine_scheme
    \<Rightarrow> int \<times> ('d, 'm) vfs_machine_scheme" where
  "load_file hw lba n i 0 m = (0, m)"
| "load_file hw lba n i (Suc k) m =
     (case run_state (ata_read28 hw (lba + of_nat i) (Some (replicate 512 0))) m of
        ((rc, sector), m1) \<Rightarrow>
          if rc \<noteq> 0 then
            (-1, snd (run_state (log_fmt (''[MinOS VFS] read failed lba=%u'' @ [CHR 0x0A])
                   [Num (ucast (lba + of_nat i))]) m1))
          else load_file hw lba n (i + 1) k
                 (m1\<lparr>contents := (contents m1)[n := overwrite (i * 512) (the sector) (contents m1 ! n)]\<rparr>))"

text \<open>
  The buffer has \<open>cap\<close> characters at least.  The results are status, buffer and size; pointers
  that are null are \<^term>\<open>None\<close>.
\<close>

definition vfs_read :: "'d hw \<Rightarrow> string option \<Rightarrow> char list option \<Rightarrow> u32 \<Rightarrow> u32 option \<Rightarrow> ('d, 'm) vfs_machine_scheme
    \<Rightarrow> ((int \<times> char list option \<times> u32 option) \<times> ('d, 'm) vfs_machine_scheme) c_result" where
  "vfs_read hw p b cap sz m = do {
     n \<leftarrow> find_path (records m) p;
     (if n < 0 \<or> v_type (records m ! nat n) \<noteq> VFS_FILE \<or> b = None \<or> sz = None then Some ((-1, b, sz), m)
      else
        let k = nat n;
            (rc, m1) = (if disk_backed m then load_file hw (v_data_lba (records m ! k)) k 0 8 m else (0, m))
        in if rc \<noteq> 0 then Some ((-1, b, sz), m1)
           else
             let want = (if v_size (records m1 ! k) < cap then v_size (records m1 ! k) else cap)
             in if length (contents m1 ! k) < unat want \<or> length (the b) < unat want then None
                else Some ((0, Some (overwrite 0 (map char_of_byte (take (unat want) (contents m1 ! k))) (the b)), Some want), m1))
   }"

text \<open>The loop that writes the buffer of file \<open>n\<close> to disk, from sector \<open>i\<close> on.\<close>

fun store_file :: "'d hw \<Rightarrow> u32 \<Rightarrow> u8 list \<Rightarrow> nat \<Rightarrow> nat \<Rightarrow> ('d, 'm) ata_machine_scheme
    \<Rightarrow> int \<times> ('d, 'm) ata_machine_scheme" where
  "store_file hw lba c i 0 m = (0, m)"
| "store_file hw lba c i (Suc k) m =
     (case run_state (ata_write28 hw (lba + of_nat i) (Some (take 512 (drop (i * 512) c)))) m of
        (rc, m') \<Rightarrow> if rc \<noteq> 0 then (-1, m') else store_file hw lba c (i + 1) k m')"

definition vfs_write :: "'d hw \<Rightarrow> string option \<Rightarrow> char list option \<Rightarrow> u32 \<Rightarrow> bool \<Rightarrow> ('d, 'm) vfs_machine_scheme
    \<Rightarrow> (int \<times> ('d, 'm) vfs_machine_scheme) c_result" where
  "vfs_write hw p d sz app m = do {
     n \<leftarrow> find_path (records m) p;
     (if n < 0 \<or> v_type (records m ! nat n) \<noteq> VFS_FILE \<or> d = None then Some (-1, m)
      else
        let k = nat n; pos = (if app then v_size (records m ! k) else 0)
        in if VFS_CONTENT_MAX < pos then Some (-1, m)
           else
             let s = (if VFS_CONTENT_MAX - pos < sz then VFS_CONTENT_MAX - pos else sz)
             in if length (the d) < unat s then None
                else
                  let m1 = m\<lparr>contents := (contents m)[k :=
                             overwrite (unat pos) (map byte_of_char (take (unat s) (the d))) (contents m ! k)],
                             records := (records m)[k := (records m ! k)\<lparr>v_size := pos + s\<rparr>]\<rparr>;
                      (rc, m2) = (if disk_backed m1
                                  then store_file hw (v_data_lba (records m1 ! k)) (contents m1 ! k) 0 8 m1
                                  else (0, m1))
                  in if rc \<noteq> 0 then Some (-1, m2) else Some (persist hw m2))
   }"

definition vfs_copy :: "'d hw \<Rightarrow> string option \<Rightarrow> string option \<Rightarrow> ('d, 'm) vfs_machine_scheme
    \<Rightarrow> (int \<times> ('d, 'm) vfs_machine_scheme) c_result" where
  "vfs_copy hw s d m = do {
     ((rc, b, n), m1) \<leftarrow> vfs_read hw s (Some (replicate 4096 (CHR 0x00))) VFS_CONTENT_MAX (Some 0) m;
     (if rc \<noteq> 0 then Some (-1, m1)
      else do {
        (rc, m2) \<leftarrow> vfs_touch hw d m1;
        (if rc \<noteq> 0 then Some (-1, m2)
         else do {
           (rc, m3) \<leftarrow> vfs_write hw d b (the n) False m2;
           Some (if rc \<noteq> 0 then (-1, m3) else (0, m3))
         })
      })
   }"

definition vfs_move :: "'d hw \<Rightarrow> string option \<Rightarrow> string option \<Rightarrow> ('d, 'm) vfs_machine_scheme
    \<Rightarrow> (int \<times> ('d, 'm) vfs_machine_scheme) c_result" where
  "vfs_move hw s d m = do {
     (rc, m1) \<leftarrow> vfs_copy hw s d m;
     (if rc \<noteq> 0 then Some (-1, m1) else vfs_remove hw s m1)
   }"

text \<open>
  The loop of \<^verbatim>\<open>vfs_list\<close> over the records: it fills the caller's array and counts; an entry
  past the end of the array is undefined.
\<close>

fun list_loop :: "vfs_record list \<Rightarrow> int \<Rightarrow> nat \<Rightarrow> nat list \<Rightarrow> nat \<Rightarrow> vfs_dirent list
    \<Rightarrow> (nat \<times> vfs_dirent list) c_result" where
  "list_loop recs n mx [] out e = Some (out, e)"
| "list_loop recs n mx (i # is) out e =
     (if \<not> out < mx then Some (out, e)
      else if v_used (recs ! i) \<noteq> 0 \<and> sint (v_parent (recs ! i)) = n then
        if length e \<le> out then None else do {
        name \<leftarrow> cstr (v_name (recs ! i));
        list_loop recs n mx is (out + 1)
          (e[out := \<lparr>de_name = copy (de_name (e ! out)) (Some name) 32, de_type = v_type (recs ! i),
                     de_size = v_size (recs ! i)\<rparr>])
      }
      else list_loop recs n mx is out e)"

definition vfs_list :: "vfs_record list \<Rightarrow> string option \<Rightarrow> vfs_dirent list option \<Rightarrow> u32 \<Rightarrow> u32 option
    \<Rightarrow> (int \<times> vfs_dirent list option \<times> u32 option) c_result" where
  "vfs_list recs p e mx count = do {
     n \<leftarrow> find_path recs p;
     (if n < 0 \<or> v_type (recs ! nat n) \<noteq> VFS_DIRECTORY \<or> e = None \<or> count = None then Some (-1, e, count)
      else do {
        (out, e') \<leftarrow> list_loop recs n (unat mx) [1..<VFS_FILE_MAX] 0 (the e);
        Some (0, Some e', Some (of_nat out))
      })
   }"

end
