(* ===== verification/Minos_VfsPath.thy ===== *)
theory Minos_VfsPath
  imports Minos_Vfs
begin

text \<open>
  Paths of the file system: the scanner of \<^verbatim>\<open>vfs_normalize\<close> computes what splitting the path
  at its slashes and resolving the pieces one by one gives, its output is canonical and
  no longer than its input, and canonical paths correspond one to one to lists of names.
\<close>

section \<open>Names and rendered paths\<close>

definition proper_name :: "string \<Rightarrow> bool" where
  "proper_name s \<longleftrightarrow> s \<noteq> [] \<and> CHR ''/'' \<notin> set s \<and> CHR 0x00 \<notin> set s \<and> s \<noteq> ''.'' \<and> s \<noteq> ''..''
     \<and> length s \<le> VFS_NAME_MAX"

definition proper_path :: "string list \<Rightarrow> bool" where
  "proper_path ps \<longleftrightarrow> list_all proper_name ps \<and> length ps \<le> 16"

lemma proper_path_simps [simp]:
  "proper_path []" "proper_path (ps @ [p]) \<longleftrightarrow> proper_path ps \<and> proper_name p \<and> length ps < 16"
  by (auto simp: proper_path_def)

lemma proper_path_butlast: "proper_path ps \<Longrightarrow> proper_path (butlast ps)"
  by (auto simp: proper_path_def list_all_iff dest: in_set_butlastD)

definition weight :: "string list \<Rightarrow> nat" where
  "weight ps = (\<Sum>p\<leftarrow>ps. length p + 1)"

lemma weight_simps [simp]: "weight [] = 0" "weight (p # ps) = length p + 1 + weight ps"
  "weight (ps @ qs) = weight ps + weight qs"
  by (simp_all add: weight_def)

lemma weight_butlast: "weight (butlast ps) \<le> weight ps"
  by (cases ps rule: rev_cases) auto

definition slashed :: "string list \<Rightarrow> string" where
  "slashed ps = concat (map (\<lambda>p. CHR ''/'' # p) ps)"

lemma foldl_append_part:
  "1 < length out \<Longrightarrow> foldl append_part out ps = out @ slashed ps"
proof (induction ps arbitrary: out)
  case Nil
  then show ?case by (simp add: slashed_def)
next
  case (Cons p ps)
  then have "append_part out p = out @ CHR ''/'' # p" "1 < length (out @ CHR ''/'' # p)"
    by (auto simp: append_part_def)
  then show ?case
    using Cons.IH [of "out @ CHR ''/'' # p"] by (simp add: slashed_def)
qed

lemma render_slashed:
  assumes "[] \<notin> set ps"
  shows "render ps = (if ps = [] then ''/'' else slashed ps)"
  using assms foldl_append_part [of "CHR ''/'' # hd ps" "tl ps"]
  by (cases ps) (auto simp: render_def append_part_def slashed_def)

lemma proper_nonempty: "list_all proper_name ps \<Longrightarrow> [] \<notin> set ps"
  by (auto simp: list_all_iff proper_name_def)

lemma length_slashed [simp]: "length (slashed ps) = weight ps"
  by (induction ps) (auto simp: slashed_def)

lemma length_render: "[] \<notin> set ps \<Longrightarrow> length (render ps) = (if ps = [] then 1 else weight ps)"
  by (simp add: render_slashed)

text \<open>The names between the slashes.\<close>

fun joined :: "string list \<Rightarrow> string" where
  "joined [] = []"
| "joined [p] = p"
| "joined (p # q # qs) = p @ CHR ''/'' # joined (q # qs)"

lemma tl_slashed: "tl (slashed ps) = joined ps"
  by (induction ps rule: joined.induct) (auto simp: slashed_def)

lemma tl_render: "[] \<notin> set ps \<Longrightarrow> tl (render ps) = joined ps"
  by (simp add: render_slashed tl_slashed)

section \<open>The scanner\<close>

lemma takeWhile_name: "CHR ''/'' \<notin> set p \<Longrightarrow> takeWhile (\<lambda>c. c \<noteq> CHR ''/'') p = p"
  by (simp add: takeWhile_eq_all_conv) blast

lemma scan_name:
  assumes "CHR ''/'' \<notin> set p"
  shows "takeWhile (\<lambda>c. c \<noteq> CHR ''/'') (p @ CHR ''/'' # r) = p"
    "dropWhile (\<lambda>c. c \<noteq> CHR ''/'') (p @ CHR ''/'' # r) = CHR ''/'' # r"
    "dropWhile (\<lambda>c. c \<noteq> CHR ''/'') p = []"
  using assms by (auto simp: takeWhile_append dropWhile_append dropWhile_eq_Nil_conv)

lemma joined_hd:
  "list_all proper_name (q # qs) \<Longrightarrow> joined (q # qs) \<noteq> [] \<and> hd (joined (q # qs)) \<noteq> CHR ''/''"
  by (cases qs; cases q) (auto simp: proper_name_def)

lemma skip_slashes: "s = [] \<or> hd s \<noteq> CHR ''/'' \<Longrightarrow> dropWhile (\<lambda>c. c = CHR ''/'') s = s"
  by (cases s) auto

text \<open>Scanning a canonical path gives back its names.\<close>

lemma normalize_joined:
  "list_all proper_name ps \<Longrightarrow> length parts + length ps \<le> 16 \<Longrightarrow>
     normalize_loop (joined ps) parts = Some (parts @ ps)"
proof (induction ps arbitrary: parts rule: joined.induct)
  case 1
  then show ?case by (simp add: normalize_loop.simps)
next
  case (2 p)
  then show ?case
    by (subst normalize_loop.simps)
      (auto simp: proper_name_def takeWhile_name scan_name normalize_loop.simps [of "[]"] Let_def)
next
  case (3 p q qs)
  have rest: "dropWhile (\<lambda>c. c = CHR ''/'') (joined (q # qs)) = joined (q # qs)"
    using joined_hd [of q qs] "3.prems"(1) by (simp add: skip_slashes)
  have ih: "normalize_loop (joined (q # qs)) (parts @ [p]) = Some (parts @ p # q # qs)"
    using "3.IH" [of "parts @ [p]"] "3.prems" by simp
  have p: "p \<noteq> []" "CHR ''/'' \<notin> set p" "p \<noteq> ''.''" "p \<noteq> ''..''" "length p \<le> VFS_NAME_MAX"
    using "3.prems"(1) by (simp_all add: proper_name_def)
  have "normalize_loop (p @ CHR ''/'' # joined (q # qs)) parts = normalize_loop (joined (q # qs)) (parts @ [p])"
    using p "3.prems"(2) by (subst normalize_loop.simps) (simp add: scan_name rest Let_def)
  then show ?case using ih by simp
qed

text \<open>What the scanner keeps is proper, and not longer than what it read.\<close>

lemma normalize_loop_proper:
  "normalize_loop path parts = Some ps \<Longrightarrow> proper_path parts \<Longrightarrow> CHR 0x00 \<notin> set path \<Longrightarrow> proper_path ps"
proof (induction path parts rule: normalize_loop.induct)
  case (1 path parts)
  let ?comp = "takeWhile (\<lambda>c. c \<noteq> CHR ''/'') path"
  let ?rest = "dropWhile (\<lambda>c. c = CHR ''/'') (dropWhile (\<lambda>c. c \<noteq> CHR ''/'') path)"
  have comp: "CHR ''/'' \<notin> set ?comp" "CHR 0x00 \<notin> set ?comp"
    using "1.prems"(3) by (auto dest: set_takeWhileD)
  have rest: "CHR 0x00 \<notin> set ?rest"
    using "1.prems"(3) by (meson set_dropWhileD)
  consider "path = []" | "path \<noteq> []" "?comp = [] \<or> ?comp = ''.''"
    | "path \<noteq> []" "\<not> (?comp = [] \<or> ?comp = ''.'')" "?comp = ''..''"
    | "path \<noteq> []" "\<not> (?comp = [] \<or> ?comp = ''.'')" "?comp \<noteq> ''..''"
    by blast
  then show ?case
  proof cases
    case 1
    then show ?thesis using "1.prems" by (simp add: normalize_loop.simps)
  next
    case 2
    then show ?thesis
      using "1.IH"(1) [OF 2(1) refl refl 2(2)] "1.prems" rest
      by (simp add: normalize_loop.simps [of path] Let_def)
  next
    case 3
    then show ?thesis
      using "1.IH"(2) [OF 3(1) refl refl 3(2,3)] "1.prems" rest proper_path_butlast [of parts]
      by (simp add: normalize_loop.simps [of path] Let_def)
  next
    case 4
    then have ok: "length ?comp \<le> VFS_NAME_MAX \<and> length parts < 16"
        and r: "normalize_loop ?rest (parts @ [?comp]) = Some ps"
      using "1.prems"(1) by (auto simp: normalize_loop.simps [of path] Let_def split: if_splits)
    have "proper_path (parts @ [?comp])"
      using "1.prems"(2) ok 4 comp by (simp add: proper_name_def)
    then show ?thesis
      using "1.IH"(3) [OF 4(1) refl refl 4(2,3) ok r] rest by simp
  qed
qed

lemma comp_rest_length:
  fixes path :: string
  defines "piece \<equiv> takeWhile (\<lambda>c. c \<noteq> CHR ''/'') path"
    and "rest \<equiv> dropWhile (\<lambda>c. c = CHR ''/'') (dropWhile (\<lambda>c. c \<noteq> CHR ''/'') path)"
  shows "length piece + (if rest = [] then 0 else length rest + 1) \<le> length path"
proof -
  let ?tail = "dropWhile (\<lambda>c. c \<noteq> CHR ''/'') path"
  have sum: "length piece + length ?tail = length path"
    unfolding piece_def by (metis length_append takeWhile_dropWhile_id)
  have "rest = [] \<or> length rest < length ?tail"
  proof (cases ?tail)
    case (Cons c cs)
    then have "c = CHR ''/''" using hd_dropWhile [of "\<lambda>c. c \<noteq> CHR ''/''" path] by force
    then show ?thesis
      using Cons length_dropWhile_le [of "\<lambda>c. c = CHR ''/''" cs] by (simp add: rest_def)
  next
    case Nil
    then have "rest = []" unfolding rest_def by (simp only: dropWhile.simps)
    then show ?thesis by simp
  qed
  then show ?thesis using sum by auto
qed

lemma normalize_loop_weight:
  "normalize_loop path parts = Some ps \<Longrightarrow>
     weight ps \<le> weight parts + (if path = [] then 0 else length path + 1)"
proof (induction path parts rule: normalize_loop.induct)
  case (1 path parts)
  show ?case
  proof (cases "path = []")
    case True
    then show ?thesis using "1.prems" by (simp add: normalize_loop.simps)
  next
    case False
    define c where "c = takeWhile (\<lambda>c. c \<noteq> CHR ''/'') path"
    define r where "r = dropWhile (\<lambda>c. c = CHR ''/'') (dropWhile (\<lambda>c. c \<noteq> CHR ''/'') path)"
    have len: "length c + (if r = [] then 0 else length r + 1) \<le> length path"
      unfolding c_def r_def by (rule comp_rest_length)
    note unfold = normalize_loop.simps [of path parts, folded c_def r_def, unfolded Let_def]
    consider "c = [] \<or> c = ''.''" | "\<not> (c = [] \<or> c = ''.'')" "c = ''..''"
      | "\<not> (c = [] \<or> c = ''.'')" "c \<noteq> ''..''" by blast
    then show ?thesis
    proof cases
      case 1
      then have "weight ps \<le> weight parts + (if r = [] then 0 else length r + 1)"
        using "1.IH"(1) [OF False c_def r_def 1] "1.prems" unfold False by simp
      then show ?thesis using len False by simp
    next
      case 2
      then have "weight ps \<le> weight (butlast parts) + (if r = [] then 0 else length r + 1)"
        using "1.IH"(2) [OF False c_def r_def 2] "1.prems" unfold False by (cases "parts = []") simp_all
      then show ?thesis using len False weight_butlast [of parts] by simp
    next
      case 3
      then have ok: "length c \<le> VFS_NAME_MAX \<and> length parts < 16"
          and n: "normalize_loop r (parts @ [c]) = Some ps"
        using "1.prems" unfold False by (auto split: if_splits)
      have "weight ps \<le> weight (parts @ [c]) + (if r = [] then 0 else length r + 1)"
        by (rule "1.IH"(3) [OF False c_def r_def 3 ok n])
      then show ?thesis using len False by simp
    qed
  qed
qed

section \<open>Normalised paths\<close>

lemma absolute_render: "[] \<notin> set ps \<Longrightarrow> is_absolute (render ps) \<and> render ps \<noteq> []"
  by (cases ps) (auto simp: render_slashed is_absolute_def slashed_def)

lemma normalize_abs_render:
  assumes "proper_path ps" and "length (render ps) \<le> VFS_PATH_MAX"
  shows "normalize_abs (render ps) = Some (0, render ps)"
proof -
  have "[] \<notin> set ps" using assms(1) by (simp add: proper_path_def proper_nonempty)
  then have "normalize_loop (tl (render ps)) [] = Some ps"
    using normalize_joined [of ps "[]"] assms(1) by (simp add: proper_path_def tl_render)
  then show ?thesis using assms(2) by (simp add: normalize_abs_def)
qed

lemma normalize_abs_cases:
  assumes "path \<noteq> []" and "CHR 0x00 \<notin> set path"
  shows "normalize_abs path = Some (-1, [])
    \<or> (\<exists>ps. proper_path ps \<and> normalize_loop (tl path) [] = Some ps \<and> length (render ps) \<le> length path
        \<and> normalize_abs path = (if length (render ps) \<le> VFS_PATH_MAX then Some (0, render ps) else None))"
proof (cases "normalize_loop (tl path) []")
  case None
  then show ?thesis by (simp add: normalize_abs_def)
next
  case (Some ps)
  have "CHR 0x00 \<notin> set (tl path)" using assms(2) by (cases path) auto
  then have ps: "proper_path ps" using normalize_loop_proper [OF Some] by simp
  then have "[] \<notin> set ps" by (simp add: proper_path_def proper_nonempty)
  then have "length (render ps) \<le> length path"
    using normalize_loop_weight [OF Some] assms(1) by (cases path) (auto simp: length_render split: if_splits)
  then show ?thesis using Some ps by (auto simp: normalize_abs_def)
qed

text \<open>
  An answer of the normaliser: an error, or the canonical form of a list of names.
\<close>

definition canonical :: "int \<times> string \<Rightarrow> string list \<Rightarrow> bool" where
  "canonical r ps \<longleftrightarrow> proper_path ps \<and> length (render ps) \<le> VFS_PATH_MAX \<and> r = (0, render ps)"

definition normal_answer :: "(int \<times> string) c_result \<Rightarrow> bool" where
  "normal_answer a \<longleftrightarrow> (\<exists>r. a = Some r \<and> (fst r = -1 \<or> (\<exists>ps. canonical r ps)))"

lemma normalize_abs_answer:
  assumes "path \<noteq> []" and "CHR 0x00 \<notin> set path" and "length path \<le> VFS_PATH_MAX"
  shows "normal_answer (normalize_abs path)"
proof -
  have "normalize_abs path = Some (-1, []) \<or> (\<exists>ps. canonical (0, render ps) ps \<and> normalize_abs path = Some (0, render ps))"
    using normalize_abs_cases [OF assms(1,2)] assms(3) by (force simp: canonical_def)
  then show ?thesis by (auto simp: normal_answer_def)
qed

lemma normalize_join_answer:
  assumes "work \<noteq> []" and "CHR 0x00 \<notin> set work" and "CHR 0x00 \<notin> set path"
  shows "normal_answer (normalize_join work path)"
proof (cases "length work + 1 + length path > VFS_PATH_MAX")
  case True
  then show ?thesis by (simp add: normalize_join_def normal_answer_def)
next
  case False
  let ?j = "(if length work > 1 then work @ ''/'' else work) @ path"
  have "?j \<noteq> []" "CHR 0x00 \<notin> set ?j" "length ?j \<le> VFS_PATH_MAX"
    using assms False by auto
  from normalize_abs_answer [OF this] obtain r where r: "normalize_abs ?j = Some r"
      "fst r = -1 \<or> (\<exists>ps. canonical r ps)"
    by (auto simp: normal_answer_def)
  then show ?thesis
    using False by (cases r) (auto simp: normalize_join_def normal_answer_def canonical_def Let_def)
qed

lemma normalize_root_answer:
  assumes "CHR 0x00 \<notin> set path" and "length path \<le> VFS_PATH_MAX"
  shows "normal_answer (normalize_root path)"
  using normalize_abs_answer [OF _ assms] normalize_join_answer [of "''/''" path] assms(1)
  by (auto simp: normalize_root_def normal_answer_def)

lemma canonical_nul_free: "canonical r ps \<Longrightarrow> CHR 0x00 \<notin> set (snd r) \<and> snd r \<noteq> []"
proof -
  assume c: "canonical r ps"
  then have "[] \<notin> set ps" by (simp add: canonical_def proper_path_def proper_nonempty)
  then show ?thesis
    using c by (auto simp: canonical_def proper_path_def render_slashed slashed_def list_all_iff proper_name_def)
qed

lemma vfs_normalize_answer:
  assumes "CHR 0x00 \<notin> set path" and "length path \<le> VFS_PATH_MAX"
    and "CHR 0x00 \<notin> set w" and "length w \<le> VFS_PATH_MAX"
  shows "normal_answer (vfs_normalize (Some w) (Some path))"
proof -
  obtain r where r: "normalize_root w = Some r" "fst r = -1 \<or> (\<exists>ps. canonical r ps)"
    using normalize_root_answer [OF assms(3,4)] by (auto simp: normal_answer_def)
  have "normal_answer (normalize_join (snd r) path)" if "canonical r ps" for ps
    using canonical_nul_free [OF that] normalize_join_answer assms(1) by blast
  then show ?thesis
    using r normalize_abs_answer [OF _ assms(1,2)]
    by (cases r) (auto simp: vfs_normalize_def normal_answer_def canonical_def)
qed

lemma vfs_normalize_render:
  assumes "proper_path ps" and "length (render ps) \<le> VFS_PATH_MAX"
  shows "vfs_normalize w (Some (render ps)) = Some (0, render ps)"
proof -
  have "[] \<notin> set ps" using assms(1) by (simp add: proper_path_def proper_nonempty)
  then show ?thesis
    using absolute_render [of ps] normalize_abs_render [OF assms] by (simp add: vfs_normalize_def)
qed

text \<open>A canonical path determines its names.\<close>

lemma render_inject:
  assumes "proper_path ps" and "proper_path qs" and "render ps = render qs"
  shows "ps = qs"
proof -
  have "normalize_loop (tl (render xs)) [] = Some xs" if "proper_path xs" for xs
    using normalize_joined [of xs "[]"] that by (simp add: proper_path_def tl_render proper_nonempty)
  then show ?thesis using assms by (metis option.inject)
qed

section \<open>The specification\<close>

fun split_slash :: "string \<Rightarrow> string list" where
  "split_slash [] = [[]]"
| "split_slash (c # cs) =
     (if c = CHR ''/'' then [] # split_slash cs
      else (c # hd (split_slash cs)) # tl (split_slash cs))"

text \<open>One piece after the other: empty pieces and dots are dropped, a double dot takes the last name away.\<close>

fun resolve :: "string list \<Rightarrow> string list \<Rightarrow> string list option" where
  "resolve parts [] = Some parts"
| "resolve parts (c # cs) =
     (if c = [] \<or> c = ''.'' then resolve parts cs
      else if c = ''..'' then resolve (butlast parts) cs
      else if length c \<le> VFS_NAME_MAX \<and> length parts < 16 then resolve (parts @ [c]) cs
      else None)"

lemma split_slash_nonempty [simp]: "split_slash s \<noteq> []"
  by (induction s) auto

lemma split_slash_first:
  "split_slash s = takeWhile (\<lambda>c. c \<noteq> CHR ''/'') s
     # (case dropWhile (\<lambda>c. c \<noteq> CHR ''/'') s of [] \<Rightarrow> [] | _ # r \<Rightarrow> split_slash r)"
  by (induction s) auto

lemma resolve_skip: "resolve parts (split_slash (dropWhile (\<lambda>c. c = CHR ''/'') s)) = resolve parts (split_slash s)"
  by (induction s) auto

lemma resolve_Nil [simp]: "resolve parts [[]] = Some parts"
  by simp

lemma normalize_loop_resolve: "normalize_loop path parts = resolve parts (split_slash path)"
proof (induction path parts rule: normalize_loop.induct)
  case (1 path parts)
  define c where "c = takeWhile (\<lambda>c. c \<noteq> CHR ''/'') path"
  define t where "t = dropWhile (\<lambda>c. c \<noteq> CHR ''/'') path"
  define r where "r = dropWhile (\<lambda>c. c = CHR ''/'') t"
  have r': "r = dropWhile (\<lambda>c. c = CHR ''/'') (dropWhile (\<lambda>c. c \<noteq> CHR ''/'') path)"
    by (simp add: r_def t_def)
  note unfold = normalize_loop.simps [of path parts, folded c_def t_def, folded r_def, unfolded Let_def]
  have tail: "resolve ps (case t of [] \<Rightarrow> [] | _ # u \<Rightarrow> split_slash u) = resolve ps (split_slash r)" for ps
  proof (cases t)
    case (Cons a u)
    then have "a = CHR ''/''"
      unfolding t_def using hd_dropWhile [of "\<lambda>c. c \<noteq> CHR ''/''" path] by force
    then show ?thesis using Cons by (simp add: r_def resolve_skip)
  qed (simp add: r_def)
  note ih = "1.IH" [OF _ c_def r']
  show ?case
  proof (cases "path = []")
    case True
    then show ?thesis by (simp add: normalize_loop.simps)
  next
    case False
    then show ?thesis
      using ih by (auto simp: unfold split_slash_first [of path, folded c_def t_def] tail)
  qed
qed

section \<open>Properties\<close>

text \<open>
  C15: the scanner of \<^verbatim>\<open>vfs_normalize\<close> agrees with the specification on every absolute path: it
  answers -1 exactly when resolving the pieces between the slashes one by one fails (a
  name over 31 characters or a seventeenth level), and otherwise the rendered result,
  as long as that fits the buffer.
\<close>

theorem vfs_normalize_resolves:
  "vfs_normalize w (Some (CHR ''/'' # path)) =
     (case resolve [] (split_slash path) of
        None \<Rightarrow> Some (-1, [])
      | Some ps \<Rightarrow> if length (render ps) \<le> VFS_PATH_MAX then Some (0, render ps) else None)"
  by (simp add: vfs_normalize_def is_absolute_def normalize_abs_def normalize_loop_resolve)



text \<open>
  The output of an absolute path is not checked against the buffer.  A path of nine
  names of 15 characters is in order for the scanner, but its 144 characters overrun
  the 128 bytes every caller provides.
\<close>

lemma vfs_normalize_overruns_buffer:
  "vfs_normalize w (Some (concat (replicate 9 (CHR ''/'' # replicate 15 (CHR ''a''))))) = None"
proof -
  let ?ps = "replicate 9 (replicate 15 (CHR ''a''))"
  have p: "proper_path ?ps"
    by (simp add: proper_path_def proper_name_def list_all_iff VFS_NAME_MAX_def)
       (simp add: numeral_eq_Suc)
  then have ne: "[] \<notin> set ?ps" by (simp add: proper_path_def proper_nonempty)
  have s: "concat (replicate 9 (CHR ''/'' # replicate 15 (CHR ''a''))) = render ?ps"
    using ne by (simp add: render_slashed slashed_def)
  have "normalize_loop (tl (render ?ps)) [] = Some ?ps"
    using normalize_joined [of ?ps "[]"] p ne by (simp add: proper_path_def tl_render)
  moreover have "weight ?ps = 144"
    by (simp add: weight_def sum_list_replicate)
  then have "\<not> length (render ?ps) \<le> VFS_PATH_MAX"
    using length_render [OF ne] by (simp add: VFS_PATH_MAX_def)
  ultimately show ?thesis
    unfolding s using absolute_render [OF ne] by (simp add: vfs_normalize_def normalize_abs_def)
qed

end
