(* ===== verification/Minos_VfsTree.thy ===== *)
theory Minos_VfsTree
  imports Minos_VfsPath
begin

text \<open>
  The record table of the file system as a tree of paths.  A table represents a map
  from paths (lists of names) to types and sizes when every live record has a path that
  extends its parent's by its name.  Lookup finds the record of a path, and the
  operations that create and delete refine the same operations on the map.
\<close>

section \<open>Representation\<close>

definition rname :: "vfs_record \<Rightarrow> string" where
  "rname r = takeWhile (\<lambda>c. c \<noteq> CHR 0x00) (v_name r)"

definition live :: "vfs_record list \<Rightarrow> nat \<Rightarrow> bool" where
  "live recs i \<longleftrightarrow> i < VFS_FILE_MAX \<and> v_used (recs ! i) \<noteq> 0"

text \<open>A record below the root: its parent is a live directory, its path one name longer.\<close>

definition placed :: "vfs_record list \<Rightarrow> (nat \<Rightarrow> string list) \<Rightarrow> nat \<Rightarrow> bool" where
  "placed recs P i \<longleftrightarrow>
     (\<exists>p. live recs p \<and> v_type (recs ! p) = VFS_DIRECTORY \<and> v_parent (recs ! i) = of_nat p
        \<and> P i = P p @ [rname (recs ! i)])
     \<and> CHR 0x00 \<in> set (v_name (recs ! i)) \<and> proper_path (P i) \<and> length (render (P i)) \<le> VFS_PATH_MAX
     \<and> v_type (recs ! i) \<in> {VFS_DIRECTORY, VFS_FILE}"

definition tree_ok :: "vfs_record list \<Rightarrow> (nat \<Rightarrow> string list) \<Rightarrow> bool" where
  "tree_ok recs P \<longleftrightarrow> length recs = VFS_FILE_MAX
     \<and> live recs 0 \<and> v_type (recs ! 0) = VFS_DIRECTORY \<and> v_parent (recs ! 0) = -1 \<and> P 0 = []
     \<and> (\<forall>i. live recs i \<and> 0 < i \<longrightarrow> placed recs P i)
     \<and> (\<forall>i j. live recs i \<and> live recs j \<and> P i = P j \<longrightarrow> i = j)"

lemma tree_ok_D:
  assumes "tree_ok recs P"
  shows "length recs = 64" "live recs 0" "v_type (recs ! 0) = VFS_DIRECTORY" "v_parent (recs ! 0) = -1" "P 0 = []"
    "\<And>i. live recs i \<Longrightarrow> 0 < i \<Longrightarrow> placed recs P i"
    "\<And>i j. live recs i \<Longrightarrow> live recs j \<Longrightarrow> P i = P j \<Longrightarrow> i = j"
  using assms unfolding tree_ok_def VFS_FILE_MAX_def by blast+

lemma live_less: "live recs i \<Longrightarrow> i < 64"
  by (simp add: live_def VFS_FILE_MAX_def)

lemma placed_E:
  assumes "placed recs P i"
  obtains p where "live recs p" "v_type (recs ! p) = VFS_DIRECTORY" "v_parent (recs ! i) = of_nat p"
    "P i = P p @ [rname (recs ! i)]" "CHR 0x00 \<in> set (v_name (recs ! i))" "proper_path (P i)"
    "length (render (P i)) \<le> VFS_PATH_MAX" "v_type (recs ! i) \<in> {VFS_DIRECTORY, VFS_FILE}"
  using assms unfolding placed_def by blast

lemma live_proper:
  assumes "tree_ok recs P" and "live recs i"
  shows "proper_path (P i)" "length (render (P i)) \<le> VFS_PATH_MAX"
proof -
  have "proper_path (P i) \<and> length (render (P i)) \<le> VFS_PATH_MAX"
  proof (cases "i = 0")
    case True
    then show ?thesis using tree_ok_D(5) [OF assms(1)] by (simp add: render_def VFS_PATH_MAX_def)
  next
    case False
    then show ?thesis using tree_ok_D(6) [OF assms] by (auto elim: placed_E)
  qed
  then show "proper_path (P i)" "length (render (P i)) \<le> VFS_PATH_MAX" by simp_all
qed

text \<open>A parent index of the table is a small number in each of its types.\<close>

lemma small_parent:
  assumes "p < 64"
  shows "scast (of_nat p :: u16) = (of_nat p :: u32)" "sint (of_nat p :: u16) = int p"
    "unat (of_nat p :: u32) = p" "(of_nat p :: u16) = 0 \<longleftrightarrow> p = 0" "(of_nat p :: u32) = 0 \<longleftrightarrow> p = 0"
proof -
  have small: "signed_take_bit 15 (int p) = int p"
    using assms by (subst signed_take_bit_int_eq_self) auto
  show s: "sint (of_nat p :: u16) = int p"
    using small by (simp add: signed_of_nat)
  show "scast (of_nat p :: u16) = (of_nat p :: u32)"
    using small by (simp add: signed_of_nat)
  have u: "unat (of_nat p :: u32) = p" "unat (of_nat p :: u16) = p"
    using assms by (simp_all add: unat_of_nat_small)
  then show "unat (of_nat p :: u32) = p" by simp
  show "(of_nat p :: u16) = 0 \<longleftrightarrow> p = 0" "(of_nat p :: u32) = 0 \<longleftrightarrow> p = 0"
    using u by (auto simp flip: unat_eq_0)
qed

section \<open>Lookup\<close>

lemma render_snoc: "render (ps @ [p]) = append_part (render ps) p"
  by (simp add: render_def)

lemma cstr_rname: "CHR 0x00 \<in> set (v_name r) \<Longrightarrow> cstr (v_name r) = Some (rname r)"
  by (simp add: cstr_def rname_def)

lemma add_names_append:
  "add_names recs (ks @ ls) path = add_names recs ks path \<bind> add_names recs ls"
  by (induction recs ks path rule: add_names.induct) (auto split: Option.bind_splits)

lemma add_name_fits:
  assumes "length (append_part path name) \<le> VFS_PATH_MAX"
  shows "add_name path name = Some (append_part path name)"
  using assms by (auto simp: add_name_def append_part_def Let_def)

lemma add_own_name:
  assumes "placed recs P i" and "P i = P p @ [rname (recs ! i)]"
  shows "add_names recs [i] (render (P p)) = Some (render (P i))"
  using assms by (auto elim!: placed_E simp: cstr_rname render_snoc add_name_fits)

lemma walk_up_path:
  assumes "tree_ok recs P"
  shows "live recs i \<Longrightarrow> length (P i) \<le> n \<Longrightarrow>
    \<exists>st. walk_up recs n (of_nat i) = Some st \<and> add_names recs (rev st) ''/'' = Some (render (P i))"
proof (induction n arbitrary: i)
  case 0
  then show ?case by (simp add: render_def)
next
  case (Suc n)
  show ?case
  proof (cases "i = 0")
    case True
    then show ?thesis using tree_ok_D(5) [OF assms] by (simp add: render_def)
  next
    case False
    then have pl: "placed recs P i" using tree_ok_D(6) [OF assms Suc.prems(1)] by simp
    then obtain p where p: "live recs p" "v_parent (recs ! i) = of_nat p" "P i = P p @ [rname (recs ! i)]"
      by (rule placed_E)
    then obtain st where st: "walk_up recs n (of_nat p) = Some st"
      "add_names recs (rev st) ''/'' = Some (render (P p))"
      using Suc.IH [OF p(1)] Suc.prems(2) by auto
    have "parent_index (recs ! i) = of_nat p"
      using p(2) small_parent [OF live_less [OF p(1)]] by (simp add: parent_index_def)
    then have "walk_up recs (Suc n) (of_nat i) = Some (i # st)"
      using False st(1) small_parent [OF live_less [OF Suc.prems(1)]] tree_ok_D(1) [OF assms]
        live_less [OF Suc.prems(1)] by simp
    then show ?thesis
      using st(2) add_own_name [OF pl p(3)] by (simp add: add_names_append)
  qed
qed

lemma candidate_path_path:
  assumes "tree_ok recs P" and "live recs i" and "0 < i"
  shows "candidate_path recs i = Some (render (P i))"
proof -
  have pl: "placed recs P i" using tree_ok_D(6) [OF assms] .
  then obtain p where p: "live recs p" "v_parent (recs ! i) = of_nat p" "P i = P p @ [rname (recs ! i)]"
    by (rule placed_E)
  note small = small_parent [OF live_less [OF p(1)]]
  have "length (P p) \<le> 16"
    using live_proper(1) [OF assms(1) p(1)] by (simp add: proper_path_def)
  then obtain st where "walk_up recs 16 (of_nat p) = Some st" "add_names recs (rev st) ''/'' = Some (render (P p))"
    using walk_up_path [OF assms(1) p(1)] by blast
  moreover have "render (P 0) = ''/''"
    using tree_ok_D(5) [OF assms(1)] by (simp add: render_def)
  ultimately show ?thesis
    using p(2) small add_own_name [OF pl p(3)]
    by (cases "p = 0") (simp_all add: candidate_path_def parent_index_def del: add_names.simps walk_up.simps)
qed

text \<open>The record of a path, if there is one.\<close>

definition slot_of :: "vfs_record list \<Rightarrow> (nat \<Rightarrow> string list) \<Rightarrow> string list \<Rightarrow> nat option" where
  "slot_of recs P ps = List.find (\<lambda>i. live recs i \<and> P i = ps) [0..<VFS_FILE_MAX]"

lemma slot_of_Some_iff:
  assumes "tree_ok recs P"
  shows "slot_of recs P ps = Some i \<longleftrightarrow> live recs i \<and> P i = ps"
proof
  assume "slot_of recs P ps = Some i"
  then show "live recs i \<and> P i = ps" by (auto simp: slot_of_def find_Some_iff)
next
  assume i: "live recs i \<and> P i = ps"
  then have "slot_of recs P ps \<noteq> None"
    using live_less by (auto simp: slot_of_def find_None_iff live_def)
  then obtain j where j: "slot_of recs P ps = Some j" by auto
  then have "live recs j \<and> P j = ps" by (auto simp: slot_of_def find_Some_iff)
  then show "slot_of recs P ps = Some i" using j i tree_ok_D(7) [OF assms] by metis
qed

lemma slot_of_None_iff: "slot_of recs P ps = None \<longleftrightarrow> (\<forall>i. live recs i \<longrightarrow> P i \<noteq> ps)"
  by (auto simp: slot_of_def find_None_iff live_def)

definition index_of :: "nat option \<Rightarrow> int" where
  "index_of s = (case s of None \<Rightarrow> -1 | Some i \<Rightarrow> int i)"

lemma index_of_simps [simp]: "index_of None = -1" "index_of (Some i) = int i"
  by (simp_all add: index_of_def)

lemma find_loop_find:
  assumes "tree_ok recs P" and "proper_path ps"
  shows "set is \<subseteq> {1..<64} \<Longrightarrow>
    find_loop recs (render ps) is = Some (index_of (List.find (\<lambda>i. live recs i \<and> P i = ps) is))"
proof (induction "is")
  case Nil
  then show ?case by simp
next
  case (Cons i "is")
  show ?case
  proof (cases "v_used (recs ! i) = 0")
    case True
    then show ?thesis using Cons by (simp add: live_def)
  next
    case False
    then have l: "live recs i" "0 < i" using Cons.prems by (auto simp: live_def VFS_FILE_MAX_def)
    have "\<not> sint (v_parent (recs ! i)) < 0"
      using tree_ok_D(6) [OF assms(1) l] small_parent(2) live_less by (auto elim!: placed_E)
    moreover have "render (P i) = render ps \<longleftrightarrow> P i = ps"
      using render_inject [OF live_proper(1) [OF assms(1) l(1)] assms(2)] by auto
    ultimately show ?thesis
      using False l Cons candidate_path_path [OF assms(1) l] by simp
  qed
qed

text \<open>
  The names of a path given to an operation.  A relative path is taken from the root;
  one of 126 characters or more does not fit behind it.
\<close>

definition path_parts :: "string \<Rightarrow> string list option" where
  "path_parts p =
     (if p = [] then None
      else if is_absolute p then resolve [] (split_slash (tl p))
      else if length p + 2 > VFS_PATH_MAX then None
      else resolve [] (split_slash p))"

definition good_path :: "string \<Rightarrow> bool" where
  "good_path p \<longleftrightarrow> CHR 0x00 \<notin> set p \<and> length p \<le> VFS_PATH_MAX"

lemma normalize_abs_parts:
  assumes "path \<noteq> []" and "good_path path"
  shows "case resolve [] (split_slash (tl path)) of
      None \<Rightarrow> normalize_abs path = Some (-1, [])
    | Some ps \<Rightarrow> proper_path ps \<and> length (render ps) \<le> VFS_PATH_MAX \<and> normalize_abs path = Some (0, render ps)"
proof (cases "normalize_loop (tl path) []")
  case None
  then show ?thesis by (simp add: normalize_abs_def normalize_loop_resolve)
next
  case (Some ps)
  then have "normalize_abs path \<noteq> Some (-1, [])" by (simp add: normalize_abs_def)
  then have "proper_path ps \<and> length (render ps) \<le> length path"
    using normalize_abs_cases [of path] assms Some by (auto simp: good_path_def)
  then show ?thesis
    using Some assms by (simp add: normalize_abs_def normalize_loop_resolve good_path_def)
qed

lemma normalize_parts:
  assumes "good_path p"
  shows "case path_parts p of
      None \<Rightarrow> \<exists>out. vfs_normalize (Some ''/'') (Some p) = Some (-1, out)
    | Some ps \<Rightarrow> proper_path ps \<and> length (render ps) \<le> VFS_PATH_MAX
        \<and> vfs_normalize (Some ''/'') (Some p) = Some (0, render ps)"
proof -
  consider "p = []" | "p \<noteq> []" "is_absolute p" | "p \<noteq> []" "\<not> is_absolute p" "length p + 2 > VFS_PATH_MAX"
    | "p \<noteq> []" "\<not> is_absolute p" "length p + 2 \<le> VFS_PATH_MAX" by linarith
  then show ?thesis
  proof cases
    case 1
    then show ?thesis by (simp add: path_parts_def vfs_normalize_def)
  next
    case 2
    then show ?thesis
      using normalize_abs_parts [OF 2(1) assms]
      by (auto simp: path_parts_def vfs_normalize_def split: option.splits)
  next
    case 3
    then show ?thesis
      by (simp add: path_parts_def vfs_normalize_def normalize_root_def is_absolute_def normalize_abs_def
          normalize_loop.simps normalize_join_def render_def VFS_PATH_MAX_def)
  next
    case 4
    then have "good_path (CHR ''/'' # p)"
      using assms by (simp add: good_path_def)
    then show ?thesis
      using normalize_abs_parts [of "CHR ''/'' # p"] 4
      by (auto simp: path_parts_def vfs_normalize_def normalize_root_def is_absolute_def [of "''/''"]
          normalize_abs_def [of "''/''"] normalize_loop.simps normalize_join_def render_def [of "[]"] VFS_PATH_MAX_def
          split: option.splits)
  qed
qed

lemma path_parts_proper:
  "good_path p \<Longrightarrow> path_parts p = Some ps \<Longrightarrow> proper_path ps \<and> length (render ps) \<le> VFS_PATH_MAX"
  using normalize_parts [of p] by auto

lemma good_render:
  assumes "proper_path ps" and "length (render ps) \<le> VFS_PATH_MAX"
  shows "good_path (render ps)" "path_parts (render ps) = Some ps"
proof -
  have ne: "[] \<notin> set ps" using assms(1) by (simp add: proper_path_def proper_nonempty)
  show g: "good_path (render ps)"
    using canonical_nul_free [of "(0, render ps)" ps] assms by (simp add: good_path_def canonical_def)
  show "path_parts (render ps) = Some ps"
  proof (cases "path_parts (render ps)")
    case None
    then show ?thesis
      using normalize_parts [OF g] vfs_normalize_render [OF assms] by auto
  next
    case (Some qs)
    then show ?thesis
      using normalize_parts [OF g] vfs_normalize_render [OF assms, of "Some ''/''"] render_inject [OF assms(1), of qs]
      by auto
  qed
qed

lemma find_path_slot:
  assumes "tree_ok recs P" and "good_path p"
  shows "find_path recs (Some p) = Some (index_of (path_parts p \<bind> slot_of recs P))"
proof (cases "path_parts p")
  case None
  then show ?thesis using normalize_parts [OF assms(2)] by (auto simp: find_path_def)
next
  case (Some ps)
  then have ps: "proper_path ps" "vfs_normalize (Some ''/'') (Some p) = Some (0, render ps)"
    using normalize_parts [OF assms(2)] by auto
  have root: "slot_of recs P [] = Some 0"
    using slot_of_Some_iff [OF assms(1)] tree_ok_D(2,5) [OF assms(1)] by simp
  have "[0..<VFS_FILE_MAX] = 0 # [1..<VFS_FILE_MAX]"
    by (simp add: VFS_FILE_MAX_def upt_conv_Cons)
  then have "ps \<noteq> [] \<Longrightarrow> slot_of recs P ps = List.find (\<lambda>i. live recs i \<and> P i = ps) [1..<VFS_FILE_MAX]"
    using tree_ok_D(5) [OF assms(1)] by (simp add: slot_of_def)
  moreover have "render ps = ''/'' \<longleftrightarrow> ps = []"
    using render_inject [OF ps(1), of "[]"] by (auto simp: render_def)
  ultimately show ?thesis
    using Some ps root find_loop_find [OF assms(1) ps(1), of "[1..<VFS_FILE_MAX]"]
    by (auto simp: find_path_def VFS_FILE_MAX_def)
qed

section \<open>The parent of a path\<close>

lemma last_slash_snoc:
  "last_slash (s @ [c]) = (if c = CHR ''/'' \<and> s \<noteq> [] then length s else last_slash s)"
proof (cases "s = []")
  case False
  then have "[1..<length (s @ [c])] = [1..<length s] @ [length s]" by (simp add: Suc_leI)
  moreover have "foldl (\<lambda>split i. if (s @ [c]) ! i = CHR ''/'' then i else split) 0 [1..<length s] = last_slash s"
    unfolding last_slash_def by (rule foldl_cong) (auto simp: nth_append)
  ultimately show ?thesis
    using False unfolding last_slash_def by (simp add: nth_append)
qed (simp add: last_slash_def)

lemma last_slash_name:
  "CHR ''/'' \<notin> set p \<Longrightarrow> last_slash (s @ CHR ''/'' # p) = length s"
proof (induction p rule: rev_induct)
  case Nil
  then show ?case using last_slash_snoc [of s "CHR ''/''"] by (auto simp: last_slash_def)
next
  case (snoc c p)
  then show ?case using last_slash_snoc [of "s @ CHR ''/'' # p" c] by auto
qed

lemma split_render:
  assumes "proper_path (ps @ [p])"
  defines "s \<equiv> last_slash (render (ps @ [p]))"
  shows "(if s = 0 then ''/'' else take s (render (ps @ [p]))) = render ps"
    and "take VFS_NAME_MAX (drop (if s \<noteq> 0 then s + 1 else 1) (render (ps @ [p]))) = p"
proof -
  have p: "CHR ''/'' \<notin> set p" "length p \<le> VFS_NAME_MAX" and ne: "[] \<notin> set (ps @ [p])" "[] \<notin> set ps"
    using assms(1) proper_nonempty [of "ps @ [p]"] by (auto simp: proper_name_def proper_path_def)
  have r: "render (ps @ [p]) = slashed ps @ CHR ''/'' # p"
    using ne by (simp add: render_slashed slashed_def)
  then have s: "s = length (slashed ps)"
    using last_slash_name [OF p(1)] by (simp add: s_def)
  have z: "length (slashed ps) = 0 \<longleftrightarrow> ps = []" by (cases ps) auto
  show "(if s = 0 then ''/'' else take s (render (ps @ [p]))) = render ps"
    using z r s ne by (auto simp: render_slashed)
  have "drop (if s \<noteq> 0 then s + 1 else 1) (render (ps @ [p])) = p"
    using r s by auto
  then show "take VFS_NAME_MAX (drop (if s \<noteq> 0 then s + 1 else 1) (render (ps @ [p]))) = p"
    using p(2) by simp
qed

lemma parent_and_name_slot:
  assumes "tree_ok recs P" and "good_path p" and "path_parts p = Some (ps @ [x])"
  shows "parent_and_name recs (Some p) = Some (let n = index_of (slot_of recs P ps) in
    (if 0 \<le> n \<and> v_type (recs ! nat n) = VFS_DIRECTORY then 0 else -1, n, x))"
proof -
  have pp: "proper_path (ps @ [x])" "length (render (ps @ [x])) \<le> VFS_PATH_MAX"
    "vfs_normalize (Some ''/'') (Some p) = Some (0, render (ps @ [x]))"
    using normalize_parts [OF assms(2)] assms(3) by auto
  then have "render (ps @ [x]) \<noteq> ''/''"
    using render_inject [of "ps @ [x]" "[]"] by (auto simp: render_def)
  moreover have "length (render ps) \<le> VFS_PATH_MAX"
    using pp(2) by (simp add: render_snoc append_part_def split: if_splits)
  then have "find_path recs (Some (render ps)) = Some (index_of (slot_of recs P ps))"
    using find_path_slot [OF assms(1) good_render(1)] good_render(2) pp(1) by simp
  ultimately show ?thesis
    using pp(3) split_render [OF pp(1)] by (simp add: parent_and_name_def Let_def)
qed

lemma parent_and_name_fails:
  assumes "good_path p" and "path_parts p = None \<or> path_parts p = Some []"
  shows "parent_and_name recs (Some p) = Some (-1, 0, [])"
  using normalize_parts [OF assms(1)] assms(2) by (auto simp: parent_and_name_def render_def)

section \<open>Changing the table\<close>

lemma live_update [simp]:
  "i < length recs \<Longrightarrow> live (recs[j := r]) i \<longleftrightarrow> (if i = j then i < VFS_FILE_MAX \<and> v_used r \<noteq> 0 else live recs i)"
  by (auto simp: live_def)

lemma placed_update:
  assumes "placed recs P i" and "i \<noteq> j" and len: "length recs = VFS_FILE_MAX"
    and parent: "\<And>p. live recs p \<Longrightarrow> v_parent (recs ! i) = of_nat p \<Longrightarrow> p \<noteq> j \<and> Q p = P p" and "Q i = P i"
  shows "placed (recs[j := r]) Q i"
proof -
  obtain p where p: "live recs p" "v_type (recs ! p) = VFS_DIRECTORY" "v_parent (recs ! i) = of_nat p"
    "P i = P p @ [rname (recs ! i)]" "CHR 0x00 \<in> set (v_name (recs ! i))" "proper_path (P i)"
    "length (render (P i)) \<le> VFS_PATH_MAX" "v_type (recs ! i) \<in> {VFS_DIRECTORY, VFS_FILE}"
    using assms(1) by (rule placed_E)
  have "p < length recs" "p \<noteq> j" "Q p = P p" using p(1,3) parent len by (auto simp: live_def)
  then have "live (recs[j := r]) p" "v_type (recs[j := r] ! p) = VFS_DIRECTORY" "P i = Q p @ [rname (recs[j := r] ! i)]"
    using p assms(2) by auto
  then show ?thesis
    using p assms(2,5) unfolding placed_def by auto
qed

lemma rname_new_record:
  assumes "proper_name x"
  shows "rname (new_record j p x ty) = x" "CHR 0x00 \<in> set (v_name (new_record j p x ty))"
proof -
  have "length x \<le> 31" "CHR 0x00 \<notin> set x" using assms by (simp_all add: proper_name_def VFS_NAME_MAX_def)
  then show "rname (new_record j p x ty) = x" "CHR 0x00 \<in> set (v_name (new_record j p x ty))"
    by (auto simp: rname_def new_record_def copy_def takeWhile_append)
qed

lemma tree_ok_create:
  assumes ok: "tree_ok recs P" and pp: "proper_path (ps @ [x])" "length (render (ps @ [x])) \<le> VFS_PATH_MAX"
    and new: "slot_of recs P (ps @ [x]) = None" and p: "live recs p" "P p = ps" "v_type (recs ! p) = VFS_DIRECTORY"
    and j: "j < VFS_FILE_MAX" "\<not> live recs j" and ty: "ty \<in> {VFS_DIRECTORY, VFS_FILE}"
  shows "tree_ok (recs[j := new_record j (int p) x ty]) (P(j := ps @ [x]))"
proof -
  let ?r = "new_record j (int p) x ty" and ?Q = "P(j := ps @ [x])"
  have len: "length recs = VFS_FILE_MAX" and j0: "0 \<noteq> j"
    using ok j tree_ok_D(2) [OF ok] by (auto simp: tree_ok_def)
  have fields: "v_used ?r = 1" "v_type ?r = ty" "v_parent ?r = of_nat p"
    by (simp_all add: new_record_def)
  have pj: "p \<noteq> j" "p < length recs" using p(1) j len by (auto simp: live_def)
  have r: "recs[j := ?r] ! j = ?r" "recs[j := ?r] ! p = recs ! p" "?Q j = ps @ [x]" "?Q p = ps"
    "live (recs[j := ?r]) p"
    using j len pj p by auto
  have "proper_name x" using pp(1) by simp
  then have "placed (recs[j := ?r]) ?Q j"
    unfolding placed_def r fields
    using r p pp ty rname_new_record [of x j "int p" ty] by (intro conjI exI [of _ p]) simp_all
  moreover have "placed (recs[j := ?r]) ?Q i" if "live recs i" "0 < i" for i
    using tree_ok_D(6) [OF ok that] that j(2) len by (intro placed_update [of recs P]) auto
  moreover have l: "live (recs[j := ?r]) i \<longleftrightarrow> i = j \<or> live recs i" for i
    using j len fields by (cases "i = j") (auto simp: live_def)
  ultimately have A: "\<forall>i. live (recs[j := ?r]) i \<and> 0 < i \<longrightarrow> placed (recs[j := ?r]) ?Q i"
    by (simp add: l) metis
  have "P i \<noteq> ps @ [x]" if "live recs i" for i
    using new that by (simp add: slot_of_None_iff)
  then have B: "\<forall>i k. live (recs[j := ?r]) i \<and> live (recs[j := ?r]) k \<and> ?Q i = ?Q k \<longrightarrow> i = k"
    using tree_ok_D(7) [OF ok] by (auto simp: l dest: sym [of "ps @ [x]"])
  show ?thesis
    unfolding tree_ok_def using tree_ok_D(2-5) [OF ok] j0 len by (intro conjI A B) (simp_all add: l)
qed

lemma tree_ok_delete:
  assumes ok: "tree_ok recs P" and i: "0 < i"
    and childless: "\<And>k. live recs k \<Longrightarrow> 0 < k \<Longrightarrow> v_parent (recs ! k) \<noteq> of_nat i"
  shows "tree_ok (recs[i := (recs ! i)\<lparr>v_used := 0\<rparr>]) P"
proof -
  let ?r = "(recs ! i)\<lparr>v_used := 0\<rparr>"
  have len: "length recs = VFS_FILE_MAX" using ok by (simp add: tree_ok_def)
  have l: "live (recs[i := ?r]) k \<longleftrightarrow> live recs k \<and> k \<noteq> i" for k
    using len by (cases "k = i") (auto simp: live_def)
  moreover have "placed (recs[i := ?r]) P k" if "live recs k" "0 < k" "k \<noteq> i" for k
    using tree_ok_D(6) [OF ok that(1,2)] that(3) len childless [OF that(1,2)] by (intro placed_update) auto
  ultimately show ?thesis
    using ok i len unfolding tree_ok_def by (simp add: nth_list_update)
qed

lemma tree_ok_resize:
  assumes ok: "tree_ok recs P"
  shows "tree_ok (recs[i := (recs ! i)\<lparr>v_size := n\<rparr>]) P"
proof (cases "i < length recs")
  case True
  let ?r = "(recs ! i)\<lparr>v_size := n\<rparr>"
  have len: "length recs = VFS_FILE_MAX" using ok by (simp add: tree_ok_def)
  have l: "live (recs[i := ?r]) k \<longleftrightarrow> live recs k" for k
    using True by (auto simp: live_def nth_list_update)
  have n: "v_type (recs[i := ?r] ! k) = v_type (recs ! k)" "v_parent (recs[i := ?r] ! k) = v_parent (recs ! k)"
    "v_name (recs[i := ?r] ! k) = v_name (recs ! k)" "rname (recs[i := ?r] ! k) = rname (recs ! k)" for k
    using True by (simp_all add: nth_list_update rname_def)
  show ?thesis
    using ok unfolding tree_ok_def placed_def l n by simp
qed (use assms in \<open>simp add: list_update_beyond\<close>)

section \<open>The tree\<close>

type_synonym tree = "string list \<rightharpoonup> u8 \<times> u32"

definition tree_of :: "vfs_record list \<Rightarrow> (nat \<Rightarrow> string list) \<Rightarrow> tree" where
  "tree_of recs P = (\<lambda>ps. map_option (\<lambda>i. (v_type (recs ! i), v_size (recs ! i))) (slot_of recs P ps))"

definition represents :: "vfs_record list \<Rightarrow> tree \<Rightarrow> bool" where
  "represents recs T \<longleftrightarrow> (\<exists>P. tree_ok recs P \<and> T = tree_of recs P)"

definition tree_dir :: "tree \<Rightarrow> string list \<Rightarrow> bool" where
  "tree_dir T ps \<longleftrightarrow> (case T ps of None \<Rightarrow> False | Some (ty, sz) \<Rightarrow> ty = VFS_DIRECTORY)"

definition tree_file :: "tree \<Rightarrow> string list \<Rightarrow> bool" where
  "tree_file T ps \<longleftrightarrow> (case T ps of None \<Rightarrow> False | Some (ty, sz) \<Rightarrow> ty = VFS_FILE)"

text \<open>What the operations promise: the new tree, or \<^term>\<open>None\<close> where they refuse.\<close>

definition tree_create :: "u8 \<Rightarrow> string list \<Rightarrow> tree \<Rightarrow> tree option" where
  "tree_create ty ps T =
     (if ps = [] \<or> T ps \<noteq> None \<or> \<not> tree_dir T (butlast ps) \<or> VFS_FILE_MAX \<le> card (dom T) then None
      else Some (T(ps \<mapsto> (ty, 0))))"

definition tree_touch :: "string list \<Rightarrow> tree \<Rightarrow> tree option" where
  "tree_touch ps T = (if T ps \<noteq> None then Some T else tree_create VFS_FILE ps T)"

definition tree_rmdir :: "string list \<Rightarrow> tree \<Rightarrow> tree option" where
  "tree_rmdir ps T =
     (if ps = [] \<or> \<not> tree_dir T ps \<or> (\<exists>x. T (ps @ [x]) \<noteq> None) then None else Some (T(ps := None)))"

definition tree_remove :: "string list \<Rightarrow> tree \<Rightarrow> tree option" where
  "tree_remove ps T = (if tree_file T ps then Some (T(ps := None)) else None)"

definition tree_write :: "u32 \<Rightarrow> bool \<Rightarrow> string list \<Rightarrow> tree \<Rightarrow> tree option" where
  "tree_write n app ps T =
     (if \<not> tree_file T ps then None
      else let pos = (if app then snd (the (T ps)) else 0)
           in if VFS_CONTENT_MAX < pos then None
              else Some (T(ps \<mapsto> (VFS_FILE, pos + min n (VFS_CONTENT_MAX - pos)))))"

lemma tree_of_Some:
  assumes "tree_ok recs P"
  shows "live recs i \<Longrightarrow> tree_of recs P (P i) = Some (v_type (recs ! i), v_size (recs ! i))"
  using slot_of_Some_iff [OF assms, of "P i" i] by (simp add: tree_of_def)

lemma slot_of_cong:
  assumes "tree_ok recs' P'" and "tree_ok recs P"
    and "\<And>i. live recs' i \<and> P' i = ps \<longleftrightarrow> live recs i \<and> P i = ps"
  shows "slot_of recs' P' ps = slot_of recs P ps"
proof (cases "slot_of recs P ps")
  case None
  then have "slot_of recs' P' ps = None" unfolding slot_of_None_iff using assms(3) by blast
  then show ?thesis using None by simp
next
  case (Some i)
  then have "slot_of recs' P' ps = Some i"
    unfolding slot_of_Some_iff [OF assms(2)] slot_of_Some_iff [OF assms(1)] assms(3) .
  then show ?thesis using Some by simp
qed

lemma live_card:
  assumes "tree_ok recs P"
  shows "VFS_FILE_MAX \<le> card (dom (tree_of recs P)) \<longleftrightarrow> free_slot recs = None"
proof -
  have dom: "dom (tree_of recs P) = P ` {i. live recs i}"
  proof (rule set_eqI)
    fix ps
    show "ps \<in> dom (tree_of recs P) \<longleftrightarrow> ps \<in> P ` {i. live recs i}"
      using slot_of_None_iff [of recs P ps] by (auto simp: tree_of_def dom_def)
  qed
  have "inj_on P {i. live recs i}"
    using tree_ok_D(7) [OF assms] by (auto intro: inj_onI)
  then have c: "card (dom (tree_of recs P)) = card {i. live recs i}"
    by (simp add: dom card_image)
  have sub: "{i. live recs i} \<subseteq> {..<64}" using live_less by auto
  show ?thesis
  proof (cases "free_slot recs")
    case None
    then have "\<forall>i \<in> {1..<64}. v_used (recs ! i) \<noteq> 0"
      by (auto simp: free_slot_def find_None_iff VFS_FILE_MAX_def)
    then have "live recs i" if "i < 64" for i
      using that tree_ok_D(2) [OF assms] by (cases "i = 0") (auto simp: live_def VFS_FILE_MAX_def)
    then have "{i. live recs i} = {..<64}" using sub by auto
    then show ?thesis using None c by (simp add: VFS_FILE_MAX_def)
  next
    case (Some j)
    then have "j < 64" "\<not> live recs j"
      by (auto simp: free_slot_def find_Some_iff live_def VFS_FILE_MAX_def)
    then have "card {i. live recs i} < card {..<64::nat}"
      using sub by (intro psubset_card_mono) auto
    then show ?thesis using Some c by (simp add: VFS_FILE_MAX_def)
  qed
qed

section \<open>Refinement\<close>

text \<open>Disk access changes nothing but the device and the trace of port accesses.\<close>

definition disk_io :: "('d, 'm) ata_machine_scheme \<Rightarrow> ('d, 'm) ata_machine_scheme \<Rightarrow> bool" where
  "disk_io m m' \<longleftrightarrow> (\<exists>d es. m' = m\<lparr>dev := d, trace := es\<rparr>)"

lemma disk_io_refl: "disk_io m m"
  unfolding disk_io_def by (rule exI [of _ "dev m"], rule exI [of _ "trace m"]) simp

lemma disk_io_trans: "disk_io m m' \<Longrightarrow> disk_io m' m'' \<Longrightarrow> disk_io m m''"
  unfolding disk_io_def by (elim exE) (simp, rule exI, rule exI, rule refl)

lemma disk_io_keeps:
  fixes m :: "('d, 'm) vfs_machine_scheme"
  assumes "disk_io m m'"
  shows "records m' = records m" "contents m' = contents m" "generation m' = generation m"
    "disk_backed m' = disk_backed m" "present m' = present m" "sector_count m' = sector_count m" "klog m' = klog m"
  using assms by (auto simp: disk_io_def)

lemma disk_io_transfer: "disk_io m (snd (run_state (ata_transfer hw lba b w) m))"
proof (cases b)
  case None
  then show ?thesis by (simp add: ata_transfer_def disk_io_refl)
next
  case (Some c)
  then show ?thesis using ata_transfer_ran [of m hw lba c w] by (auto simp: ata_ran_def disk_io_def)
qed

lemma disk_io_write28: "disk_io m (snd (run_state (ata_write28 hw lba b) m))"
  using disk_io_transfer [of m hw lba b True] by (simp add: ata_write28_def split_beta)

lemma disk_io_write_meta: "disk_io m (snd (write_meta hw all i n m))"
proof (induction n arbitrary: i m)
  case (Suc n)
  then show ?case
    using disk_io_write28 [of m hw "VFS_META_LBA + of_nat i" "Some (take 512 (drop (i * 512) all))"]
    by (auto simp: split_beta intro: disk_io_trans)
qed (simp add: disk_io_refl)

lemma disk_io_store_file: "disk_io m (snd (store_file hw lba c i n m))"
proof (induction n arbitrary: i m)
  case (Suc n)
  then show ?case
    using disk_io_write28 [of m hw "lba + of_nat i" "Some (take 512 (drop (i * 512) c))"]
    by (auto simp: split_beta intro: disk_io_trans)
qed (simp add: disk_io_refl)

lemma persist_keeps:
  "records (snd (persist hw m)) = records m" "contents (snd (persist hw m)) = contents m"
  "disk_backed (snd (persist hw m)) = disk_backed m"
  "\<not> disk_backed m \<Longrightarrow> persist hw m = (0, m)"
  using disk_io_keeps(1,2,4) [OF disk_io_write_meta [of "m\<lparr>generation := generation m + 1\<rparr>"]]
  by (simp_all add: persist_def Let_def)

text \<open>The commands that change the tree, on the machine and on the tree.\<close>

datatype fs_op = Mkdir string | Touch string | Rmdir string | Remove string | Put string string bool

fun fs_path :: "fs_op \<Rightarrow> string" where
  "fs_path (Mkdir p) = p"
| "fs_path (Touch p) = p"
| "fs_path (Rmdir p) = p"
| "fs_path (Remove p) = p"
| "fs_path (Put p d app) = p"

fun fs_step :: "'d hw \<Rightarrow> fs_op \<Rightarrow> ('d, 'm) vfs_machine_scheme \<Rightarrow> (int \<times> ('d, 'm) vfs_machine_scheme) c_result" where
  "fs_step hw (Mkdir p) m = vfs_mkdir hw (Some p) m"
| "fs_step hw (Touch p) m = vfs_touch hw (Some p) m"
| "fs_step hw (Rmdir p) m = vfs_rmdir hw (Some p) m"
| "fs_step hw (Remove p) m = vfs_remove hw (Some p) m"
| "fs_step hw (Put p d app) m = vfs_write hw (Some p) (Some d) (of_nat (length d)) app m"

fun tree_step :: "fs_op \<Rightarrow> string list \<Rightarrow> tree \<Rightarrow> tree option" where
  "tree_step (Mkdir p) = tree_create VFS_DIRECTORY"
| "tree_step (Touch p) = tree_touch"
| "tree_step (Rmdir p) = tree_rmdir"
| "tree_step (Remove p) = tree_remove"
| "tree_step (Put p d app) = tree_write (of_nat (length d)) app"

text \<open>The answer of the machine to the answer of the tree.\<close>

definition answers ::
    "('d, 'm) vfs_machine_scheme \<Rightarrow> (int \<times> ('d, 'm) vfs_machine_scheme) c_result \<Rightarrow> tree option \<Rightarrow> bool" where
  "answers m a t \<longleftrightarrow>
     (case t of
        None \<Rightarrow> a = Some (-1, m)
      | Some T' \<Rightarrow> \<exists>rc m'. a = Some (rc, m') \<and> represents (records m') T'
          \<and> (\<not> disk_backed m \<longrightarrow> rc = 0 \<and> \<not> disk_backed m'))"

lemma answers_persist:
  assumes "records m1 = recs" and "disk_backed m1 = disk_backed m" and "represents recs T"
  shows "answers m (Some (persist hw m1)) (Some T)"
  using persist_keeps [where hw = hw and m = m1] assms by (cases "persist hw m1") (auto simp: answers_def)

lemma tree_dir_slot:
  assumes "tree_ok recs P"
  shows "tree_dir (tree_of recs P) ps \<longleftrightarrow>
    (\<exists>i. slot_of recs P ps = Some i \<and> v_type (recs ! i) = VFS_DIRECTORY)"
  by (auto simp: tree_dir_def tree_of_def split: option.splits)

lemma tree_file_slot:
  assumes "tree_ok recs P"
  shows "tree_file (tree_of recs P) ps \<longleftrightarrow>
    (\<exists>i. slot_of recs P ps = Some i \<and> v_type (recs ! i) = VFS_FILE)"
  by (auto simp: tree_file_def tree_of_def split: option.splits)

lemma free_slot_not_live:
  assumes "free_slot recs = Some j"
  shows "j < VFS_FILE_MAX" "\<not> live recs j" "0 < j"
  using assms by (auto simp: free_slot_def find_Some_iff live_def)

lemma tree_of_create:
  assumes ok: "tree_ok recs P" "tree_ok (recs[j := r]) (P(j := ps))"
    and j: "j < VFS_FILE_MAX" "\<not> live recs j" and r: "v_used r = 1"
    and new: "slot_of recs P ps = None"
  shows "tree_of (recs[j := r]) (P(j := ps)) = (tree_of recs P)(ps \<mapsto> (v_type r, v_size r))"
proof (rule ext)
  fix qs
  have len: "length recs = VFS_FILE_MAX" using ok(1) by (simp add: tree_ok_def)
  have l: "live (recs[j := r]) i \<longleftrightarrow> i = j \<or> live recs i" for i
    using j len r by (cases "i = j") (auto simp: live_def)
  show "tree_of (recs[j := r]) (P(j := ps)) qs = ((tree_of recs P)(ps \<mapsto> (v_type r, v_size r))) qs"
  proof (cases "qs = ps")
    case True
    then show ?thesis
      using tree_of_Some [OF ok(2), of j] l len j by simp
  next
    case False
    then have s: "slot_of (recs[j := r]) (P(j := ps)) qs = slot_of recs P qs"
      using j(2) by (intro slot_of_cong ok) (auto simp: l)
    have "recs[j := r] ! i = recs ! i" if "slot_of recs P qs = Some i" for i
      using that j(2) slot_of_Some_iff [OF ok(1)] by (cases "i = j") auto
    then show ?thesis
      using False s by (auto simp: tree_of_def map_option_case split: option.splits)
  qed
qed

lemma create_answers:
  assumes ok: "tree_ok (records m) P" and p: "good_path p" and ty: "ty \<in> {VFS_DIRECTORY, VFS_FILE}"
  shows "answers m (create hw (Some p) ty m) (path_parts p \<bind> (\<lambda>ps. tree_create ty ps (tree_of (records m) P)))"
proof (cases "path_parts p = None \<or> path_parts p = Some []")
  case True
  then show ?thesis
    using find_path_slot [OF ok p] parent_and_name_fails [OF p True, of "records m"]
    by (auto simp: answers_def create_def tree_create_def index_of_def split: option.splits)
next
  case False
  then obtain ps x where px: "path_parts p = Some (ps @ [x])" by (metis option.exhaust rev_exhaust)
  note pn = parent_and_name_slot [OF ok p px] and pp = path_parts_proper [OF p px]
  have x: "x \<noteq> []" using pp proper_nonempty by (auto simp: proper_name_def)
  show ?thesis
  proof (cases "slot_of (records m) P (ps @ [x]) \<noteq> None \<or> \<not> tree_dir (tree_of (records m) P) ps
      \<or> free_slot (records m) = None")
    case True
    then show ?thesis
      using find_path_slot [OF ok p] pn px live_card [OF ok] tree_dir_slot [OF ok]
      by (cases "slot_of (records m) P ps"; cases "slot_of (records m) P (ps @ [x])")
         (auto simp: answers_def create_def tree_create_def Let_def tree_of_def)
  next
    case False
    then obtain i j where i: "slot_of (records m) P ps = Some i" "v_type (records m ! i) = VFS_DIRECTORY"
      and j: "free_slot (records m) = Some j" and new: "slot_of (records m) P (ps @ [x]) = None"
      using tree_dir_slot [OF ok] by auto
    let ?r = "new_record j (int i) x ty" and ?Q = "P(j := ps @ [x])"
    have li: "live (records m) i" "P i = ps" using i(1) slot_of_Some_iff [OF ok] by auto
    have ok': "tree_ok ((records m)[j := ?r]) ?Q"
      using tree_ok_create [OF ok _ _ new li i(2) free_slot_not_live(1,2) [OF j] ty] pp by blast
    have "v_used ?r = 1" "v_type ?r = ty" "v_size ?r = 0"
      by (simp_all add: new_record_def zero_record_def)
    then have "tree_of ((records m)[j := ?r]) ?Q = (tree_of (records m) P)(ps @ [x] \<mapsto> (ty, 0))"
      using tree_of_create [OF ok ok' free_slot_not_live(1,2) [OF j] _ new] by simp
    then have "represents ((records m)[j := ?r]) ((tree_of (records m) P)(ps @ [x] \<mapsto> (ty, 0)))"
      using ok' unfolding represents_def by metis
    then have "answers m (Some (persist hw (m\<lparr>records := (records m)[j := ?r]\<rparr>)))
        (Some ((tree_of (records m) P)(ps @ [x] \<mapsto> (ty, 0))))"
      by (intro answers_persist [where recs = "(records m)[j := ?r]"]) simp_all
    moreover have "create hw (Some p) ty m = Some (persist hw (m\<lparr>records := (records m)[j := ?r]\<rparr>))"
      using find_path_slot [OF ok p] px pn i j new x by (simp add: create_def)
    moreover have "tree_create ty (ps @ [x]) (tree_of (records m) P) = Some ((tree_of (records m) P)(ps @ [x] \<mapsto> (ty, 0)))"
      using live_card [OF ok] j new i tree_dir_slot [OF ok] by (auto simp: tree_create_def tree_of_def)
    ultimately show ?thesis using px by simp
  qed
qed

text \<open>Deletion: the path of the record goes.\<close>

lemma tree_of_delete:
  assumes ok: "tree_ok recs P" "tree_ok (recs[i := (recs ! i)\<lparr>v_used := 0\<rparr>]) P" and i: "live recs i" "P i = ps"
  shows "tree_of (recs[i := (recs ! i)\<lparr>v_used := 0\<rparr>]) P = (tree_of recs P)(ps := None)"
proof (rule ext)
  fix qs
  let ?recs = "recs[i := (recs ! i)\<lparr>v_used := 0\<rparr>]"
  have len: "length recs = VFS_FILE_MAX" using ok(1) by (simp add: tree_ok_def)
  have l: "live ?recs k \<longleftrightarrow> live recs k \<and> k \<noteq> i" for k
    using len by (cases "k = i") (auto simp: live_def)
  show "tree_of ?recs P qs = ((tree_of recs P)(ps := None)) qs"
  proof (cases "qs = ps")
    case True
    then have "slot_of ?recs P qs = None"
      using i tree_ok_D(7) [OF ok(1)] by (auto simp: slot_of_None_iff l)
    then show ?thesis using True by (simp add: tree_of_def)
  next
    case False
    then have "slot_of ?recs P qs = slot_of recs P qs"
      using i by (intro slot_of_cong ok) (auto simp: l)
    moreover have "?recs ! k = recs ! k" if "slot_of recs P qs = Some k" for k
      using that False i slot_of_Some_iff [OF ok(1)] by (cases "k = i") auto
    ultimately show ?thesis
      using False by (auto simp: tree_of_def map_option_case split: option.splits)
  qed
qed

lemma children_of:
  assumes ok: "tree_ok recs P" and i: "live recs i" and k: "live recs k" "0 < k"
  shows "sint (v_parent (recs ! k)) = int i \<longleftrightarrow> (\<exists>x. P k = P i @ [x])"
    and "v_parent (recs ! k) = of_nat i \<longleftrightarrow> (\<exists>x. P k = P i @ [x])"
proof -
  obtain p where p: "live recs p" "v_parent (recs ! k) = of_nat p" "P k = P p @ [rname (recs ! k)]"
    using tree_ok_D(6) [OF ok k] by (rule placed_E)
  have "(\<exists>x. P k = P i @ [x]) \<longleftrightarrow> p = i"
    using p(3) tree_ok_D(7) [OF ok p(1) i] by auto
  moreover have "(of_nat p :: u16) = of_nat i \<longleftrightarrow> p = i"
    using small_parent(2) live_less [OF p(1)] live_less [OF i] by (metis of_nat_eq_iff)
  ultimately show "sint (v_parent (recs ! k)) = int i \<longleftrightarrow> (\<exists>x. P k = P i @ [x])"
    "v_parent (recs ! k) = of_nat i \<longleftrightarrow> (\<exists>x. P k = P i @ [x])"
    using p(2) small_parent(2) [OF live_less [OF p(1)]] by simp_all
qed

lemma delete_answers:
  assumes ok: "tree_ok (records m) P" and i: "slot_of (records m) P ps = Some i" "ps \<noteq> []"
    and childless: "\<And>k x. live (records m) k \<Longrightarrow> P k \<noteq> ps @ [x]"
  shows "answers m (Some (persist hw (mark_unused i m))) (Some ((tree_of (records m) P)(ps := None)))"
proof -
  have li: "live (records m) i" "P i = ps" using i(1) slot_of_Some_iff [OF ok] by auto
  have "0 < i" using i(2) li(2) tree_ok_D(5) [OF ok] by (cases i) auto
  then have ok': "tree_ok ((records m)[i := (records m ! i)\<lparr>v_used := 0\<rparr>]) P"
    using childless children_of(2) [OF ok li(1)] li(2) by (intro tree_ok_delete ok) auto
  then have "represents ((records m)[i := (records m ! i)\<lparr>v_used := 0\<rparr>]) ((tree_of (records m) P)(ps := None))"
    using tree_of_delete [OF ok ok' li] unfolding represents_def by metis
  then show ?thesis
    by (intro answers_persist [where recs = "(records m)[i := (records m ! i)\<lparr>v_used := 0\<rparr>]"])
       (simp_all add: mark_unused_def)
qed

lemma mkdir_answers:
  assumes "tree_ok (records m) P" and "good_path p"
  shows "answers m (vfs_mkdir hw (Some p) m)
    (path_parts p \<bind> (\<lambda>ps. tree_create VFS_DIRECTORY ps (tree_of (records m) P)))"
  unfolding vfs_mkdir_def by (rule create_answers [OF assms]) simp

lemma touch_answers:
  assumes ok: "tree_ok (records m) P" and p: "good_path p"
  shows "answers m (vfs_touch hw (Some p) m) (path_parts p \<bind> (\<lambda>ps. tree_touch ps (tree_of (records m) P)))"
proof (cases "path_parts p \<bind> slot_of (records m) P")
  case None
  then have "vfs_touch hw (Some p) m = create hw (Some p) VFS_FILE m"
    using find_path_slot [OF ok p] by (simp add: vfs_touch_def)
  moreover have "path_parts p \<bind> (\<lambda>ps. tree_touch ps (tree_of (records m) P))
      = path_parts p \<bind> (\<lambda>ps. tree_create VFS_FILE ps (tree_of (records m) P))"
    using None by (cases "path_parts p") (auto simp: tree_touch_def tree_of_def)
  ultimately show ?thesis using create_answers [OF ok p, of VFS_FILE hw] by simp
next
  case (Some i)
  then show ?thesis
    using find_path_slot [OF ok p] ok
    by (auto simp: vfs_touch_def answers_def tree_touch_def tree_of_def [of "records m" P, THEN fun_cong]
        represents_def split: Option.bind_splits)
qed

lemma remove_answers:
  assumes ok: "tree_ok (records m) P" and p: "good_path p"
  shows "answers m (vfs_remove hw (Some p) m) (path_parts p \<bind> (\<lambda>ps. tree_remove ps (tree_of (records m) P)))"
proof (cases "\<exists>ps i. path_parts p = Some ps \<and> slot_of (records m) P ps = Some i \<and> v_type (records m ! i) = VFS_FILE")
  case True
  then obtain ps i where i: "path_parts p = Some ps" "slot_of (records m) P ps = Some i" "v_type (records m ! i) = VFS_FILE"
    by blast
  have li: "live (records m) i" "P i = ps" using i(2) slot_of_Some_iff [OF ok] by auto
  have i0: "i \<noteq> 0" using i(3) tree_ok_D(3) [OF ok] by (cases i) (auto simp: VFS_FILE_def VFS_DIRECTORY_def)
  have "P k \<noteq> ps @ [x]" if lk: "live (records m) k" for k x
  proof
    assume k: "P k = ps @ [x]"
    then have "0 < k" using tree_ok_D(5) [OF ok] by (cases k) auto
    then have "placed (records m) P k" using tree_ok_D(6) [OF ok lk] by simp
    then obtain q where q: "live (records m) q" "v_type (records m ! q) = VFS_DIRECTORY" "P k = P q @ [rname (records m ! k)]"
      by (rule placed_E)
    have "P q = ps" using q(3) k by (metis append1_eq_conv)
    then have "q = i" using li(2) by (intro tree_ok_D(7) [OF ok q(1) li(1)]) simp
    then show False using q(2) i(3) by (simp add: VFS_FILE_def VFS_DIRECTORY_def)
  qed
  moreover have "ps \<noteq> []"
    using i0 li tree_ok_D(2,5) [OF ok] tree_ok_D(7) [OF ok, of i 0] by auto
  ultimately have "answers m (Some (persist hw (mark_unused i m))) (Some ((tree_of (records m) P)(ps := None)))"
    using delete_answers [OF ok i(2)] by blast
  then show ?thesis
    using i i0 find_path_slot [OF ok p] tree_file_slot [OF ok] by (simp add: vfs_remove_def tree_remove_def)
next
  case False
  then show ?thesis
    using find_path_slot [OF ok p] tree_file_slot [OF ok]
    by (cases "path_parts p"; cases "slot_of (records m) P (the (path_parts p))")
       (auto simp: vfs_remove_def tree_remove_def answers_def)
qed

lemma rmdir_answers:
  assumes ok: "tree_ok (records m) P" and p: "good_path p"
  shows "answers m (vfs_rmdir hw (Some p) m) (path_parts p \<bind> (\<lambda>ps. tree_rmdir ps (tree_of (records m) P)))"
proof (cases "\<exists>ps i. path_parts p = Some ps \<and> slot_of (records m) P ps = Some i \<and> v_type (records m ! i) = VFS_DIRECTORY
    \<and> ps \<noteq> []")
  case True
  then obtain ps i where i: "path_parts p = Some ps" "slot_of (records m) P ps = Some i"
      "v_type (records m ! i) = VFS_DIRECTORY" "ps \<noteq> []" by blast
  have li: "live (records m) i" "P i = ps" using i(2) slot_of_Some_iff [OF ok] by auto
  then have i0: "i \<noteq> 0" using i(4) tree_ok_D(5) [OF ok] by (cases i) auto
  define busy where "busy = list_ex (\<lambda>k. v_used (records m ! k) \<noteq> 0 \<and> sint (v_parent (records m ! k)) = int i) [1..<VFS_FILE_MAX]"
  have "busy \<longleftrightarrow> (\<exists>k. live (records m) k \<and> 0 < k \<and> sint (v_parent (records m ! k)) = int i)"
    by (auto simp: busy_def list_ex_iff live_def)
  also have "\<dots> \<longleftrightarrow> (\<exists>k x. live (records m) k \<and> 0 < k \<and> P k = ps @ [x])"
    using children_of(1) [OF ok li(1)] li(2) by auto
  also have "\<dots> \<longleftrightarrow> (\<exists>k x. live (records m) k \<and> P k = ps @ [x])"
    using tree_ok_D(5) [OF ok] by (metis append_is_Nil_conv gr0I not_Cons_self2)
  finally have busy: "busy \<longleftrightarrow> (\<exists>k x. live (records m) k \<and> P k = ps @ [x])" .
  have child: "(\<exists>x. tree_of (records m) P (ps @ [x]) \<noteq> None) \<longleftrightarrow> (\<exists>k x. live (records m) k \<and> P k = ps @ [x])"
    using slot_of_None_iff [of "records m" P] by (auto simp: tree_of_def)
  have run: "vfs_rmdir hw (Some p) m = Some (if busy then (-1, m) else persist hw (mark_unused i m))"
    using i i0 find_path_slot [OF ok p] by (simp add: vfs_rmdir_def busy_def)
  have spec: "path_parts p \<bind> (\<lambda>ps. tree_rmdir ps (tree_of (records m) P))
      = (if busy then None else Some ((tree_of (records m) P)(ps := None)))"
    using i busy child tree_dir_slot [OF ok] by (simp add: tree_rmdir_def)
  show ?thesis
    unfolding run spec using delete_answers [OF ok i(2,4), of hw] busy by (auto simp: answers_def)
next
  case False
  have "slot_of (records m) P [] = Some 0"
    using slot_of_Some_iff [OF ok] tree_ok_D(2,5) [OF ok] by simp
  then show ?thesis
    using False find_path_slot [OF ok p] tree_dir_slot [OF ok]
    by (cases "path_parts p"; cases "slot_of (records m) P (the (path_parts p))")
       (auto simp: vfs_rmdir_def tree_rmdir_def answers_def)
qed

lemma tree_of_resize:
  assumes ok: "tree_ok recs P" and i: "live recs i" "P i = ps"
  shows "tree_of (recs[i := (recs ! i)\<lparr>v_size := n\<rparr>]) P = (tree_of recs P)(ps \<mapsto> (v_type (recs ! i), n))"
proof (rule ext)
  fix qs
  let ?recs = "recs[i := (recs ! i)\<lparr>v_size := n\<rparr>]"
  note ok' = tree_ok_resize [OF ok, of i n]
  have len: "i < length recs" using ok i(1) by (simp add: tree_ok_def live_def)
  have l: "live ?recs k \<longleftrightarrow> live recs k" for k
    using len by (auto simp: live_def nth_list_update)
  have s: "slot_of ?recs P qs = slot_of recs P qs" for qs
    by (intro slot_of_cong ok ok') (simp add: l)
  have "?recs ! k = recs ! k" if "slot_of recs P qs = Some k" "qs \<noteq> ps" for k
    using that i slot_of_Some_iff [OF ok] by (cases "k = i") auto
  moreover have "slot_of recs P ps = Some i" using i slot_of_Some_iff [OF ok] by simp
  ultimately show "tree_of ?recs P qs = ((tree_of recs P)(ps \<mapsto> (v_type (recs ! i), n))) qs"
    using len s by (cases "qs = ps") (auto simp: tree_of_def map_option_case split: option.splits)
qed

lemma if_less_min: "(if y < x then y else x) = min x (y :: 'a :: linorder)"
  by (auto simp: min_def)

lemma vfs_write_run:
  assumes "find_path (records m) p = Some (int i)" and "v_type (records m ! i) = VFS_FILE"
    and "pos = (if app then v_size (records m ! i) else 0)" and "n = min sz (VFS_CONTENT_MAX - pos)"
    and "m1 = m\<lparr>contents := (contents m)[i := overwrite (unat pos) (map byte_of_char (take (unat n) d)) (contents m ! i)],
      records := (records m)[i := (records m ! i)\<lparr>v_size := pos + n\<rparr>]\<rparr>"
    and "r = (if disk_backed m1 then store_file hw (v_data_lba (records m1 ! i)) (contents m1 ! i) 0 8 m1 else (0, m1))"
  shows "vfs_write hw p (Some d) sz app m =
    (if VFS_CONTENT_MAX < pos then Some (-1, m)
     else if length d < unat n then None
     else if fst r \<noteq> 0 then Some (-1, snd r) else Some (persist hw (snd r)))"
proof -
  have z: "nat (int i) = i" "(int i < 0) = False" by simp_all
  show ?thesis
    unfolding vfs_write_def assms(1) Let_def if_less_min assms(3) [symmetric] bind.bind_lunit z option.sel
      assms(4) [symmetric] assms(5) [symmetric] assms(6) [symmetric] split_beta
    using assms(2) by (cases r) (simp add: assms(6) [symmetric])
qed

lemma write_answers:
  assumes ok: "tree_ok (records m) P" and p: "good_path p"
  shows "answers m (vfs_write hw (Some p) (Some d) (of_nat (length d)) app m)
    (path_parts p \<bind> (\<lambda>ps. tree_write (of_nat (length d)) app ps (tree_of (records m) P)))"
proof (cases "\<exists>ps i. path_parts p = Some ps \<and> slot_of (records m) P ps = Some i \<and> v_type (records m ! i) = VFS_FILE")
  case True
  then obtain ps i where i: "path_parts p = Some ps" "slot_of (records m) P ps = Some i" "v_type (records m ! i) = VFS_FILE"
    by blast
  have li: "live (records m) i" "P i = ps" using i(2) slot_of_Some_iff [OF ok] by auto
  define pos where "pos = (if app then v_size (records m ! i) else 0)"
  define n :: u32 where "n = min (of_nat (length d)) (VFS_CONTENT_MAX - pos)"
  let ?recs = "(records m)[i := (records m ! i)\<lparr>v_size := pos + n\<rparr>]"
  have "unat n \<le> unat (of_nat (length d) :: u32)"
    unfolding n_def by (simp add: unat_mono min_def word_le_nat_alt)
  then have len: "\<not> length d < unat n"
    using le_unat_uoi [of "unat (of_nat (length d) :: u32)"] unat_of_nat [where 'a = 32 and x = "length d"]
      mod_less_eq_dividend [of "length d" "2 ^ 32"] by simp
  have spec: "path_parts p \<bind> (\<lambda>ps. tree_write (of_nat (length d)) app ps (tree_of (records m) P))
      = (if VFS_CONTENT_MAX < pos then None else Some ((tree_of (records m) P)(ps \<mapsto> (VFS_FILE, pos + n))))"
    using i tree_file_slot [OF ok] tree_of_Some [OF ok li(1)] li(2) by (simp add: tree_write_def pos_def n_def Let_def)
  have repr: "represents ?recs ((tree_of (records m) P)(ps \<mapsto> (VFS_FILE, pos + n)))"
    using tree_of_resize [OF ok li] tree_ok_resize [OF ok] i(3) unfolding represents_def by metis
  have f: "find_path (records m) (Some p) = Some (int i)" using find_path_slot [OF ok p] i by simp
  define m1 where "m1 = m\<lparr>contents := (contents m)[i := overwrite (unat pos) (map byte_of_char (take (unat n) d)) (contents m ! i)],
      records := ?recs\<rparr>"
  define r where "r = (if disk_backed m1 then store_file hw (v_data_lba (records m1 ! i)) (contents m1 ! i) 0 8 m1 else (0, m1))"
  have run: "vfs_write hw (Some p) (Some d) (of_nat (length d)) app m =
      (if VFS_CONTENT_MAX < pos then Some (-1, m) else if fst r \<noteq> 0 then Some (-1, snd r) else Some (persist hw (snd r)))"
    using vfs_write_run [OF f i(3) pos_def n_def m1_def r_def] len by simp
  have "disk_io m1 (snd r)" by (simp add: r_def disk_io_store_file disk_io_refl)
  note io = disk_io_keeps(1,4) [OF this]
  have k: "records (snd r) = ?recs" "disk_backed (snd r) = disk_backed m" "\<not> disk_backed m \<Longrightarrow> fst r = 0"
    using io by (simp_all add: m1_def) (simp add: r_def m1_def)
  show ?thesis
    unfolding run spec using repr k answers_persist [OF k(1,2) repr, of hw] by (auto simp: answers_def)
next
  case False
  then show ?thesis
    using find_path_slot [OF ok p] tree_file_slot [OF ok]
    by (cases "path_parts p"; cases "slot_of (records m) P (the (path_parts p))")
       (auto simp: vfs_write_def tree_write_def answers_def)
qed

lemma fs_step_answers:
  assumes "represents (records m) T" and "good_path (fs_path c)"
  shows "answers m (fs_step hw c m) (path_parts (fs_path c) \<bind> (\<lambda>ps. tree_step c ps T))"
proof -
  obtain P where P: "tree_ok (records m) P" "T = tree_of (records m) P"
    using assms(1) by (auto simp: represents_def)
  show ?thesis
    using assms(2) mkdir_answers [OF P(1)] touch_answers [OF P(1)] rmdir_answers [OF P(1)] remove_answers [OF P(1)]
      write_answers [OF P(1)] unfolding P(2) by (cases c) simp_all
qed

section \<open>Sequences of operations\<close>

text \<open>
  The interface the console's commands rely on: commands on a state that represents an
  abstract value, each of which either refuses and leaves the state alone or goes to a
  state that represents the value the specification gives.
\<close>

fun run_ops :: "('c \<Rightarrow> 's \<Rightarrow> (int \<times> 's) c_result) \<Rightarrow> 'c list \<Rightarrow> 's \<Rightarrow> (int list \<times> 's) c_result" where
  "run_ops step [] s = Some ([], s)"
| "run_ops step (c # cs) s = do {
     (rc, s') \<leftarrow> step c s;
     (rcs, s'') \<leftarrow> run_ops step cs s';
     Some (rc # rcs, s'')
   }"

fun run_spec :: "('c \<Rightarrow> 't \<Rightarrow> 't option) \<Rightarrow> 'c list \<Rightarrow> 't \<Rightarrow> int list \<times> 't" where
  "run_spec spec [] t = ([], t)"
| "run_spec spec (c # cs) t =
     (case spec c t of
        None \<Rightarrow> (let (rcs, t') = run_spec spec cs t in (-1 # rcs, t'))
      | Some t1 \<Rightarrow> (let (rcs, t') = run_spec spec cs t1 in (0 # rcs, t')))"

locale command_store =
  fixes step :: "'c \<Rightarrow> 's \<Rightarrow> (int \<times> 's) c_result"
    and spec :: "'c \<Rightarrow> 't \<Rightarrow> 't option"
    and repr :: "'s \<Rightarrow> 't \<Rightarrow> bool"
    and accepted :: "'c \<Rightarrow> bool"
    and reliable :: "'s \<Rightarrow> bool"
  assumes refuses: "repr s t \<Longrightarrow> accepted c \<Longrightarrow> spec c t = None \<Longrightarrow> step c s = Some (-1, s)"
    and performs: "repr s t \<Longrightarrow> accepted c \<Longrightarrow> spec c t = Some t' \<Longrightarrow>
      \<exists>rc s'. step c s = Some (rc, s') \<and> repr s' t' \<and> (reliable s \<longrightarrow> rc = 0 \<and> reliable s')"
begin

lemma run_refines:
  "repr s t \<Longrightarrow> list_all accepted cs \<Longrightarrow>
     \<exists>rcs s'. run_ops step cs s = Some (rcs, s') \<and> repr s' (snd (run_spec spec cs t))
       \<and> (reliable s \<longrightarrow> rcs = fst (run_spec spec cs t) \<and> reliable s')"
proof (induction cs arbitrary: s t)
  case Nil
  then show ?case by simp
next
  case (Cons c cs)
  show ?case
  proof (cases "spec c t")
    case None
    then have "step c s = Some (-1, s)" using refuses Cons.prems by simp
    then show ?thesis using Cons.IH [OF Cons.prems(1)] Cons.prems(2) None by (auto simp: split_beta)
  next
    case (Some t')
    then obtain rc s' where s': "step c s = Some (rc, s')" "repr s' t'" "reliable s \<longrightarrow> rc = 0 \<and> reliable s'"
      using performs Cons.prems by fastforce
    then obtain rcs s'' where "run_ops step cs s' = Some (rcs, s'')" "repr s'' (snd (run_spec spec cs t'))"
      "reliable s' \<longrightarrow> rcs = fst (run_spec spec cs t') \<and> reliable s''"
      using Cons.IH [OF s'(2)] Cons.prems(2) by auto
    then show ?thesis using s' Some by (auto simp: split_beta)
  qed
qed

end

definition tree_spec :: "fs_op \<Rightarrow> tree \<Rightarrow> tree option" where
  "tree_spec c T = path_parts (fs_path c) \<bind> (\<lambda>ps. tree_step c ps T)"

interpretation vfs_store: command_store "fs_step hw" tree_spec "\<lambda>m. represents (records m)"
  "\<lambda>c. good_path (fs_path c)" "\<lambda>m. \<not> disk_backed m"
  for hw :: "'d hw"
proof
  fix s :: "('d, 'b) vfs_machine_scheme" and t c
  assume "represents (records s) t" and "good_path (fs_path c)"
  then have a: "answers s (fs_step hw c s) (tree_spec c t)"
    unfolding tree_spec_def by (rule fs_step_answers)
  show "tree_spec c t = None \<Longrightarrow> fs_step hw c s = Some (-1, s)"
    using a by (simp add: answers_def)
  show "tree_spec c t = Some t' \<Longrightarrow> \<exists>rc s'. fs_step hw c s = Some (rc, s') \<and> represents (records s') t'
      \<and> (\<not> disk_backed s \<longrightarrow> rc = 0 \<and> \<not> disk_backed s')" for t'
    using a by (simp add: answers_def)
qed

section \<open>Queries\<close>

lemma stat_path_tree:
  assumes "represents recs T" and "good_path p"
  shows "vfs_stat_path recs (Some p) (Some st) = Some (case path_parts p \<bind> T of
      None \<Rightarrow> (-1, Some st) | Some (ty, sz) \<Rightarrow> (0, Some \<lparr>st_type = ty, st_size = sz\<rparr>))"
proof -
  obtain P where P: "tree_ok recs P" "T = tree_of recs P" using assms(1) by (auto simp: represents_def)
  show ?thesis
    using find_path_slot [OF P(1) assms(2)] unfolding P(2)
    by (cases "path_parts p"; cases "slot_of recs P (the (path_parts p))")
       (auto simp: vfs_stat_path_def tree_of_def)
qed

text \<open>What an entry of a listing shows: name, type and size.\<close>

definition entry_of :: "vfs_dirent \<Rightarrow> string \<times> u8 \<times> u32" where
  "entry_of d = (takeWhile (\<lambda>c. c \<noteq> CHR 0x00) (de_name d), de_type d, de_size d)"

definition child_records :: "vfs_record list \<Rightarrow> int \<Rightarrow> nat list \<Rightarrow> nat list" where
  "child_records recs n is = filter (\<lambda>i. v_used (recs ! i) \<noteq> 0 \<and> sint (v_parent (recs ! i)) = n) is"

lemma entry_copy:
  assumes "CHR 0x00 \<notin> set s" and "length s \<le> 31"
  shows "takeWhile (\<lambda>c. c \<noteq> CHR 0x00) (copy d (Some s) 32) = s"
  using assms by (auto simp: copy_def takeWhile_append)

lemma list_loop_entries:
  assumes "\<And>i. i \<in> set (child_records recs n is) \<Longrightarrow>
      CHR 0x00 \<in> set (v_name (recs ! i)) \<and> proper_name (rname (recs ! i))"
    and "out + length (child_records recs n is) \<le> mx" and "mx \<le> length e"
  shows "\<exists>e'. list_loop recs n mx is out e = Some (out + length (child_records recs n is), e')
    \<and> length e' = length e
    \<and> map entry_of (take (out + length (child_records recs n is)) e')
        = map entry_of (take out e) @ map (\<lambda>i. (rname (recs ! i), v_type (recs ! i), v_size (recs ! i))) (child_records recs n is)"
  using assms
proof (induction "is" arbitrary: out e)
  case Nil
  then show ?case by (simp add: child_records_def)
next
  case (Cons i "is")
  show ?case
  proof (cases "v_used (recs ! i) \<noteq> 0 \<and> sint (v_parent (recs ! i)) = n")
    case False
    then have "child_records recs n (i # is) = child_records recs n is" by (auto simp: child_records_def)
    moreover from this have "child_records recs n is = []" if "\<not> out < mx"
      using that Cons.prems(2) by (cases "child_records recs n is") auto
    ultimately show ?thesis using Cons.IH [of out e] Cons.prems False by (cases "out < mx") auto
  next
    case True
    then have c: "child_records recs n (i # is) = i # child_records recs n is" by (simp add: child_records_def)
    let ?d = "\<lparr>de_name = copy (de_name (e ! out)) (Some (rname (recs ! i))) 32, de_type = v_type (recs ! i),
        de_size = v_size (recs ! i)\<rparr>"
    have nm: "cstr (v_name (recs ! i)) = Some (rname (recs ! i))" "proper_name (rname (recs ! i))"
      using Cons.prems(1) [of i] by (simp_all add: c cstr_rname)
    have lt: "out < mx" "out < length e" using Cons.prems(2,3) by (simp_all add: c)
    have ent: "entry_of ?d = (rname (recs ! i), v_type (recs ! i), v_size (recs ! i))"
      using nm(2) by (simp add: entry_of_def entry_copy proper_name_def VFS_NAME_MAX_def)
    obtain e' where e': "list_loop recs n mx is (out + 1) (e[out := ?d])
          = Some (out + 1 + length (child_records recs n is), e')" "length e' = length e"
      "map entry_of (take (out + 1 + length (child_records recs n is)) e')
        = map entry_of (take (out + 1) (e[out := ?d]))
          @ map (\<lambda>i. (rname (recs ! i), v_type (recs ! i), v_size (recs ! i))) (child_records recs n is)"
      using Cons.IH [of "out + 1" "e[out := ?d]"] Cons.prems by (auto simp: c)
    have "map entry_of (take (out + 1) (e[out := ?d])) = map entry_of (take out e) @ [entry_of ?d]"
      using lt(2) by (simp add: take_Suc_conv_app_nth)
    then show ?thesis
      using True lt nm(1) e' ent by (simp add: c)
  qed
qed

lemma child_records_tree:
  assumes ok: "tree_ok recs P" and i: "slot_of recs P ps = Some i"
  defines "ks \<equiv> child_records recs (int i) [1..<VFS_FILE_MAX]"
  shows "\<forall>k \<in> set ks. live recs k \<and> P k = ps @ [rname (recs ! k)] \<and> CHR 0x00 \<in> set (v_name (recs ! k))
      \<and> proper_name (rname (recs ! k))"
    and "distinct (map (\<lambda>k. rname (recs ! k)) ks)"
    and "(\<lambda>k. (rname (recs ! k), v_type (recs ! k), v_size (recs ! k))) ` set ks
      = {(x, ty, sz). tree_of recs P (ps @ [x]) = Some (ty, sz)}"
proof -
  have li: "live recs i" "P i = ps" using i slot_of_Some_iff [OF ok] by auto
  have ks: "k \<in> set ks \<longleftrightarrow> live recs k \<and> 0 < k \<and> (\<exists>x. P k = ps @ [x])" for k
    using children_of(1) [OF ok li(1), of k] li(2) by (auto simp: ks_def child_records_def live_def)
  show all: "\<forall>k \<in> set ks. live recs k \<and> P k = ps @ [rname (recs ! k)] \<and> CHR 0x00 \<in> set (v_name (recs ! k))
      \<and> proper_name (rname (recs ! k))"
  proof
    fix k
    assume "k \<in> set ks"
    then have k: "live recs k" "0 < k" "\<exists>x. P k = ps @ [x]" using ks by auto
    then show "live recs k \<and> P k = ps @ [rname (recs ! k)] \<and> CHR 0x00 \<in> set (v_name (recs ! k))
        \<and> proper_name (rname (recs ! k))"
      using tree_ok_D(6) [OF ok k(1,2)] by (auto elim!: placed_E)
  qed
  have "inj_on (\<lambda>k. rname (recs ! k)) (set ks)"
    using all tree_ok_D(7) [OF ok] by (intro inj_onI) metis
  moreover have "distinct ks" by (simp add: ks_def child_records_def)
  ultimately show "distinct (map (\<lambda>k. rname (recs ! k)) ks)" by (simp add: distinct_map)
  show "(\<lambda>k. (rname (recs ! k), v_type (recs ! k), v_size (recs ! k))) ` set ks
      = {(x, ty, sz). tree_of recs P (ps @ [x]) = Some (ty, sz)}" (is "?L = ?R")
  proof (intro set_eqI iffI)
    fix t
    assume "t \<in> ?L"
    then show "t \<in> ?R" using all tree_of_Some [OF ok] by force
  next
    fix t
    assume "t \<in> ?R"
    then obtain x k where t: "t = (x, v_type (recs ! k), v_size (recs ! k))" "live recs k" "P k = ps @ [x]"
      by (auto simp: tree_of_def slot_of_Some_iff [OF ok])
    then have "0 < k" using tree_ok_D(5) [OF ok] by (cases k) auto
    then have "k \<in> set ks" using ks t by auto
    moreover from this have "rname (recs ! k) = x" using all t(3) by auto
    ultimately show "t \<in> ?L" using t(1) by auto
  qed
qed

text \<open>A listing is complete.\<close>

lemma list_children:
  assumes "represents recs T" and "good_path p" and "path_parts p = Some ps" and "tree_dir T ps"
    and "64 \<le> unat mx" and "unat mx \<le> length e"
  shows "\<exists>e' n. vfs_list recs (Some p) (Some e) mx (Some c) = Some (0, Some e', Some n)
    \<and> distinct (map (fst \<circ> entry_of) (take (unat n) e'))
    \<and> set (map entry_of (take (unat n) e')) = {(x, ty, sz). T (ps @ [x]) = Some (ty, sz)}
    \<and> (\<forall>d \<in> set (take (unat n) e'). proper_name (fst (entry_of d)))"
proof -
  obtain P where P: "tree_ok recs P" "T = tree_of recs P" using assms(1) by (auto simp: represents_def)
  obtain i where i: "slot_of recs P ps = Some i" "v_type (recs ! i) = VFS_DIRECTORY"
    using assms(4) tree_dir_slot [OF P(1)] P(2) by auto
  let ?ks = "child_records recs (int i) [1..<VFS_FILE_MAX]"
  note ks = child_records_tree [OF P(1) i(1)]
  have "length ?ks \<le> length [1..<VFS_FILE_MAX]" unfolding child_records_def by (rule length_filter_le)
  then have len: "length ?ks \<le> 63" by (simp add: VFS_FILE_MAX_def)
  obtain e' where e': "list_loop recs (int i) (unat mx) [1..<VFS_FILE_MAX] 0 e = Some (length ?ks, e')"
    "map entry_of (take (length ?ks) e') = map (\<lambda>k. (rname (recs ! k), v_type (recs ! k), v_size (recs ! k))) ?ks"
    using list_loop_entries [of recs "int i" "[1..<VFS_FILE_MAX]" 0 "unat mx" e] ks(1) len assms(5,6) by auto
  have "find_path recs (Some p) = Some (int i)" using find_path_slot [OF P(1) assms(2)] assms(3) i(1) by simp
  then have run: "vfs_list recs (Some p) (Some e) mx (Some c) = Some (0, Some e', Some (of_nat (length ?ks)))"
    using i(2) e'(1) by (simp add: vfs_list_def)
  have n: "unat (of_nat (length ?ks) :: u32) = length ?ks" using len by (simp add: unat_of_nat_small)
  have "map (fst \<circ> entry_of) (take (length ?ks) e') = map (\<lambda>k. rname (recs ! k)) ?ks"
    using arg_cong [OF e'(2), of "map fst"] by (simp add: comp_def)
  moreover have "\<forall>x \<in> set (map entry_of (take (length ?ks) e')). proper_name (fst x)"
    unfolding e'(2) using ks(1) by simp
  then have "\<forall>d \<in> set (take (length ?ks) e'). proper_name (fst (entry_of d))" by simp
  ultimately show ?thesis
    using run n ks(2,3) e'(2) P(2) by (intro exI [of _ e'] exI [of _ "of_nat (length ?ks)"]) simp
qed

text \<open>The names in a listing are terminated if those of the caller's array are.\<close>

definition terminated :: "vfs_dirent list \<Rightarrow> bool" where
  "terminated e \<longleftrightarrow> (\<forall>d \<in> set e. CHR 0x00 \<in> set (de_name d))"

lemma list_loop_terminated:
  "list_loop recs n mx is out e = Some (k, e') \<Longrightarrow> terminated e \<Longrightarrow> terminated e'"
proof (induction "is" arbitrary: out e)
  case (Cons i "is")
  have "terminated (e[j := \<lparr>de_name = copy nm s 32, de_type = ty, de_size = sz\<rparr>])" for j nm s ty sz
    using Cons.prems(2) set_update_subset_insert [of e j "\<lparr>de_name = copy nm s 32, de_type = ty, de_size = sz\<rparr>"]
    by (auto simp: terminated_def copy_def Let_def)
  then show ?case using Cons by (auto split: if_splits Option.bind_splits)
qed auto

lemma vfs_list_terminated:
  assumes "vfs_list recs p (Some e) mx (Some c) = Some (rc, Some e', n)" "terminated e"
  shows "terminated e'"
  using assms list_loop_terminated by (auto simp: vfs_list_def split: Option.bind_splits if_splits)

section \<open>Mounting without a disk\<close>

definition fresh_records :: "vfs_record list" where
  "fresh_records = (replicate VFS_FILE_MAX zero_record)[0 := root_record]"

definition empty_tree :: tree where
  "empty_tree = [[] \<mapsto> (VFS_DIRECTORY, 0)]"

lemma fresh_live: "live fresh_records i \<longleftrightarrow> i = 0"
  by (cases i) (auto simp: live_def fresh_records_def VFS_FILE_MAX_def root_record_def zero_record_def)

lemma fresh_represents: "represents fresh_records empty_tree"
proof -
  have r: "fresh_records ! 0 = root_record" "length fresh_records = VFS_FILE_MAX"
    by (simp_all add: fresh_records_def VFS_FILE_MAX_def)
  have ok: "tree_ok fresh_records (\<lambda>i. [])"
    unfolding tree_ok_def using r by (auto simp: fresh_live root_record_def)
  have "slot_of fresh_records (\<lambda>i. []) ps = (if ps = [] then Some 0 else None)" for ps
    using slot_of_Some_iff [OF ok, of ps 0] slot_of_None_iff [of fresh_records "\<lambda>i. []" ps] by (auto simp: fresh_live)
  then have "tree_of fresh_records (\<lambda>i. []) = empty_tree"
    using r(1) by (auto simp: tree_of_def empty_tree_def root_record_def zero_record_def)
  then show ?thesis using ok unfolding represents_def by metis
qed

lemma log_keeps [simp]:
  fixes m :: "('d, 'm) vfs_machine_scheme"
  shows "records (snd (run_state (log_fmt s as) m)) = records m" "records (snd (run_state (log_text s) m)) = records m"
    "contents (snd (run_state (log_fmt s as) m)) = contents m" "contents (snd (run_state (log_text s) m)) = contents m"
    "generation (snd (run_state (log_fmt s as) m)) = generation m" "generation (snd (run_state (log_text s) m)) = generation m"
    "disk_backed (snd (run_state (log_fmt s as) m)) = disk_backed m"
    "disk_backed (snd (run_state (log_text s) m)) = disk_backed m"
  by (simp_all add: log_fmt_def log_text_def)

lemma log_records_unused:
  "list_all (\<lambda>i. v_used (records m ! i) = 0) is \<Longrightarrow> log_records is m = Some m"
  by (induction "is") (simp_all add: Let_def)

lemma vfs_init_without_disk:
  assumes "\<not> present m"
  shows "\<exists>m'. vfs_init hw m = Some (0, m') \<and> records m' = fresh_records \<and> \<not> disk_backed m'"
proof -
  define m0 where "m0 = m\<lparr>records := fresh_records, generation := 0, disk_backed := False\<rparr>"
  define m2 where "m2 = snd (run_state (log_fmt (''[MinOS VFS] metadata %s, generation=%u'' @ [CHR 0x0A])
      [Str (Some ''initialized''), Num (ucast (generation m0))]) m0)"
  have load: "load_metadata hw m0 = (False, m0)" by (simp add: load_metadata_def m0_def)
  have "records m2 = fresh_records" by (simp add: m2_def m0_def)
  moreover have "v_used (fresh_records ! i) = 0" if "1 \<le> i" "i < VFS_FILE_MAX" for i
    using that fresh_live [of i] by (auto simp: live_def)
  ultimately have "log_records [1..<VFS_FILE_MAX] m2 = Some m2"
    by (intro log_records_unused) (auto simp: list_all_iff)
  then have "vfs_init hw m = Some (persist hw (snd (run_state (log_text
      (''[MinOS VFS] mounted persistent metadata filesystem at /.'' @ [CHR 0x0A])) m2)))"
    unfolding vfs_init_def Let_def ata_primary_master_present_def using assms load m2_def
    by (simp add: fresh_records_def [symmetric] m0_def [symmetric])
  moreover have "\<not> disk_backed m2" "records m2 = fresh_records" by (simp_all add: m2_def m0_def)
  ultimately show ?thesis by (simp add: persist_keeps(4))
qed

section \<open>Properties\<close>

text \<open>
  C8: without a disk the file system is the tree of its specification.  After mounting, any
  sequence of \<^verbatim>\<open>mkdir\<close>, \<^verbatim>\<open>touch\<close>, \<^verbatim>\<open>rmdir\<close>, \<^verbatim>\<open>rm\<close> and writes on paths of at most 127 characters returns,
  answers 0 or -1 as the same operations on a map from paths to types and sizes do (a
  directory must be empty to go, a parent must be a directory, 64 entries are the limit), and then \<^verbatim>\<open>vfs_stat_path\<close>
  answers for every path what the map holds.
\<close>

theorem vfs_refines_tree:
  assumes "\<not> present m" and "list_all (\<lambda>c. good_path (fs_path c)) cs" and "good_path p"
  shows "\<exists>m0 m'. vfs_init hw m = Some (0, m0)
    \<and> run_ops (fs_step hw) cs m0 = Some (fst (run_spec tree_spec cs empty_tree), m')
    \<and> vfs_stat_path (records m') (Some p) (Some st) =
        Some (case path_parts p \<bind> snd (run_spec tree_spec cs empty_tree) of
            None \<Rightarrow> (-1, Some st) | Some (ty, sz) \<Rightarrow> (0, Some \<lparr>st_type = ty, st_size = sz\<rparr>))"
proof -
  obtain m0 where m0: "vfs_init hw m = Some (0, m0)" "records m0 = fresh_records" "\<not> disk_backed m0"
    using vfs_init_without_disk [OF assms(1)] by blast
  then have "represents (records m0) empty_tree" by (simp add: fresh_represents)
  then obtain rcs m' where "run_ops (fs_step hw) cs m0 = Some (rcs, m')"
    "represents (records m') (snd (run_spec tree_spec cs empty_tree))" "rcs = fst (run_spec tree_spec cs empty_tree)"
    using vfs_store.run_refines [OF _ assms(2), of m0 empty_tree hw] m0(3) by auto
  then show ?thesis
    using m0(1) stat_path_tree [OF _ assms(3)] by auto
qed

definition idle_vfs :: "disk vfs_machine" where
  "idle_vfs = \<lparr>dev = sample_disk, trace = [], klog = [], serial_initialized = True, present = False,
     sector_count = 0, records = [], contents = replicate 64 (replicate 4096 0), generation = 0, disk_backed = False\<rparr>"

lemma sample_parts:
  "path_parts ''/a'' = Some [''a'']" "path_parts ''/a/b'' = Some [''a'', ''b'']" "path_parts ''/'' = Some []"
  "good_path ''/a''" "good_path ''/a/b''" "good_path ''/''"
  by (simp_all add: path_parts_def is_absolute_def good_path_def VFS_PATH_MAX_def VFS_NAME_MAX_def)

lemma sample_tree:
  "run_spec tree_spec [Mkdir ''/a'', Touch ''/a/b'', Rmdir ''/a''] empty_tree
     = ([0, 0, -1], [[] \<mapsto> (VFS_DIRECTORY, 0), [''a''] \<mapsto> (VFS_DIRECTORY, 0), [''a'', ''b''] \<mapsto> (VFS_FILE, 0)])"
  by (simp add: tree_spec_def sample_parts tree_create_def tree_touch_def tree_rmdir_def tree_dir_def empty_tree_def
      VFS_FILE_MAX_def card_insert_if)

theorem vfs_refines_tree_witness:
  "\<exists>m0 m'. vfs_init disk_hw idle_vfs = Some (0, m0)
    \<and> run_ops (fs_step disk_hw) [Mkdir ''/a'', Touch ''/a/b'', Rmdir ''/a''] m0 = Some ([0, 0, -1], m')
    \<and> vfs_stat_path (records m') (Some ''/a/b'') (Some \<lparr>st_type = 0, st_size = 7\<rparr>)
        = Some (0, Some \<lparr>st_type = VFS_FILE, st_size = 0\<rparr>)"
proof -
  have "\<not> present idle_vfs" by (simp add: idle_vfs_def)
  moreover have "list_all (\<lambda>c. good_path (fs_path c)) [Mkdir ''/a'', Touch ''/a/b'', Rmdir ''/a'']"
    by (simp add: sample_parts)
  ultimately obtain m0 m' where "vfs_init disk_hw idle_vfs = Some (0, m0)"
      "run_ops (fs_step disk_hw) [Mkdir ''/a'', Touch ''/a/b'', Rmdir ''/a''] m0 = Some ([0, 0, -1], m')"
      "vfs_stat_path (records m') (Some ''/a/b'') (Some \<lparr>st_type = 0, st_size = 7\<rparr>)
        = Some (0, Some \<lparr>st_type = VFS_FILE, st_size = 0\<rparr>)"
    using vfs_refines_tree [OF _ _ sample_parts(5), of idle_vfs _ disk_hw "\<lparr>st_type = 0, st_size = 7\<rparr>"]
    by (fastforce simp: sample_tree sample_parts simp del: run_ops.simps run_spec.simps)
  then show ?thesis by blast
qed

text \<open>
  C20: the table stays a tree on every machine, with or without a disk and whatever the
  disk answers: a record whose parent is a live directory for every path, no path
  twice.  A refused operation answers -1 and changes nothing; an operation that is
  performed leaves a table for the tree of the specification, and answers -1 only when a
  disk access failed.
\<close>

theorem vfs_tree_invariant:
  assumes "represents (records m) T" and "good_path (fs_path c)"
  shows "case tree_spec c T of
      None \<Rightarrow> fs_step hw c m = Some (-1, m)
    | Some T' \<Rightarrow> \<exists>rc m'. fs_step hw c m = Some (rc, m') \<and> represents (records m') T'
        \<and> (\<not> disk_backed m \<longrightarrow> rc = 0)"
  using fs_step_answers [OF assms, of hw] by (auto simp: answers_def tree_spec_def split: option.splits)

theorem vfs_tree_invariant_witness:
  "\<exists>rc m'. fs_step disk_hw (Mkdir ''/a'') (idle_vfs\<lparr>records := fresh_records, disk_backed := True\<rparr>) = Some (rc, m')
    \<and> represents (records m') (empty_tree([''a''] \<mapsto> (VFS_DIRECTORY, 0)))"
proof -
  have "tree_spec (Mkdir ''/a'') empty_tree = Some (empty_tree([''a''] \<mapsto> (VFS_DIRECTORY, 0)))"
    by (simp add: tree_spec_def sample_parts tree_create_def tree_dir_def empty_tree_def VFS_FILE_MAX_def)
  then show ?thesis
    using vfs_tree_invariant [of "idle_vfs\<lparr>records := fresh_records, disk_backed := True\<rparr>" empty_tree "Mkdir ''/a''" disk_hw]
      fresh_represents by (simp add: sample_parts)
qed

text \<open>
  C27: a listing is complete.  For a directory, with room for 64 entries, \<^verbatim>\<open>vfs_list\<close> answers 0 and
  each child once, with its name, type and size, and nothing else.
\<close>

theorem vfs_list_children:
  assumes "represents recs T" and "good_path p" and "path_parts p = Some ps" and "tree_dir T ps"
    and "64 \<le> unat mx" and "unat mx \<le> length e"
  shows "\<exists>e' n. vfs_list recs (Some p) (Some e) mx (Some c) = Some (0, Some e', Some n)
    \<and> distinct (map (fst \<circ> entry_of) (take (unat n) e'))
    \<and> set (map entry_of (take (unat n) e')) = {(x, ty, sz). T (ps @ [x]) = Some (ty, sz)}"
  using list_children [OF assms, of c] by blast

theorem vfs_list_children_witness:
  "\<exists>e' n. vfs_list fresh_records (Some ''/'') (Some (replicate 64 \<lparr>de_name = [], de_type = 0, de_size = 0\<rparr>)) 64 (Some 0)
     = Some (0, Some e', Some n) \<and> set (map entry_of (take (unat n) e')) = {}"
proof -
  let ?e = "replicate 64 \<lparr>de_name = [], de_type = 0, de_size = 0\<rparr>"
  have none: "{(x, ty, sz). empty_tree ([] @ [x]) = Some (ty, sz)} = {}" by (simp add: empty_tree_def)
  have "tree_dir empty_tree []" "64 \<le> unat (64 :: u32)" "unat (64 :: u32) \<le> length ?e"
    by (simp_all add: tree_dir_def empty_tree_def)
  then obtain e' n where "vfs_list fresh_records (Some ''/'') (Some ?e) 64 (Some 0) = Some (0, Some e', Some n)"
      "set (map entry_of (take (unat n) e')) = {}"
    using vfs_list_children [OF fresh_represents sample_parts(6,3), of 64 ?e 0] unfolding none by blast
  then show ?thesis by blast
qed

end
