(* ===== verification/Minos_VfsDisk.thy ===== *)
theory Minos_VfsDisk
  imports Minos_VfsTree
begin

text \<open>
  The file system on its disk: the record table and the file contents survive a reboot.
  The layout of the metadata is read back by the inverse of the writer, and the sector
  loops of \<^verbatim>\<open>vfs.c\<close> are the block device's reads and writes of consecutive sectors.
\<close>

section \<open>Layout\<close>

lemma char_of_byte_of_char [simp]: "char_of_byte (byte_of_char c) = c"
proof -
  have "of_char c < (256 :: nat)" by simp
  then have "unat (byte_of_char c) = of_char c"
    using unat_of_nat_small [where 'a = 8, of "of_char c"] by (simp add: byte_of_char_def of_char_def)
  then show ?thesis by (simp add: char_of_byte_def)
qed

lemma from_le32_bytes [simp]: "from_le32 (le_bytes32 w @ bs) = w"
proof (rule bit_word_eqI)
  fix n
  assume "n < LENGTH(32)"
  then show "bit (from_le32 (le_bytes32 w @ bs)) n = bit w n"
    by (cases "n < 24"; cases "n < 16") (auto simp: from_le32_def le_bytes32_def bit_or_iff bit_push_bit_iff bit_ucast_iff bit_drop_bit_eq)
qed

lemma from_le16_bytes [simp]: "from_le16 (le_bytes16 w @ bs) = w"
proof (rule bit_word_eqI)
  fix n
  assume "n < LENGTH(16)"
  then show "bit (from_le16 (le_bytes16 w @ bs)) n = bit w n"
    by (auto simp: from_le16_def le_bytes16_def bit_or_iff bit_push_bit_iff bit_ucast_iff bit_drop_bit_eq)
qed

lemma length_le_bytes [simp]: "length (le_bytes32 w) = 4" "length (le_bytes16 v) = 2"
  by (simp_all add: le_bytes32_def le_bytes16_def)

lemma from_le32_exact [simp]: "from_le32 (le_bytes32 w) = w"
  using from_le32_bytes [of w "[]"] by simp

lemma length_record_bytes: "length (v_name r) = 32 \<Longrightarrow> length (record_bytes r) = sizeof_record"
  by (simp add: record_bytes_def sizeof_record_def)

lemma record_of_record_bytes:
  assumes "length (v_name r) = 32"
  shows "record_of_bytes (record_bytes r) = r"
proof -
  have n: "map char_of_byte (take 32 (record_bytes r)) = v_name r"
    using assms by (simp add: record_bytes_def comp_def)
  have d: "drop 32 (record_bytes r) = le_bytes16 (v_parent r) @ [v_type r, v_used r] @ le_bytes32 (v_size r) @ le_bytes32 (v_data_lba r)"
    using assms by (simp add: record_bytes_def)
  have "drop 36 (record_bytes r) = drop 4 (drop 32 (record_bytes r))" "drop 40 (record_bytes r) = drop 8 (drop 32 (record_bytes r))"
    "record_bytes r ! 34 = drop 32 (record_bytes r) ! 2" "record_bytes r ! 35 = drop 32 (record_bytes r) ! 3"
    using assms by (simp_all add: record_bytes_def nth_append)
  then show ?thesis
    unfolding record_of_bytes_def n d by (simp add: nth_append)
qed

text \<open>Records of equal length one after the other.\<close>

lemma nth_chunk:
  "\<forall>x \<in> set xs. length (f x) = k \<Longrightarrow> i < length xs \<Longrightarrow> take k (drop (i * k) (concat (map f xs) @ z)) = f (xs ! i)"
proof (induction xs arbitrary: i)
  case Nil
  then show ?case by simp
next
  case (Cons x xs)
  then show ?case by (cases i) (auto simp: drop_append)
qed

definition table_ok :: "vfs_record list \<Rightarrow> bool" where
  "table_ok recs \<longleftrightarrow> length recs = VFS_FILE_MAX \<and> (\<forall>r \<in> set recs. length (v_name r) = 32 \<and> CHR 0x00 \<in> set (v_name r))"

lemma image_prefix:
  assumes "table_ok recs"
  shows "\<exists>z. metadata_image g recs = le_bytes32 VFS_MAGIC @ le_bytes32 g @ concat (map record_bytes recs) @ z"
    and "length (metadata_image g recs) = 4096"
proof -
  have "length (concat (map record_bytes recs)) = (\<Sum>r \<leftarrow> recs. sizeof_record)"
    using assms by (auto simp: length_concat comp_def table_ok_def length_record_bytes intro!: arg_cong [of _ _ sum_list] map_cong)
  also have "\<dots> = 2816" using assms by (simp add: sum_list_triv table_ok_def VFS_FILE_MAX_def sizeof_record_def)
  finally show "length (metadata_image g recs) = 4096" by (simp add: metadata_image_def Let_def)
  show "\<exists>z. metadata_image g recs = le_bytes32 VFS_MAGIC @ le_bytes32 g @ concat (map record_bytes recs) @ z"
    by (simp add: metadata_image_def Let_def)
qed

lemma records_of_metadata_image:
  assumes "table_ok recs"
  shows "records_of_image (metadata_image g recs) = recs"
    and "from_le32 (metadata_image g recs) = VFS_MAGIC" and "from_le32 (drop 4 (metadata_image g recs)) = g"
proof -
  obtain z where z: "metadata_image g recs = le_bytes32 VFS_MAGIC @ le_bytes32 g @ concat (map record_bytes recs) @ z"
    using image_prefix(1) [OF assms] by blast
  have len: "\<forall>r \<in> set recs. length (record_bytes r) = sizeof_record"
    using assms by (auto simp: table_ok_def length_record_bytes)
  have "record_of_bytes (take sizeof_record (drop (8 + i * sizeof_record) (metadata_image g recs))) = recs ! i"
    if "i < length recs" for i
  proof -
    have "take sizeof_record (drop (8 + i * sizeof_record) (metadata_image g recs)) = record_bytes (recs ! i)"
      using nth_chunk [OF len that, of z] by (simp add: z)
    moreover have "length (v_name (recs ! i)) = 32" using assms that by (simp add: table_ok_def)
    ultimately show ?thesis by (simp add: record_of_record_bytes)
  qed
  then show "records_of_image (metadata_image g recs) = recs"
    using assms by (auto simp: records_of_image_def table_ok_def intro!: nth_equalityI)
  show "from_le32 (metadata_image g recs) = VFS_MAGIC" "from_le32 (drop 4 (metadata_image g recs)) = g"
    by (simp_all add: z)
qed

section \<open>Sector loops\<close>

lemma write_meta_store_file: "write_meta hw all i n m = store_file hw VFS_META_LBA all i n m"
  by (induction n arbitrary: i m) (auto simp: split_beta)

lemma concat_sectors: "concat (map (\<lambda>k. take 512 (drop (k * 512) c)) [0..<n]) = take (n * 512) c"
  by (induction n) (simp_all add: take_add [symmetric] add.commute)

lemma unat_lba:
  fixes lba :: u32
  assumes "unat lba + i < 2 ^ 32"
  shows "unat (lba + of_nat i) = unat lba + i"
  using assms unat_u32_bound [of lba] by (simp add: unat_word_ariths unat_of_nat)

lemma disk_ok_small: "disk_ok m \<Longrightarrow> disk_count m \<le> 2 ^ 28"
  by (simp add: disk_ok_def disk_count_def)

text \<open>The file system's part of the state is the extension of the driver's.\<close>

lemma store_file_disk:
  fixes m :: "(disk, 'm) ata_machine_scheme"
  shows "disk_ok m \<Longrightarrow> unat lba + i + n \<le> disk_count m \<Longrightarrow> (i + n) * 512 \<le> length c \<Longrightarrow>
    \<exists>m'. store_file disk_hw lba c i n m = (0, m') \<and> disk_ok m' \<and> disk_count m' = disk_count m
      \<and> disk_sector m' = (\<lambda>s. if unat lba + i \<le> s \<and> s < unat lba + i + n
            then take 512 (drop ((s - unat lba) * 512) c) else disk_sector m s)"
proof (induction n arbitrary: i m)
  case 0
  then show ?case by (auto simp: fun_eq_iff)
next
  case (Suc n)
  have a: "unat (lba + of_nat i) = unat lba + i"
    using Suc.prems(2) disk_ok_small [OF Suc.prems(1)] by (intro unat_lba) simp
  obtain m1 where m1: "run_state (ata_write28 disk_hw (lba + of_nat i) (Some (take 512 (drop (i * 512) c)))) m = (0, m1)"
    "disk_ok m1" "disk_sector m1 = (disk_sector m)(unat lba + i := take 512 (drop (i * 512) c))" "disk_count m1 = disk_count m"
    using ata_disk.write_sector [OF Suc.prems(1), of "lba + of_nat i" "take 512 (drop (i * 512) c)"] Suc.prems(2,3) a by auto
  obtain m' where m': "store_file disk_hw lba c (i + 1) n m1 = (0, m')" "disk_ok m'" "disk_count m' = disk_count m"
    "disk_sector m' = (\<lambda>s. if unat lba + (i + 1) \<le> s \<and> s < unat lba + (i + 1) + n
            then take 512 (drop ((s - unat lba) * 512) c) else disk_sector m1 s)"
    using Suc.IH [OF m1(2), of "i + 1"] Suc.prems(2,3) m1(4) by auto
  have "disk_sector m' = (\<lambda>s. if unat lba + i \<le> s \<and> s < unat lba + i + Suc n
            then take 512 (drop ((s - unat lba) * 512) c) else disk_sector m s)"
    unfolding m'(4) m1(3) by (auto simp: fun_eq_iff)
  then show ?case using m1(1) m'(1,2,3) by simp
qed

lemma sectors_of_store:
  assumes "length c = n * 512"
    and "f = (\<lambda>s. if b \<le> s \<and> s < b + n then take 512 (drop ((s - b) * 512) c) else g s)"
  shows "concat (map f [b..<b + n]) = c"
proof -
  have "map f [b..<b + n] = map (\<lambda>k. take 512 (drop (k * 512) c)) [0..<n]"
    using assms(2) by (auto simp: map_equality_iff)
  then show ?thesis using concat_sectors [of c n] assms(1) by simp
qed

lemma read_meta_disk:
  fixes m :: "(disk, 'm) ata_machine_scheme"
  shows "disk_ok m \<Longrightarrow> unat VFS_META_LBA + i + n \<le> disk_count m \<Longrightarrow> (i + n) * 512 \<le> length all \<Longrightarrow>
    \<exists>m'. read_meta disk_hw i n all m = ((True, take (i * 512) all
        @ concat (map (disk_sector m) [unat VFS_META_LBA + i..<unat VFS_META_LBA + i + n]) @ drop ((i + n) * 512) all), m')
      \<and> disk_ok m' \<and> disk_count m' = disk_count m \<and> disk_sector m' = disk_sector m \<and> disk_io m m'"
proof (induction n arbitrary: i m all)
  case 0
  then show ?case by (auto simp: disk_io_refl)
next
  case (Suc n)
  let ?s = "disk_sector m (unat VFS_META_LBA + i)"
  have a: "unat (VFS_META_LBA + of_nat i) = unat VFS_META_LBA + i"
    using Suc.prems(2) disk_ok_small [OF Suc.prems(1)] by (intro unat_lba) simp
  obtain m1 where m1: "run_state (ata_read28 disk_hw (VFS_META_LBA + of_nat i) (Some (take 512 (drop (i * 512) all)))) m
      = ((0, Some ?s), m1)" "disk_ok m1" "disk_sector m1 = disk_sector m" "disk_count m1 = disk_count m"
    using ata_disk.read_sector [OF Suc.prems(1), of "VFS_META_LBA + of_nat i" "take 512 (drop (i * 512) all)"]
      Suc.prems(2,3) a by auto
  have io: "disk_io m m1"
    using disk_io_transfer [of m disk_hw "VFS_META_LBA + of_nat i" "Some (take 512 (drop (i * 512) all))" False] m1(1)
    by (simp add: ata_read28_def)
  define all' where "all' = take (i * 512) all @ ?s @ drop ((i + 1) * 512) all"
  have s: "length ?s = 512" using ata_disk.sector_length [OF Suc.prems(1)] .
  have len: "length all' = length all" and tk: "take ((i + 1) * 512) all' = take (i * 512) all @ ?s"
    and dr: "drop ((i + 1 + n) * 512) all' = drop ((i + Suc n) * 512) all"
    using s Suc.prems(3) by (simp_all add: all'_def add.commute add.left_commute)
  obtain m' where m': "read_meta disk_hw (i + 1) n all' m1 = ((True, take ((i + 1) * 512) all'
        @ concat (map (disk_sector m1) [unat VFS_META_LBA + (i + 1)..<unat VFS_META_LBA + (i + 1) + n])
        @ drop ((i + 1 + n) * 512) all'), m')"
      "disk_ok m'" "disk_count m' = disk_count m1" "disk_sector m' = disk_sector m1" "disk_io m1 m'"
    using Suc.IH [OF m1(2), of "i + 1" all'] Suc.prems(2,3) m1(4) len by auto
  have step: "read_meta disk_hw i (Suc n) all m = read_meta disk_hw (i + 1) n all' m1"
    using m1(1) by (simp add: all'_def)
  have range: "[unat VFS_META_LBA + i..<unat VFS_META_LBA + i + Suc n]
      = (unat VFS_META_LBA + i) # [unat VFS_META_LBA + (i + 1)..<unat VFS_META_LBA + (i + 1) + n]"
    by (simp add: upt_conv_Cons del: upt_Suc)
  have "read_meta disk_hw i (Suc n) all m = ((True, take (i * 512) all
        @ concat (map (disk_sector m) [unat VFS_META_LBA + i..<unat VFS_META_LBA + i + Suc n])
        @ drop ((i + Suc n) * 512) all), m')"
    unfolding step m'(1) tk dr range m1(3) by simp
  then show ?case
    using m'(2-5) m1(3,4) disk_io_trans [OF io] by auto
qed

section \<open>Mounting\<close>

abbreviation meta_sectors :: "(disk, 'm) ata_machine_scheme \<Rightarrow> u8 list" where
  "meta_sectors m \<equiv> concat (map (disk_sector m) [unat VFS_META_LBA..<unat VFS_META_LBA + 8])"

lemma disk_ok_fields [simp]:
  fixes m :: "(disk, 'm) vfs_machine_scheme"
  shows "disk_ok (m\<lparr>generation := g\<rparr>) = disk_ok m" "disk_ok (m\<lparr>records := r\<rparr>) = disk_ok m"
    "disk_ok (m\<lparr>contents := c\<rparr>) = disk_ok m" "disk_ok (m\<lparr>klog := k\<rparr>) = disk_ok m" "disk_ok (m\<lparr>disk_backed := b\<rparr>) = disk_ok m"
    "disk_count (m\<lparr>generation := g\<rparr>) = disk_count m" "disk_count (m\<lparr>records := r\<rparr>) = disk_count m"
    "disk_count (m\<lparr>contents := c\<rparr>) = disk_count m" "disk_count (m\<lparr>klog := k\<rparr>) = disk_count m"
    "disk_count (m\<lparr>disk_backed := b\<rparr>) = disk_count m"
    "disk_sector (m\<lparr>generation := g\<rparr>) = disk_sector m" "disk_sector (m\<lparr>records := r\<rparr>) = disk_sector m"
    "disk_sector (m\<lparr>contents := c\<rparr>) = disk_sector m" "disk_sector (m\<lparr>klog := k\<rparr>) = disk_sector m"
    "disk_sector (m\<lparr>disk_backed := b\<rparr>) = disk_sector m"
  by (simp_all add: disk_ok_def disk_count_def disk_sector_def)

lemma persist_disk:
  fixes m :: "(disk, 'm) vfs_machine_scheme"
  assumes "disk_ok m" and "disk_backed m" and "table_ok (records m)" and "unat VFS_META_LBA + 8 \<le> disk_count m"
  shows "\<exists>m'. persist disk_hw m = (0, m') \<and> disk_ok m' \<and> disk_count m' = disk_count m \<and> records m' = records m
    \<and> contents m' = contents m \<and> generation m' = generation m + 1 \<and> disk_backed m'
    \<and> meta_sectors m' = metadata_image (generation m + 1) (records m)
    \<and> (\<forall>s. s < unat VFS_META_LBA \<or> unat VFS_META_LBA + 8 \<le> s \<longrightarrow> disk_sector m' s = disk_sector m s)"
proof -
  define m1 where "m1 = m\<lparr>generation := generation m + 1\<rparr>"
  let ?c = "metadata_image (generation m + 1) (records m)"
  note len = image_prefix(2) [OF assms(3), of "generation m + 1"]
  have ok: "disk_ok m1" "unat VFS_META_LBA + 0 + 8 \<le> disk_count m1" "(0 + 8) * 512 \<le> length ?c"
    using assms len by (simp_all add: m1_def)
  from store_file_disk [OF this] obtain m' where
    m': "store_file disk_hw VFS_META_LBA ?c 0 8 m1 = (0, m')" "disk_ok m'" "disk_count m' = disk_count m1"
      "disk_sector m' = (\<lambda>s. if unat VFS_META_LBA \<le> s \<and> s < unat VFS_META_LBA + 8
            then take 512 (drop ((s - unat VFS_META_LBA) * 512) ?c) else disk_sector m1 s)"
    by auto
  have io: "disk_io m1 m'" using disk_io_store_file [of m1 disk_hw VFS_META_LBA ?c 0 8] m'(1) by simp
  have "meta_sectors m' = ?c" using len by (intro sectors_of_store [OF _ m'(4)]) simp
  moreover have "persist disk_hw m = (0, m')"
    using assms(2) m'(1) by (simp add: persist_def Let_def m1_def write_meta_store_file)
  ultimately show ?thesis
    using m'(2,3,4) disk_io_keeps(1-4) [OF io] assms(2) by (auto simp: m1_def)
qed

lemma from_le32_take: "4 \<le> n \<Longrightarrow> from_le32 (take n b) = from_le32 b"
  by (simp add: from_le32_def)

lemma load_metadata_disk:
  fixes m :: "(disk, 'm) vfs_machine_scheme"
  assumes "disk_ok m" and "disk_backed m" and "table_ok recs" and "unat VFS_META_LBA + 8 \<le> disk_count m"
    and image: "meta_sectors m = metadata_image g recs"
  shows "\<exists>m'. load_metadata disk_hw m = (True, m'\<lparr>records := recs, generation := g\<rparr>)
    \<and> disk_ok m' \<and> disk_count m' = disk_count m \<and> disk_sector m' = disk_sector m \<and> disk_io m m'"
proof -
  let ?s = "disk_sector m (unat VFS_META_LBA)"
  note sl = ata_disk.sector_length [OF assms(1)]
  have "take 512 (meta_sectors m) = ?s" using sl by (simp add: upt_conv_Cons)
  then have "from_le32 ?s = from_le32 (metadata_image g recs)" using from_le32_take [of 512 "meta_sectors m"] image by simp
  then have magic: "from_le32 ?s = VFS_MAGIC" using records_of_metadata_image(2) [OF assms(3)] by simp
  obtain m1 where m1: "run_state (ata_read28 disk_hw VFS_META_LBA (Some (replicate 512 0))) m = ((0, Some ?s), m1)"
      "disk_ok m1" "disk_sector m1 = disk_sector m" "disk_count m1 = disk_count m"
    using ata_disk.read_sector [OF assms(1), of VFS_META_LBA "replicate 512 0"] assms(4) by auto
  have io: "disk_io m m1"
    using disk_io_transfer [of m disk_hw VFS_META_LBA "Some (replicate 512 0)" False] m1(1) by (simp add: ata_read28_def)
  have "unat VFS_META_LBA + 0 + 8 \<le> disk_count m1" "(0 + 8) * 512 \<le> length (replicate 4096 (0 :: u8))"
    using assms(4) m1(4) by simp_all
  from read_meta_disk [OF m1(2) this] obtain m2 where m2:
      "read_meta disk_hw 0 8 (replicate 4096 0) m1 = ((True, meta_sectors m1), m2)"
      "disk_ok m2" "disk_count m2 = disk_count m1" "disk_sector m2 = disk_sector m1" "disk_io m1 m2"
    by auto
  have "load_metadata disk_hw m = (True, m2\<lparr>records := recs, generation := g\<rparr>)"
    using assms(2) m1(1) m2(1) magic image m1(3) records_of_metadata_image [OF assms(3), of g]
    by (simp add: load_metadata_def del: read_meta.simps)
  then show ?thesis using m2 m1 disk_io_trans [OF io] by auto
qed

lemma log_records_disk:
  "table_ok (records m) \<Longrightarrow> set is \<subseteq> {..<VFS_FILE_MAX} \<Longrightarrow> \<exists>k. log_records is m = Some (m\<lparr>klog := k\<rparr>)"
proof (induction "is" arbitrary: m)
  case Nil
  then show ?case by (intro exI [of _ "klog m"]) simp
next
  case (Cons i "is")
  have "CHR 0x00 \<in> set (v_name (records m ! i))"
    using Cons.prems by (simp add: table_ok_def)
  then have "cstr (v_name (records m ! i)) = Some (rname (records m ! i))" by (rule cstr_rname)
  moreover have "\<exists>k'. log_records is (m\<lparr>klog := k\<rparr>) = Some (m\<lparr>klog := k'\<rparr>)" for k
    using Cons.IH [of "m\<lparr>klog := k\<rparr>"] Cons.prems by auto
  ultimately show ?case
    using Cons.IH [of m] Cons.prems by (simp add: Let_def run_log_fmt)
qed

lemma vfs_init_disk:
  fixes m :: "(disk, 'm) vfs_machine_scheme"
  assumes "disk_ok m" and "table_ok recs" and "unat VFS_META_LBA + 8 \<le> disk_count m"
    and "meta_sectors m = metadata_image g recs"
  shows "\<exists>m'. vfs_init disk_hw m = Some (0, m') \<and> disk_ok m' \<and> disk_count m' = disk_count m \<and> records m' = recs
    \<and> contents m' = contents m \<and> generation m' = g + 1 \<and> disk_backed m'
    \<and> meta_sectors m' = metadata_image (g + 1) recs
    \<and> (\<forall>s. s < unat VFS_META_LBA \<or> unat VFS_META_LBA + 8 \<le> s \<longrightarrow> disk_sector m' s = disk_sector m s)"
proof -
  define m0 where "m0 = m\<lparr>records := (replicate VFS_FILE_MAX zero_record)[0 := root_record], generation := 0, disk_backed := True\<rparr>"
  have p: "present m" using assms(1) by (simp add: disk_ok_def)
  obtain m1 where m1: "load_metadata disk_hw m0 = (True, m1\<lparr>records := recs, generation := g\<rparr>)"
    "disk_ok m1" "disk_count m1 = disk_count m0" "disk_sector m1 = disk_sector m0" "disk_io m0 m1"
    using load_metadata_disk [of m0 recs g] assms by (auto simp: m0_def)
  define m2 where "m2 = snd (run_state (log_fmt (''[MinOS VFS] metadata %s, generation=%u'' @ [CHR 0x0A])
      [Str (Some ''loaded''), Num (ucast g)]) (m1\<lparr>records := recs, generation := g\<rparr>))"
  have m2: "records m2 = recs" "generation m2 = g" "disk_ok m2" "disk_count m2 = disk_count m" "disk_sector m2 = disk_sector m"
      "disk_backed m2" "contents m2 = contents m"
    using m1(2-4) disk_io_keeps(2,4) [OF m1(5)] by (simp_all add: m2_def m0_def run_log_fmt)
  have t: "table_ok (records m2)" "set [1..<VFS_FILE_MAX] \<subseteq> {..<VFS_FILE_MAX}" using m2(1) assms(2) by auto
  obtain k where k: "log_records [1..<VFS_FILE_MAX] m2 = Some (m2\<lparr>klog := k\<rparr>)"
    using log_records_disk [OF t] by blast
  define m3 where "m3 = m2\<lparr>klog := k @ ''[MinOS VFS] mounted persistent metadata filesystem at /.'' @ [CHR 0x0A]\<rparr>"
  have "vfs_init disk_hw m = Some (persist disk_hw m3)"
    unfolding vfs_init_def Let_def ata_primary_master_present_def using p m1(1) m2_def k
    by (simp add: m0_def [symmetric] m3_def run_log_text)
  moreover have "records m3 = recs" "generation m3 = g" "disk_ok m3" "disk_count m3 = disk_count m" "disk_sector m3 = disk_sector m"
      "disk_backed m3" "contents m3 = contents m"
    using m2 by (simp_all add: m3_def)
  ultimately show ?thesis
    using persist_disk [of m3] assms(2,3) by auto
qed

section \<open>Commands on a disk\<close>

text \<open>
  A mounted file system: the disk of \<^verbatim>\<open>tools/mkdisk.py\<close> with 65536 sectors, its metadata that of
  the table in memory, and the place of each file the one its slot gives.
\<close>

definition slots_ok :: "vfs_record list \<Rightarrow> bool" where
  "slots_ok recs \<longleftrightarrow> (\<forall>i. live recs i \<and> 0 < i \<longrightarrow> v_data_lba (recs ! i) = VFS_DATA_LBA + of_nat i * 8)"

definition mounted :: "(disk, 'm) vfs_machine_scheme \<Rightarrow> bool" where
  "mounted m \<longleftrightarrow> disk_ok m \<and> disk_count m = 65536 \<and> disk_backed m \<and> table_ok (records m) \<and> slots_ok (records m)
     \<and> meta_sectors m = metadata_image (generation m) (records m)"

lemma table_ok_update:
  assumes "table_ok recs" and "length (v_name r) = 32" and "CHR 0x00 \<in> set (v_name r)"
  shows "table_ok (recs[i := r])"
  using assms set_update_subset_insert [of recs i r] by (auto simp: table_ok_def)

lemma table_ok_new_record:
  assumes "table_ok recs"
  shows "table_ok (recs[i := new_record j p x ty])"
proof (rule table_ok_update [OF assms])
  show "length (v_name (new_record j p x ty)) = 32" "CHR 0x00 \<in> set (v_name (new_record j p x ty))"
    by (auto simp: new_record_def copy_def Let_def zero_record_def)
qed

lemma table_ok_mark:
  assumes "table_ok recs"
  shows "table_ok (recs[i := (recs ! i)\<lparr>v_used := u\<rparr>])" "table_ok (recs[i := (recs ! i)\<lparr>v_size := n\<rparr>])"
proof -
  have "length (v_name (recs ! i)) = 32 \<and> CHR 0x00 \<in> set (v_name (recs ! i))" if "i < length recs"
    using assms that by (simp add: table_ok_def)
  then show "table_ok (recs[i := (recs ! i)\<lparr>v_used := u\<rparr>])" "table_ok (recs[i := (recs ! i)\<lparr>v_size := n\<rparr>])"
    using assms by (cases "i < length recs"; simp add: table_ok_update list_update_beyond)+
qed

lemma slots_ok_update:
  assumes "slots_ok recs" and "length recs = VFS_FILE_MAX"
    and "v_used r \<noteq> 0 \<Longrightarrow> live recs i \<or> v_data_lba r = VFS_DATA_LBA + of_nat i * 8"
    and "live recs i \<Longrightarrow> v_data_lba r = v_data_lba (recs ! i)"
  shows "slots_ok (recs[i := r])"
  unfolding slots_ok_def
proof (intro allI impI)
  fix k
  assume k: "live (recs[i := r]) k \<and> 0 < k"
  then have "k < length recs" using assms(2) by (simp add: live_def)
  then show "v_data_lba (recs[i := r] ! k) = VFS_DATA_LBA + of_nat k * 8"
    using k assms unfolding slots_ok_def by (cases "k = i") (auto simp: live_def)
qed

text \<open>A command other than a write answers without effect or persists a new table.\<close>

definition meta_op :: "fs_op \<Rightarrow> bool" where
  "meta_op c = (case c of Put p d app \<Rightarrow> False | _ \<Rightarrow> True)"

definition saved :: "'d hw \<Rightarrow> ('d, 'm) vfs_machine_scheme \<Rightarrow> int \<times> ('d, 'm) vfs_machine_scheme \<Rightarrow> bool" where
  "saved hw m a \<longleftrightarrow> (\<exists>r. table_ok r \<and> slots_ok r \<and> a = persist hw (m\<lparr>records := r\<rparr>))"

lemma saved_create:
  assumes "table_ok (records m)" and "slots_ok (records m)" and j: "free_slot (records m) = Some j"
  shows "saved hw m (persist hw (m\<lparr>records := (records m)[j := new_record j q x ty]\<rparr>))"
proof -
  have "length (records m) = VFS_FILE_MAX" using assms(1) by (simp add: table_ok_def)
  then have "slots_ok ((records m)[j := new_record j q x ty])"
    using free_slot_not_live(2) [OF j] by (intro slots_ok_update assms(2)) (auto simp: new_record_def)
  then show ?thesis
    using table_ok_new_record [OF assms(1)] unfolding saved_def by blast
qed

lemma saved_mark:
  assumes "table_ok (records m)" and "slots_ok (records m)"
  shows "saved hw m (persist hw (mark_unused n m))"
proof -
  have "length (records m) = VFS_FILE_MAX" using assms(1) by (simp add: table_ok_def)
  then have "slots_ok ((records m)[n := (records m ! n)\<lparr>v_used := 0\<rparr>])"
    by (intro slots_ok_update assms(2)) auto
  then show ?thesis
    using table_ok_mark(1) [OF assms(1)] unfolding saved_def mark_unused_def by blast
qed

lemma fs_step_table:
  assumes "meta_op c" and "fs_step hw c m = Some a" and "table_ok (records m)" and "slots_ok (records m)"
  defines "m0 \<equiv> m\<lparr>disk_backed := False\<rparr>"
  shows "a = (-1, m) \<and> fs_step hw c m0 = Some (-1, m0) \<or> a = (0, m) \<or> saved hw m a"
proof -
  note saved = saved_create [OF assms(3,4)] saved_mark [OF assms(3,4)]
  have create: "a = (-1, m) \<and> create hw p ty m0 = Some (-1, m0) \<or> saved hw m a"
    if "create hw p ty m = Some a" for p ty
    using that saved by (auto simp: create_def m0_def split: if_splits option.splits Option.bind_splits prod.splits)
  show ?thesis
  proof (cases c)
    case (Mkdir p)
    then show ?thesis using create assms(2) by (auto simp: vfs_mkdir_def)
  next
    case (Touch p)
    then show ?thesis
      using create [of "Some p" VFS_FILE] assms(2) by (auto simp: vfs_touch_def m0_def split: if_splits Option.bind_splits)
  next
    case (Rmdir p)
    then show ?thesis using saved assms(2) by (auto simp: vfs_rmdir_def m0_def split: if_splits Option.bind_splits)
  next
    case (Remove p)
    then show ?thesis using saved assms(2) by (auto simp: vfs_remove_def m0_def split: if_splits Option.bind_splits)
  next
    case (Put p d app)
    then show ?thesis using assms(1) by (simp add: meta_op_def)
  qed
qed

lemma persist_mounted:
  fixes m :: "(disk, 'm) vfs_machine_scheme"
  assumes "disk_ok m" "disk_count m = 65536" "disk_backed m" "table_ok (records m)" "slots_ok (records m)"
  shows "\<exists>m'. persist disk_hw m = (0, m') \<and> mounted m' \<and> records m' = records m \<and> contents m' = contents m
    \<and> (\<forall>s. s < unat VFS_META_LBA \<or> unat VFS_META_LBA + 8 \<le> s \<longrightarrow> disk_sector m' s = disk_sector m s)"
proof -
  have "unat VFS_META_LBA + 8 \<le> disk_count m" using assms(2) by (simp add: vfs_lbas)
  then show ?thesis
    using persist_disk [OF assms(1,3,4)] assms(2,4,5) by (auto simp: mounted_def)
qed

interpretation vfs_disk_store: command_store "fs_step disk_hw" tree_spec "\<lambda>m T. represents (records m) T \<and> mounted m"
  "\<lambda>c. good_path (fs_path c) \<and> meta_op c" "\<lambda>m. True"
proof
  fix m :: "(disk, 'b) vfs_machine_scheme" and T c
  assume r: "represents (records m) T \<and> mounted m" and c: "good_path (fs_path c) \<and> meta_op c"
  then have a: "answers m (fs_step disk_hw c m) (tree_spec c T)"
    unfolding tree_spec_def by (intro fs_step_answers) auto
  show "tree_spec c T = None \<Longrightarrow> fs_step disk_hw c m = Some (-1, m)"
    using a by (simp add: answers_def)
  fix T'
  assume spec: "tree_spec c T = Some T'"
  then obtain rc m' where m': "fs_step disk_hw c m = Some (rc, m')" "represents (records m') T'"
    using a by (auto simp: answers_def)
  have "answers (m\<lparr>disk_backed := False\<rparr>) (fs_step disk_hw c (m\<lparr>disk_backed := False\<rparr>)) (tree_spec c T)"
    unfolding tree_spec_def using r c by (intro fs_step_answers) auto
  then have "fs_step disk_hw c (m\<lparr>disk_backed := False\<rparr>) \<noteq> Some (-1, m\<lparr>disk_backed := False\<rparr>)"
    using spec by (auto simp: answers_def)
  then consider "(rc, m') = (0, m)" | "saved disk_hw m (rc, m')"
    using fs_step_table [OF _ m'(1)] r c by (auto simp: mounted_def)
  then have "rc = 0 \<and> mounted m'"
  proof cases
    case 1
    then show ?thesis using r by simp
  next
    case 2
    then obtain t where t: "table_ok t" "slots_ok t" "(rc, m') = persist disk_hw (m\<lparr>records := t\<rparr>)"
      by (auto simp: saved_def)
    then show ?thesis using persist_mounted [of "m\<lparr>records := t\<rparr>"] r by (auto simp: mounted_def)
  qed
  then show "\<exists>rc m'. fs_step disk_hw c m = Some (rc, m') \<and> (represents (records m') T' \<and> mounted m') \<and> (True \<longrightarrow> rc = 0 \<and> True)"
    using m' by blast
qed

section \<open>File contents\<close>

lemma load_file_disk:
  fixes m :: "(disk, 'm) vfs_machine_scheme"
  shows "disk_ok m \<Longrightarrow> unat lba + i + n \<le> disk_count m \<Longrightarrow> k < length (contents m) \<Longrightarrow>
    (i + n) * 512 \<le> length (contents m ! k) \<Longrightarrow>
    \<exists>m'. load_file disk_hw lba k i n m = (0, m') \<and> records m' = records m
      \<and> contents m' = (contents m)[k := take (i * 512) (contents m ! k)
          @ concat (map (disk_sector m) [unat lba + i..<unat lba + i + n]) @ drop ((i + n) * 512) (contents m ! k)]"
proof (induction n arbitrary: i m)
  case 0
  then show ?case by simp
next
  case (Suc n)
  let ?s = "disk_sector m (unat lba + i)" and ?c = "contents m ! k"
  have a: "unat (lba + of_nat i) = unat lba + i"
    using Suc.prems(2) disk_ok_small [OF Suc.prems(1)] by (intro unat_lba) simp
  obtain m1 where m1: "run_state (ata_read28 disk_hw (lba + of_nat i) (Some (replicate 512 0))) m = ((0, Some ?s), m1)"
      "disk_ok m1" "disk_sector m1 = disk_sector m" "disk_count m1 = disk_count m"
    using ata_disk.read_sector [OF Suc.prems(1), of "lba + of_nat i" "replicate 512 0"] Suc.prems(2) a by auto
  have io: "disk_io m m1"
    using disk_io_transfer [of m disk_hw "lba + of_nat i" "Some (replicate 512 0)" False] m1(1)
    by (simp add: ata_read28_def)
  note keep = disk_io_keeps(1,2) [OF io]
  define c' where "c' = overwrite (i * 512) ?s ?c"
  define m2 where "m2 = m1\<lparr>contents := (contents m1)[k := c']\<rparr>"
  have s: "length ?s = 512" using ata_disk.sector_length [OF Suc.prems(1)] .
  have len: "length c' = length ?c" and tk: "take ((i + 1) * 512) c' = take (i * 512) ?c @ ?s"
    and dr: "drop ((i + 1 + n) * 512) c' = drop ((i + Suc n) * 512) ?c"
    using s Suc.prems(4) by (simp_all add: c'_def overwrite_def add.commute add.left_commute)
  have m2: "disk_ok m2" "disk_count m2 = disk_count m" "contents m2 = (contents m)[k := c']" "records m2 = records m"
    "disk_sector m2 = disk_sector m" "contents m2 ! k = c'"
    using m1 keep Suc.prems(3) by (simp_all add: m2_def)
  obtain m' where m': "load_file disk_hw lba k (i + 1) n m2 = (0, m')" "records m' = records m2"
      "contents m' = (contents m2)[k := take ((i + 1) * 512) c'
          @ concat (map (disk_sector m2) [unat lba + (i + 1)..<unat lba + (i + 1) + n]) @ drop ((i + 1 + n) * 512) c']"
    using Suc.IH [OF m2(1), of "i + 1"] Suc.prems(2,3,4) m2 len by auto
  have step: "load_file disk_hw lba k i (Suc n) m = load_file disk_hw lba k (i + 1) n m2"
    using m1(1) keep by (simp add: m2_def c'_def)
  have range: "[unat lba + i..<unat lba + i + Suc n] = (unat lba + i) # [unat lba + (i + 1)..<unat lba + (i + 1) + n]"
    by (simp add: upt_conv_Cons del: upt_Suc)
  show ?case
    unfolding step range using m' m2 unfolding tk dr by simp
qed

lemma data_lba:
  assumes "i < 64"
  shows "unat (VFS_DATA_LBA + of_nat i * 8) = 65032 + 8 * i"
proof -
  have "unat (of_nat i * 8 :: u32) = 8 * i" using assms by (simp add: unat_word_ariths unat_of_nat)
  then show ?thesis using assms by (simp add: vfs_lbas unat_word_ariths)
qed

text \<open>A write of a whole file that has a place on the disk.\<close>

lemma vfs_write_disk:
  fixes m :: "(disk, 'm) vfs_machine_scheme"
  assumes "mounted m" and "find_path (records m) (Some p) = Some (int i)" and "v_type (records m ! i) = VFS_FILE"
    and i: "live (records m) i" "0 < i" "i < 63" and c: "length (contents m) = 64" "length (contents m ! i) = 4096"
    and d: "length d \<le> 4096"
  shows "\<exists>m'. vfs_write disk_hw (Some p) (Some d) (of_nat (length d)) False m = Some (0, m') \<and> mounted m'
    \<and> records m' = (records m)[i := (records m ! i)\<lparr>v_size := of_nat (length d)\<rparr>]
    \<and> concat (map (disk_sector m') [65032 + 8 * i..<65032 + 8 * i + 8]) = overwrite 0 (map byte_of_char d) (contents m ! i)"
proof -
  let ?n = "of_nat (length d) :: u32"
  have n: "unat ?n = length d" using d by (simp add: unat_of_nat_small)
  then have min: "?n = min ?n (VFS_CONTENT_MAX - 0)"
    using d by (simp add: vfs_lbas min_def word_le_nat_alt)
  define cs where "cs = overwrite 0 (map byte_of_char d) (contents m ! i)"
  define m1 where "m1 = m\<lparr>contents := (contents m)[i := cs], records := (records m)[i := (records m ! i)\<lparr>v_size := ?n\<rparr>]\<rparr>"
  have len: "length cs = 4096" using c(2) d by (simp add: cs_def overwrite_def)
  have mm: "disk_ok m" "disk_count m = 65536" "disk_backed m" "table_ok (records m)" "slots_ok (records m)"
    using assms(1) by (simp_all add: mounted_def)
  have rl: "length (records m) = VFS_FILE_MAX" "i < length (records m)"
    using mm(4) i(3) by (simp_all add: table_ok_def VFS_FILE_MAX_def)
  have lba: "v_data_lba (records m1 ! i) = VFS_DATA_LBA + of_nat i * 8"
    using mm(5) i(1,2) rl(2) by (simp add: m1_def slots_ok_def)
  have ul: "unat (VFS_DATA_LBA + of_nat i * 8) = 65032 + 8 * i" using i(3) by (intro data_lba) simp
  have m1: "disk_ok m1" "unat (VFS_DATA_LBA + of_nat i * 8) + 0 + 8 \<le> disk_count m1" "(0 + 8) * 512 \<le> length cs"
    using mm(1,2) ul len i(3) by (simp_all add: m1_def)
  obtain m2 where m2: "store_file disk_hw (VFS_DATA_LBA + of_nat i * 8) cs 0 8 m1 = (0, m2)" "disk_ok m2"
      "disk_count m2 = disk_count m1"
      "disk_sector m2 = (\<lambda>s. if 65032 + 8 * i \<le> s \<and> s < 65032 + 8 * i + 8
            then take 512 (drop ((s - (65032 + 8 * i)) * 512) cs) else disk_sector m1 s)"
    using store_file_disk [OF m1] unfolding ul add_0_right by blast
  have io: "disk_io m1 m2" using disk_io_store_file [of m1 disk_hw "VFS_DATA_LBA + of_nat i * 8" cs 0 8] m2(1) by simp
  have k2: "records m2 = (records m)[i := (records m ! i)\<lparr>v_size := ?n\<rparr>]" "disk_backed m2"
    using disk_io_keeps(1,4) [OF io] mm(3) by (simp_all add: m1_def)
  have "table_ok (records m2)" "slots_ok (records m2)"
    using table_ok_mark(2) [OF mm(4)] slots_ok_update [OF mm(5) rl(1)] i(1) unfolding k2 by auto
  then obtain m' where m': "persist disk_hw m2 = (0, m')" "mounted m'" "records m' = records m2"
      "\<And>s. s < unat VFS_META_LBA \<or> unat VFS_META_LBA + 8 \<le> s \<Longrightarrow> disk_sector m' s = disk_sector m2 s"
    using persist_mounted [OF m2(2) _ k2(2)] m2(3) mm(2) by (auto simp: m1_def)
  have "concat (map (disk_sector m') [65032 + 8 * i..<65032 + 8 * i + 8])
      = concat (map (disk_sector m2) [65032 + 8 * i..<65032 + 8 * i + 8])"
    using m'(4) by (intro arg_cong [of _ _ concat] map_cong) (auto simp: vfs_lbas)
  also have "\<dots> = cs" using len by (intro sectors_of_store [OF _ m2(4)]) simp
  finally have "concat (map (disk_sector m') [65032 + 8 * i..<65032 + 8 * i + 8]) = cs" .
  moreover have "vfs_write disk_hw (Some p) (Some d) ?n False m = Some (0, m')"
  proof -
    have e: "m1 = m\<lparr>contents := (contents m)[i := overwrite (unat (0 :: u32)) (map byte_of_char (take (unat ?n) d)) (contents m ! i)],
        records := (records m)[i := (records m ! i)\<lparr>v_size := 0 + ?n\<rparr>]\<rparr>"
      using n by (simp add: m1_def cs_def)
    have "(0, m2) = (if disk_backed m1 then store_file disk_hw (v_data_lba (records m1 ! i)) (contents m1 ! i) 0 8 m1 else (0, m1))"
      using m2(1) lba mm(3) c(1) i(3) by (simp add: m1_def)
    from vfs_write_run [OF assms(2,3) _ min e this, of False] show ?thesis
      using m'(1) n by (simp add: vfs_lbas)
  qed
  ultimately show ?thesis using m'(2,3) k2(1) by (auto simp: cs_def)
qed

section \<open>Rebooting\<close>

text \<open>
  A machine after a reboot with the same disk: the driver has found the drive, its sectors
  are those of before; memory and log are arbitrary.
\<close>

definition rebooted :: "(disk, 'm) vfs_machine_scheme \<Rightarrow> (disk, 'm) vfs_machine_scheme \<Rightarrow> bool" where
  "rebooted m m' \<longleftrightarrow> disk_ok m' \<and> disk_sector m' = disk_sector m \<and> disk_count m' = disk_count m"

lemma mounted_reboot:
  assumes "mounted m" and "rebooted m m'"
  shows "\<exists>m3. vfs_init disk_hw m' = Some (0, m3) \<and> mounted m3 \<and> records m3 = records m \<and> contents m3 = contents m'
    \<and> generation m3 = generation m + 1
    \<and> (\<forall>s. s < unat VFS_META_LBA \<or> unat VFS_META_LBA + 8 \<le> s \<longrightarrow> disk_sector m3 s = disk_sector m s)"
proof -
  have "unat VFS_META_LBA + 8 \<le> disk_count m'" using assms by (simp add: rebooted_def mounted_def vfs_lbas)
  then show ?thesis
    using vfs_init_disk [of m' "records m" "generation m"] assms by (auto simp: rebooted_def mounted_def)
qed

section \<open>Properties\<close>

text \<open>
  C10: the tree survives a reboot.  On a mounted disk any sequence of \<^verbatim>\<open>mkdir\<close>, \<^verbatim>\<open>touch\<close>, \<^verbatim>\<open>rmdir\<close> and \<^verbatim>\<open>rm\<close>
  answers as the specification does, and a machine that boots with the disk it leaves mounts
  exactly the same tree, with all names, types and sizes.
\<close>

theorem vfs_survives_reboot:
  assumes "represents (records m) T" and "mounted m"
    and "list_all (\<lambda>c. good_path (fs_path c) \<and> meta_op c) cs"
  shows "\<exists>m'. run_ops (fs_step disk_hw) cs m = Some (fst (run_spec tree_spec cs T), m') \<and> mounted m'
    \<and> (\<forall>m2. rebooted m' m2 \<longrightarrow> (\<exists>m3. vfs_init disk_hw m2 = Some (0, m3) \<and> mounted m3
          \<and> represents (records m3) (snd (run_spec tree_spec cs T))))"
proof -
  obtain m' where "run_ops (fs_step disk_hw) cs m = Some (fst (run_spec tree_spec cs T), m')"
      "represents (records m') (snd (run_spec tree_spec cs T))" "mounted m'"
    using vfs_disk_store.run_refines [of m T cs] assms by blast
  then show ?thesis using mounted_reboot by metis
qed

text \<open>A disk that holds a table.\<close>

definition stored_vfs :: "vfs_record list \<Rightarrow> disk vfs_machine" where
  "stored_vfs recs = idle_vfs\<lparr>dev := sample_disk\<lparr>d_count := 65536, d_data := (\<lambda>s. if 65024 \<le> s \<and> s < 65024 + 8
       then take 512 (drop ((s - 65024) * 512) (metadata_image 1 recs)) else replicate 512 0)\<rparr>,
     present := True, sector_count := 65536, records := recs, generation := 1, disk_backed := True\<rparr>"

lemma stored_mounted:
  assumes "table_ok recs" and "slots_ok recs"
  shows "mounted (stored_vfs recs)"
proof -
  have len: "length (metadata_image 1 recs) = 8 * 512" using image_prefix(2) [OF assms(1), of 1] by simp
  have "length (take 512 (drop ((s - 65024) * 512) (metadata_image 1 recs))) = 512" if "s < 65032" for s
    using that len by (auto simp: min_def)
  then have "disk_ok (stored_vfs recs)" by (auto simp: disk_ok_def stored_vfs_def sample_disk_def)
  moreover have "meta_sectors (stored_vfs recs) = metadata_image 1 recs"
  proof -
    have "unat VFS_META_LBA = 65024" by (simp add: vfs_lbas)
    then show ?thesis
      using sectors_of_store [OF len, of "disk_sector (stored_vfs recs)" 65024]
      by (simp add: disk_sector_def stored_vfs_def)
  qed
  ultimately show ?thesis
    using assms by (simp add: mounted_def stored_vfs_def disk_count_def)
qed

lemma fresh_table: "table_ok fresh_records" "slots_ok fresh_records"
proof -
  have "\<forall>r \<in> set fresh_records. r = root_record \<or> r = zero_record"
    using set_update_subset_insert [of "replicate VFS_FILE_MAX zero_record" 0 root_record]
    by (auto simp: fresh_records_def)
  moreover have "length (v_name root_record) = 32" "CHR 0x00 \<in> set (v_name root_record)"
      "length (v_name zero_record) = 32" "CHR 0x00 \<in> set (v_name zero_record)"
    by (auto simp: root_record_def zero_record_def copy_def)
  ultimately show "table_ok fresh_records" by (auto simp: table_ok_def fresh_records_def)
  show "slots_ok fresh_records" by (simp add: slots_ok_def fresh_live)
qed

lemma mounted_rebooted: "mounted m \<Longrightarrow> rebooted m (m\<lparr>contents := c\<rparr>)"
  by (simp add: rebooted_def mounted_def)

theorem vfs_survives_reboot_witness:
  "\<exists>m' m3. run_ops (fs_step disk_hw) [Mkdir ''/a'', Touch ''/a/b'', Rmdir ''/a''] (stored_vfs fresh_records) = Some ([0, 0, -1], m')
    \<and> vfs_init disk_hw (m'\<lparr>contents := []\<rparr>) = Some (0, m3)
    \<and> represents (records m3) [[] \<mapsto> (VFS_DIRECTORY, 0), [''a''] \<mapsto> (VFS_DIRECTORY, 0), [''a'', ''b''] \<mapsto> (VFS_FILE, 0)]"
proof -
  let ?cs = "[Mkdir ''/a'', Touch ''/a/b'', Rmdir ''/a'']"
  have "represents (records (stored_vfs fresh_records)) empty_tree" by (simp add: stored_vfs_def fresh_represents)
  moreover have "list_all (\<lambda>c. good_path (fs_path c) \<and> meta_op c) ?cs" by (simp add: sample_parts meta_op_def)
  ultimately obtain m' where m': "run_ops (fs_step disk_hw) ?cs (stored_vfs fresh_records) = Some ([0, 0, -1], m')" "mounted m'"
      "\<forall>m2. rebooted m' m2 \<longrightarrow> (\<exists>m3. vfs_init disk_hw m2 = Some (0, m3) \<and> mounted m3 \<and> represents (records m3)
         [[] \<mapsto> (VFS_DIRECTORY, 0), [''a''] \<mapsto> (VFS_DIRECTORY, 0), [''a'', ''b''] \<mapsto> (VFS_FILE, 0)])"
    using vfs_survives_reboot [OF _ stored_mounted [OF fresh_table], of empty_tree ?cs] unfolding sample_tree fst_conv snd_conv
    by blast
  then show ?thesis using mounted_rebooted [OF m'(2), of "[]"] by blast
qed

text \<open>Reading a file of the disk whose sectors start with the text \<open>d\<close>.\<close>

lemma vfs_read_disk:
  fixes m :: "(disk, 'm) vfs_machine_scheme"
  assumes "mounted m" and "find_path (records m) (Some p) = Some (int i)" and i: "i < 63"
    and r: "v_type (records m ! i) = VFS_FILE" "v_size (records m ! i) = of_nat (length d)"
      "v_data_lba (records m ! i) = VFS_DATA_LBA + of_nat i * 8"
    and c: "length (contents m) = 64" "length (contents m ! i) = 4096" and d: "length d \<le> 4096"
    and s: "\<exists>rest. concat (map (disk_sector m) [65032 + 8 * i..<65032 + 8 * i + 8]) = map byte_of_char d @ rest"
  shows "\<exists>m'. vfs_read disk_hw (Some p) (Some (replicate 4096 (CHR 0x00))) 4096 (Some 0) m
    = Some ((0, Some (d @ replicate (4096 - length d) (CHR 0x00)), Some (of_nat (length d))), m')"
proof -
  have ul: "unat (VFS_DATA_LBA + of_nat i * 8) = 65032 + 8 * i" using i by (intro data_lba) simp
  have pre: "disk_ok m" "unat (VFS_DATA_LBA + of_nat i * 8) + 0 + 8 \<le> disk_count m" "i < length (contents m)"
      "(0 + 8) * 512 \<le> length (contents m ! i)"
    using assms(1) c i ul by (simp_all add: mounted_def)
  obtain m' where m': "load_file disk_hw (VFS_DATA_LBA + of_nat i * 8) i 0 8 m = (0, m')" "records m' = records m"
      "contents m' ! i = concat (map (disk_sector m) [65032 + 8 * i..<65032 + 8 * i + 8])"
    using load_file_disk [OF pre] pre(3) c unfolding ul by auto
  have n: "unat (of_nat (length d) :: u32) = length d" using d by (simp add: unat_of_nat_small)
  have want: "of_nat (length d) < (4096 :: u32) \<or> length d = 4096" using n d by (auto simp: word_less_nat_alt)
  have "take (length d) (contents m' ! i) = map byte_of_char d" "length d \<le> length (contents m' ! i)"
    using s m'(3) by auto
  moreover have "disk_backed m" using assms(1) by (simp add: mounted_def)
  ultimately have "vfs_read disk_hw (Some p) (Some (replicate 4096 (CHR 0x00))) 4096 (Some 0) m
      = Some ((0, Some (overwrite 0 (map char_of_byte (map byte_of_char d)) (replicate 4096 (CHR 0x00))), Some (of_nat (length d))), m')"
    using assms(2) r m'(1,2) want n d by (auto simp: vfs_read_def)
  moreover have "overwrite 0 (map char_of_byte (map byte_of_char d)) (replicate 4096 (CHR 0x00))
      = d @ replicate (4096 - length d) (CHR 0x00)"
    by (simp add: overwrite_def comp_def)
  ultimately show ?thesis by metis
qed

text \<open>
  C11: a file survives a reboot.  On a mounted disk a file of at most 4096 bytes in one of the
  slots 1 to 62 is written with answer 0, and a machine that boots with that disk reads back
  exactly the bytes written.
\<close>

theorem vfs_file_survives_reboot:
  assumes "tree_ok (records m) P" and "mounted m" and "good_path p" and "path_parts p = Some (P i)"
    and "live (records m) i" and "0 < i" and "i < 63" and "v_type (records m ! i) = VFS_FILE"
    and "length (contents m) = 64" and "length (contents m ! i) = 4096" and "length d \<le> 4096"
  shows "\<exists>m'. vfs_write disk_hw (Some p) (Some d) (of_nat (length d)) False m = Some (0, m') \<and> mounted m'
    \<and> (\<forall>m2. rebooted m' m2 \<and> length (contents m2) = 64 \<and> length (contents m2 ! i) = 4096 \<longrightarrow>
         (\<exists>m3 m4. vfs_init disk_hw m2 = Some (0, m3)
            \<and> vfs_read disk_hw (Some p) (Some (replicate 4096 (CHR 0x00))) 4096 (Some 0) m3
              = Some ((0, Some (d @ replicate (4096 - length d) (CHR 0x00)), Some (of_nat (length d))), m4)))"
proof -
  note slot = slot_of_Some_iff [OF assms(1), THEN iffD2, OF conjI [OF assms(5) refl]]
  have f: "find_path (records m) (Some p) = Some (int i)"
    using find_path_slot [OF assms(1,3)] assms(4) slot by simp
  obtain m' where m': "vfs_write disk_hw (Some p) (Some d) (of_nat (length d)) False m = Some (0, m')" "mounted m'"
      "records m' = (records m)[i := (records m ! i)\<lparr>v_size := of_nat (length d)\<rparr>]"
      "concat (map (disk_sector m') [65032 + 8 * i..<65032 + 8 * i + 8]) = overwrite 0 (map byte_of_char d) (contents m ! i)"
    using vfs_write_disk [OF assms(2) f assms(8) assms(5-7) assms(9-11)] by blast
  have ok': "tree_ok (records m') P" unfolding m'(3) by (rule tree_ok_resize [OF assms(1)])
  have il: "i < length (records m)" using tree_ok_D(1) [OF assms(1)] assms(7) by simp
  have r': "v_type (records m' ! i) = VFS_FILE" "v_size (records m' ! i) = of_nat (length d)"
      "v_data_lba (records m' ! i) = VFS_DATA_LBA + of_nat i * 8" "live (records m') i"
    using il assms(2,5,6,8) unfolding m'(3) mounted_def slots_ok_def live_def by simp_all
  have f': "find_path (records m') (Some p) = Some (int i)"
    using find_path_slot [OF ok' assms(3)] assms(4) slot_of_Some_iff [OF ok', THEN iffD2, OF conjI [OF r'(4) refl]] by simp
  have "\<exists>m3 m4. vfs_init disk_hw m2 = Some (0, m3)
        \<and> vfs_read disk_hw (Some p) (Some (replicate 4096 (CHR 0x00))) 4096 (Some 0) m3
          = Some ((0, Some (d @ replicate (4096 - length d) (CHR 0x00)), Some (of_nat (length d))), m4)"
    if m2: "rebooted m' m2" "length (contents m2) = 64" "length (contents m2 ! i) = 4096" for m2
  proof -
    obtain m3 where m3: "vfs_init disk_hw m2 = Some (0, m3)" "mounted m3" "records m3 = records m'" "contents m3 = contents m2"
        "\<And>s. unat VFS_META_LBA + 8 \<le> s \<Longrightarrow> disk_sector m3 s = disk_sector m' s"
      using mounted_reboot [OF m'(2) m2(1)] by auto
    have "concat (map (disk_sector m3) [65032 + 8 * i..<65032 + 8 * i + 8]) = overwrite 0 (map byte_of_char d) (contents m ! i)"
      unfolding m'(4) [symmetric] by (intro arg_cong [of _ _ concat] map_cong refl m3(5)) (auto simp: vfs_lbas)
    then have "\<exists>rest. concat (map (disk_sector m3) [65032 + 8 * i..<65032 + 8 * i + 8]) = map byte_of_char d @ rest"
      by (simp add: overwrite_def)
    then show ?thesis
      using vfs_read_disk [OF m3(2) _ assms(7) _ _ _ _ _ assms(11)] m3(1,3,4) m2(2,3) f' r' by simp
  qed
  then show ?thesis using m'(1,2) by blast
qed

definition file_records :: "vfs_record list" where
  "file_records = fresh_records[1 := new_record 1 (int 0) ''f'' VFS_FILE]"

definition file_paths :: "nat \<Rightarrow> string list" where
  "file_paths = (\<lambda>i. [])(1 := [] @ [''f''])"

lemma file_records_ok:
  "tree_ok file_records file_paths" "table_ok file_records" "slots_ok file_records" "live file_records 1"
  "v_type (file_records ! 1) = VFS_FILE"
proof -
  have r: "fresh_records ! 0 = root_record" "length fresh_records = VFS_FILE_MAX"
    by (simp_all add: fresh_records_def VFS_FILE_MAX_def)
  have ok: "tree_ok fresh_records (\<lambda>i. [])"
    unfolding tree_ok_def using r by (auto simp: fresh_live root_record_def)
  show "tree_ok file_records file_paths"
    unfolding file_records_def file_paths_def
    using r by (intro tree_ok_create [OF ok])
      (auto simp: fresh_live slot_of_None_iff root_record_def proper_path_def proper_name_def render_def append_part_def
        VFS_PATH_MAX_def VFS_NAME_MAX_def VFS_FILE_MAX_def)
  show "table_ok file_records" unfolding file_records_def by (rule table_ok_new_record [OF fresh_table(1)])
  show "slots_ok file_records"
    unfolding file_records_def using r(2) by (intro slots_ok_update fresh_table) (auto simp: fresh_live new_record_def)
  show "live file_records 1" "v_type (file_records ! 1) = VFS_FILE"
    using r(2) by (simp_all add: file_records_def live_def new_record_def VFS_FILE_MAX_def)
qed

theorem vfs_file_survives_reboot_witness:
  "\<exists>m' m3 m4. vfs_write disk_hw (Some ''/f'') (Some ''hello'') 5 False (stored_vfs file_records) = Some (0, m')
    \<and> vfs_init disk_hw (m'\<lparr>contents := replicate 64 (replicate 4096 9)\<rparr>) = Some (0, m3)
    \<and> vfs_read disk_hw (Some ''/f'') (Some (replicate 4096 (CHR 0x00))) 4096 (Some 0) m3
        = Some ((0, Some (''hello'' @ replicate 4091 (CHR 0x00)), Some 5), m4)"
proof -
  have p: "good_path ''/f''" "path_parts ''/f'' = Some (file_paths 1)"
    by (simp_all add: path_parts_def is_absolute_def good_path_def VFS_PATH_MAX_def VFS_NAME_MAX_def file_paths_def)
  have c: "records (stored_vfs file_records) = file_records" "length (contents (stored_vfs file_records)) = 64"
      "length (contents (stored_vfs file_records) ! 1) = 4096" by (simp_all add: stored_vfs_def idle_vfs_def)
  note w = vfs_file_survives_reboot [of "stored_vfs file_records" file_paths "''/f''" 1 "''hello''"]
  from w obtain m' where m': "vfs_write disk_hw (Some ''/f'') (Some ''hello'') 5 False (stored_vfs file_records) = Some (0, m')" "mounted m'"
      "\<And>m2. rebooted m' m2 \<Longrightarrow> length (contents m2) = 64 \<Longrightarrow> length (contents m2 ! 1) = 4096 \<Longrightarrow>
         (\<exists>m3 m4. vfs_init disk_hw m2 = Some (0, m3)
            \<and> vfs_read disk_hw (Some ''/f'') (Some (replicate 4096 (CHR 0x00))) 4096 (Some 0) m3
              = Some ((0, Some (''hello'' @ replicate 4091 (CHR 0x00)), Some 5), m4))"
    using file_records_ok p c stored_mounted [OF file_records_ok(2,3)] by auto
  then show ?thesis
    using m'(3) [OF mounted_rebooted [OF m'(2), of "replicate 64 (replicate 4096 9)"]] by auto
qed

section \<open>Faults\<close>

text \<open>The data of slot 63 lies behind the end of the disk: a write to it fails.\<close>

lemma vfs_last_slot_unwritable:
  fixes m :: "(disk, 'm) vfs_machine_scheme"
  assumes "mounted m" and "find_path (records m) (Some p) = Some 63" and "v_type (records m ! 63) = VFS_FILE"
    and "live (records m) 63" and "length d \<le> 4096"
  shows "\<exists>m'. vfs_write disk_hw (Some p) (Some d) (of_nat (length d)) False m = Some (-1, m')"
proof -
  let ?n = "of_nat (length d) :: u32"
  have n: "unat ?n = length d" using assms(5) by (simp add: unat_of_nat_small)
  then have min: "?n = min ?n (VFS_CONTENT_MAX - 0)"
    using assms(5) by (simp add: vfs_lbas min_def word_le_nat_alt)
  define m1 where "m1 = m\<lparr>contents := (contents m)[63 := overwrite (unat (0 :: u32)) (map byte_of_char (take (unat ?n) d)) (contents m ! 63)],
      records := (records m)[63 := (records m ! 63)\<lparr>v_size := 0 + ?n\<rparr>]\<rparr>"
  have mm: "disk_ok m" "disk_count m = 65536" "disk_backed m" "length (records m) = 64" "slots_ok (records m)"
    using assms(1) by (simp_all add: mounted_def table_ok_def VFS_FILE_MAX_def)
  have "v_data_lba (records m ! 63) = VFS_DATA_LBA + of_nat 63 * 8"
    using mm(5) assms(4) by (simp add: slots_ok_def)
  then have lba: "v_data_lba (records m1 ! 63) = 65536" using mm(4) by (simp add: m1_def vfs_lbas)
  have "run_state (ata_write28 disk_hw 65536 b) m1 = (-1, m1)" for b
    using ata_disk.write_outside [of m1 65536 b] mm(1,2) by (simp add: m1_def)
  then have r: "(-1, m1) = (if disk_backed m1 then store_file disk_hw (v_data_lba (records m1 ! 63)) (contents m1 ! 63) 0 8 m1 else (0, m1))"
    using mm(3) lba by (simp add: m1_def numeral_eq_Suc)
  have f: "find_path (records m) (Some p) = Some (int 63)" using assms(2) by simp
  have "vfs_write disk_hw (Some p) (Some d) ?n False m = Some (-1, m1)"
    using vfs_write_run [OF f assms(3) _ min m1_def r, where app = False] n by (simp add: vfs_lbas)
  then show ?thesis by blast
qed

text \<open>Moving a file onto itself answers 0 and deletes it.\<close>

lemma vfs_move_onto_itself:
  assumes ok: "tree_ok (records m) P" and "\<not> disk_backed m" and p: "good_path p" "path_parts p = Some (P i)"
    and i: "live (records m) i" "v_type (records m ! i) = VFS_FILE" "v_size (records m ! i) \<le> 4096"
      "length (contents m ! i) = 4096"
  shows "\<exists>m'. vfs_move hw (Some p) (Some p) m = Some (0, m')
    \<and> vfs_stat_path (records m') (Some p) (Some st) = Some (-1, Some st)"
proof -
  let ?sz = "v_size (records m ! i)" and ?T = "tree_of (records m) P"
  have slot: "slot_of (records m) P (P i) = Some i" using slot_of_Some_iff [OF ok] i(1) by blast
  have f: "find_path (records m) (Some p) = Some (int i)" using find_path_slot [OF ok p(1)] p(2) slot by simp
  have u: "unat ?sz \<le> 4096" using i(3) by (simp add: word_le_nat_alt)
  then have lt: "?sz < 4096 \<or> ?sz = 4096" using i(3) by (simp add: order_le_less)
  define b where "b = overwrite 0 (map char_of_byte (take (unat ?sz) (contents m ! i))) (replicate 4096 (CHR 0x00))"
  have rd: "vfs_read hw (Some p) (Some (replicate 4096 (CHR 0x00))) VFS_CONTENT_MAX (Some 0) m = Some ((0, Some b, Some ?sz), m)"
    using f i(2,4) assms(2) u lt by (auto simp: vfs_read_def vfs_lbas b_def Let_def)
  have tch: "vfs_touch hw (Some p) m = Some (0, m)" using f by (simp add: vfs_touch_def)
  have min: "?sz = min ?sz (VFS_CONTENT_MAX - 0)" using i(3) by (simp add: vfs_lbas min_def)
  define m1 where "m1 = m\<lparr>contents := (contents m)[i := overwrite (unat (0 :: u32)) (map byte_of_char (take (unat ?sz) b)) (contents m ! i)],
      records := (records m)[i := (records m ! i)\<lparr>v_size := 0 + ?sz\<rparr>]\<rparr>"
  have "(0, m1) = (if disk_backed m1 then store_file hw (v_data_lba (records m1 ! i)) (contents m1 ! i) 0 8 m1 else (0, m1))"
    using assms(2) by (simp add: m1_def)
  from vfs_write_run [OF f i(2) _ min m1_def this, of False]
  have wr: "vfs_write hw (Some p) (Some b) ?sz False m = Some (0, m1)"
    using assms(2) u by (simp add: vfs_lbas b_def overwrite_def persist_keeps(4) m1_def)
  have r1: "records m1 = (records m)[i := (records m ! i)\<lparr>v_size := ?sz\<rparr>]" by (simp add: m1_def)
  have ok1: "tree_ok (records m1) P" unfolding r1 by (rule tree_ok_resize [OF ok])
  have t1: "tree_of (records m1) P = ?T(P i \<mapsto> (VFS_FILE, ?sz))"
    unfolding r1 using tree_of_resize [OF ok i(1) refl, of ?sz] i(2) by simp
  have spec: "path_parts p \<bind> (\<lambda>ps. tree_remove ps (tree_of (records m1) P)) = Some ((tree_of (records m1) P)(P i := None))"
    unfolding t1 using p(2) by (simp add: tree_remove_def tree_file_def)
  obtain m' where m': "vfs_remove hw (Some p) m1 = Some (0, m')" "represents (records m') ((tree_of (records m1) P)(P i := None))"
    using remove_answers [OF ok1 p(1), of hw] assms(2) unfolding spec by (auto simp: answers_def m1_def)
  have "vfs_move hw (Some p) (Some p) m = Some (0, m')"
    using rd tch wr m'(1) by (simp add: vfs_move_def vfs_copy_def)
  moreover have "vfs_stat_path (records m') (Some p) (Some st) = Some (-1, Some st)"
    using stat_path_tree [OF m'(2) p(1), of st] p(2) by simp
  ultimately show ?thesis by blast
qed

end
