(* ===== verification/Minos_Fb.thy ===== *)
theory Minos_Fb
  imports Minos_Boot
begin

text \<open>
  The framebuffer of \<^verbatim>\<open>kernel/framebuffer.c\<close>: pixels, rectangles, text and scrolling over the linear
  memory the firmware hands over.  The memory is a list of 32-bit pixels; a store or load
  outside it is undefined and \<^term>\<open>None\<close>.  Indices are computed as in C: with 32-bit arithmetic
  up to the row, without wrap-around along the row.
\<close>

section \<open>State\<close>

text \<open>\<open>g_fb\<close> is whether the pointer is set, \<open>pixels\<close> the memory behind it.\<close>

record fb_state =
  g_fb :: bool
  pixels :: "u32 list"
  g_width :: u32
  g_height :: u32
  g_pitch_pixels :: u32
  g_is_bgr :: u32

definition COLOR_CARD_BORDER :: u32 where "COLOR_CARD_BORDER = 0xFF2E384D"

text \<open>The rows of the glyphs from 32 on; the entry of 127 is not initialised, hence zero.\<close>

definition font_8x16_basic :: "u8 list list" where
  "font_8x16_basic =
    [[0, 0, 0, 0, 0, 0, 0, 0, 0, 0, 0, 0, 0, 0, 0, 0],
     [0, 0, 0x18, 0x3C, 0x3C, 0x3C, 0x18, 0x18, 0x18, 0, 0x18, 0x18, 0, 0, 0, 0],
     [0, 0x66, 0x66, 0x66, 0x24, 0, 0, 0, 0, 0, 0, 0, 0, 0, 0, 0],
     [0, 0, 0x6C, 0x6C, 0xFE, 0x6C, 0x6C, 0x6C, 0xFE, 0x6C, 0x6C, 0, 0, 0, 0, 0],
     [0, 0x18, 0x18, 0x7C, 0xC6, 0xC2, 0xC0, 0x78, 0x0C, 0x86, 0x86, 0x7C, 0x18, 0x18, 0, 0],
     [0, 0, 0xC6, 0xCC, 0x18, 0x30, 0x60, 0xC6, 0x8C, 0, 0, 0, 0, 0, 0, 0],
     [0, 0, 0x38, 0x6C, 0x68, 0x70, 0xDC, 0xCE, 0xC6, 0xCC, 0x76, 0, 0, 0, 0, 0],
     [0, 0x18, 0x18, 0x18, 8, 0, 0, 0, 0, 0, 0, 0, 0, 0, 0, 0],
     [0, 0x0C, 0x18, 0x30, 0x30, 0x60, 0x60, 0x60, 0x60, 0x30, 0x30, 0x18, 0x0C, 0, 0, 0],
     [0, 0x30, 0x18, 0x0C, 0x0C, 6, 6, 6, 6, 0x0C, 0x0C, 0x18, 0x30, 0, 0, 0],
     [0, 0, 0, 0x66, 0x3C, 0xFF, 0x3C, 0x66, 0, 0, 0, 0, 0, 0, 0, 0],
     [0, 0, 0, 0x18, 0x18, 0x7E, 0x18, 0x18, 0, 0, 0, 0, 0, 0, 0, 0],
     [0, 0, 0, 0, 0, 0, 0, 0, 0, 0x18, 0x18, 0x18, 8, 0x10, 0, 0],
     [0, 0, 0, 0, 0, 0, 0x7E, 0, 0, 0, 0, 0, 0, 0, 0, 0],
     [0, 0, 0, 0, 0, 0, 0, 0, 0, 0, 0x18, 0x18, 0, 0, 0, 0],
     [0, 0, 2, 6, 0x0C, 0x18, 0x30, 0x60, 0xC0, 0x80, 0, 0, 0, 0, 0, 0],
     [0, 0, 0x3C, 0x66, 0xC3, 0xE3, 0xD3, 0xCB, 0xC7, 0xC3, 0x66, 0x3C, 0, 0, 0, 0],
     [0, 0, 0x18, 0x38, 0x78, 0x18, 0x18, 0x18, 0x18, 0x18, 0x18, 0x7E, 0, 0, 0, 0],
     [0, 0, 0x7C, 0xC6, 6, 0x0C, 0x18, 0x30, 0x60, 0xC0, 0xC6, 0xFE, 0, 0, 0, 0],
     [0, 0, 0x7C, 0xC6, 6, 6, 0x3C, 6, 6, 6, 0xC6, 0x7C, 0, 0, 0, 0],
     [0, 0, 0x0C, 0x1C, 0x3C, 0x6C, 0xCC, 0xFE, 0x0C, 0x0C, 0x0C, 0x1E, 0, 0, 0, 0],
     [0, 0, 0xFE, 0xC0, 0xC0, 0xFC, 6, 6, 6, 6, 0xC6, 0x7C, 0, 0, 0, 0],
     [0, 0, 0x38, 0x60, 0xC0, 0xFC, 0xC6, 0xC6, 0xC6, 0xC6, 0x66, 0x3C, 0, 0, 0, 0],
     [0, 0, 0xFE, 0xC6, 6, 0x0C, 0x18, 0x30, 0x30, 0x60, 0x60, 0x60, 0, 0, 0, 0],
     [0, 0, 0x3C, 0x66, 0xC6, 0xC6, 0x7C, 0xC6, 0xC6, 0xC6, 0x66, 0x3C, 0, 0, 0, 0],
     [0, 0, 0x3C, 0x66, 0xC6, 0xC6, 0xC6, 0x7E, 6, 6, 0x0C, 0x78, 0, 0, 0, 0],
     [0, 0, 0, 0x18, 0x18, 0, 0, 0, 0x18, 0x18, 0, 0, 0, 0, 0, 0],
     [0, 0, 0, 0x18, 0x18, 0, 0, 0, 0x18, 0x18, 8, 0x10, 0, 0, 0, 0],
     [0, 0, 6, 0x0C, 0x18, 0x30, 0x60, 0x30, 0x18, 0x0C, 6, 0, 0, 0, 0, 0],
     [0, 0, 0, 0, 0x7E, 0, 0x7E, 0, 0, 0, 0, 0, 0, 0, 0, 0],
     [0, 0, 0x60, 0x30, 0x18, 0x0C, 6, 0x0C, 0x18, 0x30, 0x60, 0, 0, 0, 0, 0],
     [0, 0, 0x7C, 0xC6, 6, 0x0C, 0x18, 0x18, 0, 0x18, 0x18, 0, 0, 0, 0, 0],
     [0, 0, 0x7C, 0xC6, 0xCE, 0xDE, 0xDE, 0xDC, 0xC0, 0xC6, 0x7C, 0, 0, 0, 0, 0],
     [0, 0, 0x18, 0x3C, 0x66, 0xC3, 0xC3, 0xFF, 0xC3, 0xC3, 0xC3, 0, 0, 0, 0, 0],
     [0, 0, 0xFC, 0x66, 0x66, 0x7C, 0x66, 0x66, 0x66, 0x66, 0xFC, 0, 0, 0, 0, 0],
     [0, 0, 0x3C, 0x66, 0xC3, 0xC0, 0xC0, 0xC0, 0xC3, 0x66, 0x3C, 0, 0, 0, 0, 0],
     [0, 0, 0xF8, 0x6C, 0x66, 0x66, 0x66, 0x66, 0x66, 0x6C, 0xF8, 0, 0, 0, 0, 0],
     [0, 0, 0xFE, 0x62, 0x62, 0x68, 0x78, 0x68, 0x62, 0x62, 0xFE, 0, 0, 0, 0, 0],
     [0, 0, 0xFE, 0x62, 0x62, 0x68, 0x78, 0x68, 0x60, 0x60, 0xF0, 0, 0, 0, 0, 0],
     [0, 0, 0x3C, 0x66, 0xC3, 0xC0, 0xC0, 0xCF, 0xC3, 0x66, 0x3E, 0, 0, 0, 0, 0],
     [0, 0, 0xC3, 0xC3, 0xC3, 0xC3, 0xFF, 0xC3, 0xC3, 0xC3, 0xC3, 0, 0, 0, 0, 0],
     [0, 0, 0x7E, 0x18, 0x18, 0x18, 0x18, 0x18, 0x18, 0x18, 0x7E, 0, 0, 0, 0, 0],
     [0, 0, 0x1E, 6, 6, 6, 6, 6, 0xC6, 0xC6, 0x7C, 0, 0, 0, 0, 0],
     [0, 0, 0xC6, 0xCC, 0xD8, 0xF0, 0xE0, 0xF0, 0xD8, 0xCC, 0xC6, 0, 0, 0, 0, 0],
     [0, 0, 0xF0, 0x60, 0x60, 0x60, 0x60, 0x60, 0x62, 0x62, 0xFE, 0, 0, 0, 0, 0],
     [0, 0, 0xC3, 0xE7, 0xFF, 0xDB, 0xC3, 0xC3, 0xC3, 0xC3, 0xC3, 0, 0, 0, 0, 0],
     [0, 0, 0xC3, 0xE3, 0xF3, 0xDB, 0xCF, 0xC7, 0xC3, 0xC3, 0xC3, 0, 0, 0, 0, 0],
     [0, 0, 0x3C, 0x66, 0xC3, 0xC3, 0xC3, 0xC3, 0xC3, 0x66, 0x3C, 0, 0, 0, 0, 0],
     [0, 0, 0xFC, 0x66, 0x66, 0x66, 0x7C, 0x60, 0x60, 0x60, 0xF0, 0, 0, 0, 0, 0],
     [0, 0, 0x3C, 0x66, 0xC3, 0xC3, 0xC3, 0xC3, 0xCB, 0x6E, 0x3C, 0x0E, 0, 0, 0, 0],
     [0, 0, 0xFC, 0x66, 0x66, 0x66, 0x7C, 0x6C, 0x66, 0x66, 0xE3, 0, 0, 0, 0, 0],
     [0, 0, 0x7C, 0xC6, 0xC0, 0x60, 0x38, 0x0C, 6, 0xC6, 0x7C, 0, 0, 0, 0, 0],
     [0, 0, 0xFF, 0x18, 0x18, 0x18, 0x18, 0x18, 0x18, 0x18, 0x3C, 0, 0, 0, 0, 0],
     [0, 0, 0xC3, 0xC3, 0xC3, 0xC3, 0xC3, 0xC3, 0xC3, 0x66, 0x3C, 0, 0, 0, 0, 0],
     [0, 0, 0xC3, 0xC3, 0xC3, 0xC3, 0x66, 0x66, 0x3C, 0x3C, 0x18, 0, 0, 0, 0, 0],
     [0, 0, 0xC3, 0xC3, 0xC3, 0xC3, 0xDB, 0xFF, 0xE7, 0xC3, 0xC3, 0, 0, 0, 0, 0],
     [0, 0, 0xC3, 0x66, 0x3C, 0x18, 0x18, 0x3C, 0x66, 0xC3, 0xC3, 0, 0, 0, 0, 0],
     [0, 0, 0xC3, 0xC3, 0x66, 0x3C, 0x18, 0x18, 0x18, 0x18, 0x3C, 0, 0, 0, 0, 0],
     [0, 0, 0xFF, 6, 0x0C, 0x18, 0x30, 0x60, 0xC0, 0xC0, 0xFF, 0, 0, 0, 0, 0],
     [0, 0x3C, 0x30, 0x30, 0x30, 0x30, 0x30, 0x30, 0x30, 0x30, 0x3C, 0, 0, 0, 0, 0],
     [0, 0, 0x80, 0xC0, 0x60, 0x30, 0x18, 0x0C, 6, 2, 0, 0, 0, 0, 0, 0],
     [0, 0x3C, 0x0C, 0x0C, 0x0C, 0x0C, 0x0C, 0x0C, 0x0C, 0x0C, 0x3C, 0, 0, 0, 0, 0],
     [0, 0x18, 0x3C, 0x66, 0xC3, 0, 0, 0, 0, 0, 0, 0, 0, 0, 0, 0],
     [0, 0, 0, 0, 0, 0, 0, 0, 0, 0, 0, 0xFF, 0, 0, 0, 0],
     [0, 0x30, 0x18, 0x0C, 0, 0, 0, 0, 0, 0, 0, 0, 0, 0, 0, 0],
     [0, 0, 0, 0, 0x78, 0x0C, 0x7C, 0xCC, 0xCC, 0xCC, 0x76, 0, 0, 0, 0, 0],
     [0, 0, 0xE0, 0x60, 0x60, 0x7C, 0x66, 0x66, 0x66, 0x66, 0xDC, 0, 0, 0, 0, 0],
     [0, 0, 0, 0, 0x78, 0xCC, 0xC0, 0xC0, 0xC0, 0xCC, 0x78, 0, 0, 0, 0, 0],
     [0, 0, 0x1C, 0x0C, 0x0C, 0x7C, 0xCC, 0xCC, 0xCC, 0xCC, 0x76, 0, 0, 0, 0, 0],
     [0, 0, 0, 0, 0x78, 0xCC, 0xFE, 0xC0, 0xC0, 0xCC, 0x78, 0, 0, 0, 0, 0],
     [0, 0, 0x38, 0x6C, 0x60, 0xF0, 0x60, 0x60, 0x60, 0x60, 0xF0, 0, 0, 0, 0, 0],
     [0, 0, 0, 0, 0x76, 0xCC, 0xCC, 0xCC, 0xCC, 0x7C, 0x0C, 0xCC, 0x78, 0, 0, 0],
     [0, 0, 0xE0, 0x60, 0x60, 0x6C, 0x76, 0x66, 0x66, 0x66, 0xE6, 0, 0, 0, 0, 0],
     [0, 0, 0x18, 0x18, 0, 0x78, 0x18, 0x18, 0x18, 0x18, 0x7E, 0, 0, 0, 0, 0],
     [0, 0, 0x0C, 0x0C, 0, 0x3C, 0x0C, 0x0C, 0x0C, 0x0C, 0x0C, 0xCC, 0x78, 0, 0, 0],
     [0, 0, 0xE0, 0x60, 0x60, 0x66, 0x6C, 0x78, 0x78, 0x6C, 0xE6, 0, 0, 0, 0, 0],
     [0, 0, 0x78, 0x18, 0x18, 0x18, 0x18, 0x18, 0x18, 0x18, 0x7E, 0, 0, 0, 0, 0],
     [0, 0, 0, 0, 0xFE, 0xDB, 0xDB, 0xDB, 0xDB, 0xDB, 0xDB, 0, 0, 0, 0, 0],
     [0, 0, 0, 0, 0xDC, 0x66, 0x66, 0x66, 0x66, 0x66, 0x66, 0, 0, 0, 0, 0],
     [0, 0, 0, 0, 0x78, 0xCC, 0xCC, 0xCC, 0xCC, 0xCC, 0x78, 0, 0, 0, 0, 0],
     [0, 0, 0, 0, 0xDC, 0x66, 0x66, 0x66, 0x66, 0x7C, 0x60, 0x60, 0xF0, 0, 0, 0],
     [0, 0, 0, 0, 0x76, 0xCC, 0xCC, 0xCC, 0xCC, 0x7C, 0x0C, 0x0C, 0x1E, 0, 0, 0],
     [0, 0, 0, 0, 0xDC, 0x76, 0x66, 0x60, 0x60, 0x60, 0xF0, 0, 0, 0, 0, 0],
     [0, 0, 0, 0, 0x7C, 0xC0, 0x78, 0x0C, 6, 0x86, 0x7C, 0, 0, 0, 0, 0],
     [0, 0, 0x30, 0x30, 0xFC, 0x30, 0x30, 0x30, 0x30, 0x36, 0x1C, 0, 0, 0, 0, 0],
     [0, 0, 0, 0, 0xCC, 0xCC, 0xCC, 0xCC, 0xCC, 0xCC, 0x76, 0, 0, 0, 0, 0],
     [0, 0, 0, 0, 0xC3, 0xC3, 0x66, 0x66, 0x3C, 0x3C, 0x18, 0, 0, 0, 0, 0],
     [0, 0, 0, 0, 0xC3, 0xC3, 0xDB, 0xDB, 0xFF, 0x66, 0x66, 0, 0, 0, 0, 0],
     [0, 0, 0, 0, 0xC3, 0x66, 0x3C, 0x18, 0x3C, 0x66, 0xC3, 0, 0, 0, 0, 0],
     [0, 0, 0, 0, 0xCC, 0xCC, 0xCC, 0xCC, 0xCC, 0x7C, 0x0C, 0xCC, 0x78, 0, 0, 0],
     [0, 0, 0, 0, 0xFE, 0x0C, 0x18, 0x30, 0x60, 0xC0, 0xFE, 0, 0, 0, 0, 0],
     [0, 0x0E, 0x18, 0x18, 0x18, 0x70, 0x18, 0x18, 0x18, 0x18, 0x0E, 0, 0, 0, 0, 0],
     [0, 0x18, 0x18, 0x18, 0x18, 0x18, 0x18, 0x18, 0x18, 0x18, 0x18, 0, 0, 0, 0, 0],
     [0, 0x70, 0x18, 0x18, 0x18, 0x0E, 0x18, 0x18, 0x18, 0x18, 0x70, 0, 0, 0, 0, 0],
     [0, 0x76, 0xDC, 0, 0, 0, 0, 0, 0, 0, 0, 0, 0, 0, 0, 0],
     replicate 16 0]"

section \<open>Loops\<close>

text \<open>The values of a 32-bit loop variable that counts from \<open>a\<close> while it is below \<open>b\<close>.\<close>

definition range32 :: "u32 \<Rightarrow> u32 \<Rightarrow> u32 list" where
  "range32 a b = map of_nat [unat a..<unat b]"

section \<open>Operations\<close>

text \<open>The framebuffer memory at the address in the boot information is \<open>mem\<close>.\<close>

definition fb_init :: "u32 list \<Rightarrow> boot_info option \<Rightarrow> fb_state \<Rightarrow> fb_state" where
  "fb_init mem info s =
     (case info of
        None \<Rightarrow> s
      | Some b \<Rightarrow>
          if fb_base b = 0 then s
          else s\<lparr>g_fb := True, pixels := mem, g_width := fb_width b, g_height := fb_height b,
                 g_pitch_pixels := fb_pitch b div 4, g_is_bgr := fb_is_bgr b\<rparr>)"

definition fb_get_width :: "fb_state \<Rightarrow> u32" where "fb_get_width s = g_width s"
definition fb_get_height :: "fb_state \<Rightarrow> u32" where "fb_get_height s = g_height s"

definition convert_color :: "fb_state \<Rightarrow> u32 \<Rightarrow> u32" where
  "convert_color s argb =
     (if g_is_bgr s = 0 then
        let a = drop_bit 24 argb AND 0xFF; r = drop_bit 16 argb AND 0xFF;
            g = drop_bit 8 argb AND 0xFF; b = argb AND 0xFF
        in push_bit 24 a OR push_bit 16 b OR push_bit 8 g OR r
      else argb)"

definition store_pixel :: "nat \<Rightarrow> u32 \<Rightarrow> fb_state \<Rightarrow> fb_state c_result" where
  "store_pixel i c s = (if i < length (pixels s) then Some (s\<lparr>pixels := (pixels s)[i := c]\<rparr>) else None)"

definition fb_put_pixel :: "u32 \<Rightarrow> u32 \<Rightarrow> u32 \<Rightarrow> fb_state \<Rightarrow> fb_state c_result" where
  "fb_put_pixel x y argb s =
     (if \<not> g_fb s \<or> g_width s \<le> x \<or> g_height s \<le> y then Some s
      else store_pixel (unat (y * g_pitch_pixels s + x)) (convert_color s argb) s)"

definition fb_clear :: "u32 \<Rightarrow> fb_state \<Rightarrow> fb_state c_result" where
  "fb_clear argb s =
     (if \<not> g_fb s then Some s
      else let c = convert_color s argb
           in for_each (\<lambda>y. for_each (\<lambda>x. store_pixel (unat (y * g_pitch_pixels s) + unat x) c) (range32 0 (g_width s)))
                (range32 0 (g_height s)) s)"

definition fb_fill_rect :: "u32 \<Rightarrow> u32 \<Rightarrow> u32 \<Rightarrow> u32 \<Rightarrow> u32 \<Rightarrow> fb_state \<Rightarrow> fb_state c_result" where
  "fb_fill_rect x y w h argb s =
     (if \<not> g_fb s then Some s
      else if g_width s \<le> x \<or> g_height s \<le> y then Some s
      else
        let w' = (if g_width s < x + w then g_width s - x else w);
            h' = (if g_height s < y + h then g_height s - y else h);
            c = convert_color s argb
        in for_each (\<lambda>cy. for_each (\<lambda>cx. store_pixel (unat (cy * g_pitch_pixels s + x) + unat cx) c) (range32 0 w'))
             (range32 y (y + h')) s)"

definition fb_draw_rect_outline :: "u32 \<Rightarrow> u32 \<Rightarrow> u32 \<Rightarrow> u32 \<Rightarrow> u32 \<Rightarrow> fb_state \<Rightarrow> fb_state c_result" where
  "fb_draw_rect_outline x y w h color s =
     (if \<not> g_fb s then Some s
      else do {
        s1 \<leftarrow> for_each (\<lambda>i s. do {
                s' \<leftarrow> fb_put_pixel (x + i) y color s;
                fb_put_pixel (x + i) (y + h - 1) color s' }) (range32 0 w) s;
        for_each (\<lambda>i s. do {
          s' \<leftarrow> fb_put_pixel x (y + i) color s;
          fb_put_pixel (x + w - 1) (y + i) color s' }) (range32 0 h) s1
      })"

text \<open>Characters are signed: those from 128 on are below 32 and drawn as a question mark.\<close>

definition glyph_of :: "char \<Rightarrow> u8 list" where
  "glyph_of c =
     (let k = (of_char c :: nat); k' = (if k < 32 \<or> 126 < k then of_char CHR ''?'' else k)
      in font_8x16_basic ! (k' - 32))"

definition fb_draw_char :: "u32 \<Rightarrow> u32 \<Rightarrow> char \<Rightarrow> u32 \<Rightarrow> u32 \<Rightarrow> fb_state \<Rightarrow> fb_state c_result" where
  "fb_draw_char x y c fg bg =
     for_each (\<lambda>cy.
       let row = glyph_of c ! cy
       in for_each (\<lambda>cx s.
            if row AND drop_bit cx 0x80 \<noteq> 0 then fb_put_pixel (x + of_nat cx) (y + of_nat cy) fg s
            else if bg \<noteq> 0 then fb_put_pixel (x + of_nat cx) (y + of_nat cy) bg s
            else Some s) [0..<8]) [0..<16]"

text \<open>The loop of \<^verbatim>\<open>fb_draw_string\<close>: \<open>x\<close> is the left margin, \<open>cx\<close> and \<open>y\<close> the position.\<close>

fun draw_string_loop :: "u32 \<Rightarrow> u32 \<Rightarrow> u32 \<Rightarrow> string \<Rightarrow> u32 \<Rightarrow> u32 \<Rightarrow> fb_state \<Rightarrow> fb_state c_result" where
  "draw_string_loop x cx y [] fg bg s = Some s"
| "draw_string_loop x cx y (c # cs) fg bg s =
     (if c = CHR 0x0A then draw_string_loop x x (y + 18) cs fg bg s
      else do {
        s' \<leftarrow> fb_draw_char cx y c fg bg s;
        draw_string_loop x (cx + 9) y cs fg bg s'
      })"

definition fb_draw_string :: "u32 \<Rightarrow> u32 \<Rightarrow> string option \<Rightarrow> u32 \<Rightarrow> u32 \<Rightarrow> fb_state \<Rightarrow> fb_state c_result" where
  "fb_draw_string x y str fg bg s =
     (case str of None \<Rightarrow> Some s | Some t \<Rightarrow> draw_string_loop x x y t fg bg s)"

definition fb_draw_badge :: "u32 \<Rightarrow> u32 \<Rightarrow> string option \<Rightarrow> u32 \<Rightarrow> u32 \<Rightarrow> fb_state \<Rightarrow> fb_state c_result" where
  "fb_draw_badge x y text bg_color fg_color s =
     (case text of
        None \<Rightarrow> Some s
      | Some t \<Rightarrow>
          let w = of_nat (length t * 9 + 16); h = 24 in do {
            s1 \<leftarrow> fb_fill_rect x y w h bg_color s;
            s2 \<leftarrow> fb_draw_rect_outline x y w h COLOR_CARD_BORDER s1;
            fb_draw_string (x + 8) (y + 4) (Some t) fg_color 0 s2
          })"

text \<open>
  The copy of one row to another, pixel by pixel in the same memory.  The loop over the
  rows counts while \<open>row + px\<close> is below the end, so it visits the rows \<open>r - px\<close> for \<open>r\<close> from
  \<open>y + px\<close> on.
\<close>

definition copy_pixel :: "nat \<Rightarrow> nat \<Rightarrow> fb_state \<Rightarrow> fb_state c_result" where
  "copy_pixel dst src s = (if src < length (pixels s) then store_pixel dst (pixels s ! src) s else None)"

definition fb_scroll_up :: "u32 \<Rightarrow> u32 \<Rightarrow> u32 \<Rightarrow> u32 \<Rightarrow> fb_state \<Rightarrow> fb_state c_result" where
  "fb_scroll_up y height lines color s =
     (if \<not> g_fb s \<or> g_height s \<le> y \<or> height = 0 \<or> lines = 0 then Some s
      else
        let height' = (if g_height s < y + height then g_height s - y else height);
            px = lines * 18
        in if height' \<le> px then fb_fill_rect 0 y (g_width s) height' color s
           else do {
             s1 \<leftarrow> for_each (\<lambda>r. for_each (\<lambda>x. copy_pixel (unat ((r - px) * g_pitch_pixels s) + unat x)
                        (unat (r * g_pitch_pixels s) + unat x)) (range32 0 (g_width s)))
                     (range32 (y + px) (y + height')) s;
             fb_fill_rect 0 (y + height' - px) (g_width s) px color s1
           })"

section \<open>Loop variables\<close>

lemma in_range32: "v \<in> set (range32 a b) \<longleftrightarrow> a \<le> v \<and> v < b"
proof
  assume "v \<in> set (range32 a b)"
  then obtain n where n: "v = of_nat n" "unat a \<le> n" "n < unat b" by (auto simp: range32_def)
  then have "unat v = n" using unat_u32_bound [of b] by (simp add: unat_of_nat_small)
  then show "a \<le> v \<and> v < b" using n by (simp add: word_le_nat_alt word_less_nat_alt)
next
  assume "a \<le> v \<and> v < b"
  then have "unat v \<in> set [unat a..<unat b]" by (simp add: word_le_nat_alt word_less_nat_alt)
  then show "v \<in> set (range32 a b)"
    unfolding range32_def set_map by (intro image_eqI [of v of_nat "unat v"]) simp_all
qed

section \<open>Geometry\<close>

text \<open>
  What the firmware promises of a framebuffer: rows are at least as long as the screen is
  wide, and the memory holds all rows.
\<close>

definition fb_ok :: "fb_state \<Rightarrow> bool" where
  "fb_ok s \<longleftrightarrow> g_fb s \<and> g_width s \<le> g_pitch_pixels s
     \<and> unat (g_height s) * unat (g_pitch_pixels s) \<le> length (pixels s) \<and> length (pixels s) < 2 ^ 32"

definition fb_index :: "fb_state \<Rightarrow> nat \<Rightarrow> nat \<Rightarrow> nat" where
  "fb_index s x y = y * unat (g_pitch_pixels s) + x"

definition on_screen :: "fb_state \<Rightarrow> nat \<Rightarrow> nat \<Rightarrow> bool" where
  "on_screen s x y \<longleftrightarrow> x < unat (g_width s) \<and> y < unat (g_height s)"

definition fb_at :: "fb_state \<Rightarrow> nat \<Rightarrow> nat \<Rightarrow> u32" where
  "fb_at s x y = pixels s ! fb_index s x y"

lemma on_screen_index:
  assumes "fb_ok s" and "on_screen s x y"
  shows "fb_index s x y < length (pixels s)" "x < unat (g_pitch_pixels s)"
proof -
  have x: "x < unat (g_pitch_pixels s)" "y + 1 \<le> unat (g_height s)"
    using assms by (auto simp: fb_ok_def on_screen_def word_le_nat_alt)
  then have "(y + 1) * unat (g_pitch_pixels s) \<le> unat (g_height s) * unat (g_pitch_pixels s)" by (intro mult_right_mono) simp_all
  then show "fb_index s x y < length (pixels s)" "x < unat (g_pitch_pixels s)"
    using x assms(1) by (auto simp: fb_index_def fb_ok_def)
qed

lemma fb_index_inject:
  assumes "fb_ok s" and "on_screen s x y" and "on_screen s x' y'"
  shows "fb_index s x y = fb_index s x' y' \<longleftrightarrow> x = x' \<and> y = y'"
proof -
  let ?p = "unat (g_pitch_pixels s)"
  have lt: "x < ?p" "x' < ?p" using on_screen_index(2) [OF assms(1)] assms(2,3) by auto
  then have "(y * ?p + x) mod ?p = x" "(y' * ?p + x') mod ?p = x'" "(y * ?p + x) div ?p = y" "(y' * ?p + x') div ?p = y'"
    by auto
  then show ?thesis unfolding fb_index_def by metis
qed

text \<open>On the screen the 32-bit index is exact, also when computed along the row.\<close>

lemma row_exact:
  assumes "fb_ok s" and "unat y < unat (g_height s)" and "unat x + k < unat (g_pitch_pixels s)"
  shows "unat (y * g_pitch_pixels s + x) + k = fb_index s (unat x + k) (unat y)"
proof -
  let ?p = "unat (g_pitch_pixels s)"
  have "(unat y + 1) * ?p \<le> unat (g_height s) * ?p" using assms(2) by (intro mult_right_mono) simp_all
  then have "unat y * ?p + ?p < 2 ^ 32" using assms(1) by (simp add: fb_ok_def)
  then have "unat (y * g_pitch_pixels s + x) = unat y * ?p + unat x"
    using assms(3) by (simp add: unat_word_ariths)
  then show ?thesis by (simp add: fb_index_def)
qed

text \<open>
  A drawing: another content of the same framebuffer in which only pixels of the screen for
  which \<open>A\<close> holds have changed.
\<close>

definition drawn :: "(nat \<Rightarrow> nat \<Rightarrow> bool) \<Rightarrow> fb_state \<Rightarrow> fb_state \<Rightarrow> bool" where
  "drawn A s s' \<longleftrightarrow> (\<exists>p. s' = s\<lparr>pixels := p\<rparr> \<and> length p = length (pixels s)
     \<and> (\<forall>i < length p. p ! i \<noteq> pixels s ! i \<longrightarrow> (\<exists>x y. on_screen s x y \<and> A x y \<and> i = fb_index s x y)))"

lemma drawn_geometry:
  assumes "drawn A s s'"
  shows "fb_ok s' = fb_ok s" "g_width s' = g_width s" "g_height s' = g_height s" "g_pitch_pixels s' = g_pitch_pixels s"
    "g_fb s' = g_fb s" "g_is_bgr s' = g_is_bgr s" "on_screen s' = on_screen s" "fb_index s' = fb_index s"
    "convert_color s' = convert_color s" "length (pixels s') = length (pixels s)"
  using assms by (auto simp: drawn_def fb_ok_def fun_eq_iff on_screen_def fb_index_def convert_color_def)

lemma drawn_refl: "drawn A s s"
  unfolding drawn_def by (rule exI [of _ "pixels s"]) simp

lemma drawn_trans:
  assumes "drawn A s s'" and "drawn A s' s''"
  shows "drawn A s s''"
proof -
  obtain p where p: "s' = s\<lparr>pixels := p\<rparr>" "length p = length (pixels s)"
      "\<And>i. i < length p \<Longrightarrow> p ! i \<noteq> pixels s ! i \<Longrightarrow> \<exists>x y. on_screen s x y \<and> A x y \<and> i = fb_index s x y"
    using assms(1) by (auto simp: drawn_def)
  obtain q where q: "s'' = s'\<lparr>pixels := q\<rparr>" "length q = length (pixels s')"
      "\<And>i. i < length q \<Longrightarrow> q ! i \<noteq> pixels s' ! i \<Longrightarrow> \<exists>x y. on_screen s' x y \<and> A x y \<and> i = fb_index s' x y"
    using assms(2) by (auto simp: drawn_def)
  note g = drawn_geometry(7,8) [OF assms(1)]
  have "s'' = s\<lparr>pixels := q\<rparr>" "length q = length (pixels s)" using p(1,2) q(1,2) by simp_all
  moreover have "\<exists>x y. on_screen s x y \<and> A x y \<and> i = fb_index s x y" if "i < length q" "q ! i \<noteq> pixels s ! i" for i
  proof (cases "p ! i = pixels s ! i")
    case True
    then show ?thesis using q(3) [OF that(1)] that(2) p(1) unfolding g by simp
  next
    case False
    then show ?thesis using p(3) [of i] that(1) p(1,2) q(2) by simp
  qed
  ultimately show ?thesis unfolding drawn_def by blast
qed

lemma drawn_mono: "drawn A s s' \<Longrightarrow> (\<And>x y. A x y \<Longrightarrow> B x y) \<Longrightarrow> drawn B s s'"
  unfolding drawn_def by blast

lemma store_on_screen:
  assumes "fb_ok s" and "on_screen s x y" and "A x y"
  shows "store_pixel (fb_index s x y) c s = Some (s\<lparr>pixels := (pixels s)[fb_index s x y := c]\<rparr>)"
    "drawn A s (s\<lparr>pixels := (pixels s)[fb_index s x y := c]\<rparr>)"
proof -
  let ?p = "(pixels s)[fb_index s x y := c]"
  show "store_pixel (fb_index s x y) c s = Some (s\<lparr>pixels := ?p\<rparr>)"
    using on_screen_index [OF assms(1,2)] by (simp add: store_pixel_def)
  have "\<forall>i < length ?p. ?p ! i \<noteq> pixels s ! i \<longrightarrow> (\<exists>x y. on_screen s x y \<and> A x y \<and> i = fb_index s x y)"
    using assms(2,3) by (metis nth_list_update_neq)
  then show "drawn A s (s\<lparr>pixels := ?p\<rparr>)" unfolding drawn_def by (intro exI [of _ ?p]) simp
qed

lemma store_at:
  assumes "fb_ok s" and "on_screen s x y" and "on_screen s px py"
  shows "fb_at (s\<lparr>pixels := (pixels s)[fb_index s x y := c]\<rparr>) px py = (if (px, py) = (x, y) then c else fb_at s px py)"
proof -
  have "fb_index (s\<lparr>pixels := p\<rparr>) = fb_index s" for p by (simp add: fun_eq_iff fb_index_def)
  then show ?thesis
    using fb_index_inject [OF assms] on_screen_index(1) [OF assms(1,2)] by (auto simp: fb_at_def)
qed

lemma put_pixel_drawn:
  assumes "fb_ok s" and "x < g_width s \<Longrightarrow> y < g_height s \<Longrightarrow> A (unat x) (unat y)"
  shows "\<exists>s'. fb_put_pixel x y c s = Some s' \<and> drawn A s s'"
proof (cases "x < g_width s \<and> y < g_height s")
  case True
  then have on: "on_screen s (unat x) (unat y)" by (simp add: on_screen_def word_less_nat_alt)
  then have "unat (y * g_pitch_pixels s + x) = fb_index s (unat x) (unat y)"
    using row_exact [OF assms(1), of y x 0] on_screen_index(2) [OF assms(1) on] by (simp add: on_screen_def)
  then show ?thesis
    using True store_on_screen [OF assms(1) on, of A] assms by (auto simp: fb_put_pixel_def not_le drawn_refl)
next
  case False
  then show ?thesis using drawn_refl by (auto simp: fb_put_pixel_def not_less)
qed

lemma drawn_loop:
  assumes "fb_ok s" and "\<And>x s. x \<in> set xs \<Longrightarrow> fb_ok s \<Longrightarrow> \<exists>s'. f x s = Some s' \<and> drawn A s s'"
  shows "\<exists>s'. for_each f xs s = Some s' \<and> drawn A s s'"
proof (rule for_each_invariant [where I = "drawn A s"])
  show "drawn A s s" by (rule drawn_refl)
  fix x t
  assume x: "x \<in> set xs" and t: "drawn A s t"
  then have "fb_ok t" using assms(1) drawn_geometry(1) [OF t] by simp
  then show "\<exists>t'. f x t = Some t' \<and> drawn A s t'" using assms(2) [OF x] drawn_trans [OF t] by blast
qed

section \<open>Sequences of stores\<close>

text \<open>The picture a list of pixels leaves: the last one at a place counts.\<close>

definition plot :: "u32 \<times> u32 \<times> u32 \<Rightarrow> fb_state \<Rightarrow> fb_state c_result" where
  "plot t = (case t of (x, y, c) \<Rightarrow> fb_put_pixel x y c)"

definition picture :: "fb_state \<Rightarrow> (u32 \<times> u32 \<times> u32) list \<Rightarrow> nat \<times> nat \<rightharpoonup> u32" where
  "picture s ts = map_of (rev (map (\<lambda>(x, y, c). ((unat x, unat y), convert_color s c)) ts))"

lemma put_pixel_at:
  assumes "fb_ok s" and "on_screen s px py" and "fb_put_pixel x y c s = Some s'"
  shows "fb_at s' px py = (if (px, py) = (unat x, unat y) then convert_color s c else fb_at s px py)"
proof (cases "on_screen s (unat x) (unat y)")
  case False
  then show ?thesis
    using assms by (auto simp: fb_put_pixel_def on_screen_def word_le_nat_alt not_less)
next
  case True
  then have "\<not> g_width s \<le> x" "\<not> g_height s \<le> y" by (simp_all add: on_screen_def word_le_nat_alt)
  moreover have "unat (y * g_pitch_pixels s + x) = fb_index s (unat x) (unat y)"
    using row_exact [OF assms(1), of y x 0] on_screen_index(2) [OF assms(1) True] True by (simp add: on_screen_def)
  ultimately have s': "s' = s\<lparr>pixels := (pixels s)[fb_index s (unat x) (unat y) := convert_color s c]\<rparr>"
    using assms(1,3) store_on_screen(1) [OF assms(1) True, of "\<lambda>x y. True" "convert_color s c"]
    by (simp add: fb_put_pixel_def fb_ok_def)
  show ?thesis unfolding s' by (rule store_at [OF assms(1) True assms(2)])
qed

lemma plots:
  assumes "fb_ok s"
  shows "\<exists>s'. for_each plot ts s = Some s' \<and> drawn (\<lambda>px py. \<exists>x y c. (x, y, c) \<in> set ts \<and> px = unat x \<and> py = unat y) s s'
    \<and> (\<forall>px py. on_screen s px py \<longrightarrow> fb_at s' px py =
         (case picture s ts (px, py) of None \<Rightarrow> fb_at s px py | Some c \<Rightarrow> c))"
  using assms
proof (induction ts rule: rev_induct)
  case Nil
  then show ?case by (simp add: picture_def drawn_refl)
next
  case (snoc t ts)
  obtain x y c where t: "t = (x, y, c)" by (cases t)
  let ?A = "\<lambda>ts px py. \<exists>x y c. (x, y, c) \<in> set ts \<and> px = unat x \<and> py = unat y"
  obtain s1 where s1: "for_each plot ts s = Some s1" "drawn (?A ts) s s1"
      "\<And>px py. on_screen s px py \<Longrightarrow> fb_at s1 px py = (case picture s ts (px, py) of None \<Rightarrow> fb_at s px py | Some c \<Rightarrow> c)"
    using snoc by blast
  note g = drawn_geometry [OF s1(2)]
  obtain s2 where s2: "fb_put_pixel x y c s1 = Some s2" "drawn (?A (ts @ [t])) s1 s2"
    using put_pixel_drawn [of s1 x y "?A (ts @ [t])" c] snoc.prems g(1) by (auto simp: t)
  have "for_each plot (ts @ [t]) s = Some s2"
    using s1(1) s2(1) by (simp add: for_each_append plot_def t)
  moreover have "drawn (?A (ts @ [t])) s s2"
    by (rule drawn_trans [OF drawn_mono [OF s1(2)] s2(2)]) auto
  moreover have "fb_at s2 px py = (case picture s (ts @ [t]) (px, py) of None \<Rightarrow> fb_at s px py | Some c \<Rightarrow> c)"
    if "on_screen s px py" for px py
    using put_pixel_at [OF _ _ s2(1), of px py] snoc.prems that g s1(3) [OF that]
    by (simp add: picture_def t)
  ultimately show ?case by blast
qed

text \<open>Stores of one colour to a set of places.\<close>

lemma stores:
  "\<forall>i \<in> set is. i < length (pixels s) \<Longrightarrow>
     for_each (\<lambda>i. store_pixel i c) is s =
       Some (s\<lparr>pixels := map (\<lambda>j. if j \<in> set is then c else pixels s ! j) [0..<length (pixels s)]\<rparr>)"
proof (induction "is" arbitrary: s)
  case Nil
  then show ?case by (simp add: map_nth)
next
  case (Cons i "is")
  let ?s = "s\<lparr>pixels := (pixels s)[i := c]\<rparr>"
  have "for_each (\<lambda>i. store_pixel i c) (i # is) s = for_each (\<lambda>i. store_pixel i c) is ?s"
    using Cons.prems by (simp add: store_pixel_def)
  also have "\<dots> = Some (?s\<lparr>pixels := map (\<lambda>j. if j \<in> set is then c else pixels ?s ! j) [0..<length (pixels ?s)]\<rparr>)"
    using Cons.prems by (intro Cons.IH) simp
  also have "map (\<lambda>j. if j \<in> set is then c else pixels ?s ! j) [0..<length (pixels ?s)]
      = map (\<lambda>j. if j \<in> set (i # is) then c else pixels s ! j) [0..<length (pixels s)]"
    using Cons.prems by (auto simp: nth_list_update)
  finally show ?case by simp
qed

lemma stores_at:
  assumes "fb_ok s" and "set is = (\<lambda>(x, y). fb_index s x y) ` {(x, y). on_screen s x y \<and> A x y}"
  shows "\<exists>s'. for_each (\<lambda>i. store_pixel i c) is s = Some s' \<and> drawn A s s'
    \<and> (\<forall>x y. on_screen s x y \<longrightarrow> fb_at s' x y = (if A x y then c else fb_at s x y))"
proof -
  define p where "p = map (\<lambda>j. if j \<in> set is then c else pixels s ! j) [0..<length (pixels s)]"
  have in_mem: "\<forall>i \<in> set is. i < length (pixels s)"
    using assms on_screen_index(1) [OF assms(1)] by auto
  have in_is: "fb_index s x y \<in> set is \<longleftrightarrow> A x y" if "on_screen s x y" for x y
    using that fb_index_inject [OF assms(1) that] unfolding assms(2) by auto
  have "drawn A s (s\<lparr>pixels := p\<rparr>)"
    unfolding drawn_def using assms(2) by (intro exI [of _ p]) (auto simp: p_def split: if_splits)
  moreover have "fb_at (s\<lparr>pixels := p\<rparr>) x y = (if A x y then c else fb_at s x y)" if "on_screen s x y" for x y
    using in_is [OF that] on_screen_index(1) [OF assms(1) that] by (simp add: fb_at_def fb_index_def p_def)
  ultimately show ?thesis using stores [OF in_mem, of c] by (auto simp: p_def)
qed

section \<open>The operations\<close>

lemma fill_loop:
  "for_each (\<lambda>cy. for_each (\<lambda>cx. store_pixel (f cy cx) c) xs) ys s
     = for_each (\<lambda>i. store_pixel i c) (concat (map (\<lambda>cy. map (f cy) xs) ys)) s"
  by (simp add: for_each_nest [symmetric] for_each_map)

lemma unat_sub_u32: "(b :: u32) \<le> a \<Longrightarrow> unat (a - b) = unat a - unat b"
  by (simp add: unat_sub word_le_nat_alt)

lemma unat_add_u32: "unat (a :: u32) + unat b < 2 ^ 32 \<Longrightarrow> unat (a + b) = unat a + unat b"
  by (simp add: unat_word_ariths)

text \<open>A rectangle of pixels of the screen, written row by row.\<close>

definition in_rect :: "nat \<Rightarrow> nat \<Rightarrow> nat \<Rightarrow> nat \<Rightarrow> nat \<Rightarrow> nat \<Rightarrow> bool" where
  "in_rect x y w h px py \<longleftrightarrow> x \<le> px \<and> px < x + w \<and> y \<le> py \<and> py < y + h"

lemma rect_indices:
  assumes ok: "fb_ok s" and wx: "unat x + unat w \<le> unat (g_width s)" and hy: "unat y + unat h \<le> unat (g_height s)"
  shows "set (concat (map (\<lambda>cy. map (\<lambda>cx. unat (cy * g_pitch_pixels s + x) + unat cx) (range32 0 w)) (range32 y (y + h))))
    = (\<lambda>(px, py). fb_index s px py) ` {(px, py). on_screen s px py \<and> in_rect (unat x) (unat y) (unat w) (unat h) px py}"
    (is "?L = ?R")
proof -
  have yh: "unat (y + h) = unat y + unat h"
    using hy unat_u32_bound [of "g_height s"] by (intro unat_add_u32) simp
  have wp: "unat (g_width s) \<le> unat (g_pitch_pixels s)" using ok by (simp add: fb_ok_def word_le_nat_alt)
  have idx: "unat (cy * g_pitch_pixels s + x) + unat cx = fb_index s (unat x + unat cx) (unat cy)"
    if "cx < w" "cy < y + h" for cx cy
    using that wx hy wp yh by (intro row_exact [OF ok]) (simp_all add: word_less_nat_alt)
  show ?thesis
  proof (intro set_eqI iffI)
    fix i
    assume "i \<in> ?L"
    then obtain cx cy where c: "cx < w" "y \<le> cy" "cy < y + h" "i = unat (cy * g_pitch_pixels s + x) + unat cx"
      by (auto simp: in_range32)
    then show "i \<in> ?R"
      using idx [OF c(1,3)] wx hy yh
      by (intro image_eqI [of _ _ "(unat x + unat cx, unat cy)"])
         (auto simp: on_screen_def in_rect_def word_less_nat_alt word_le_nat_alt)
  next
    fix i
    assume "i \<in> ?R"
    then obtain px py where p: "on_screen s px py" "in_rect (unat x) (unat y) (unat w) (unat h) px py" "i = fb_index s px py"
      by auto
    define cx cy where "cx = (of_nat (px - unat x) :: u32)" and "cy = (of_nat py :: u32)"
    have u: "unat cx = px - unat x" "unat cy = py"
      using p(1) unat_u32_bound [of "g_width s"] unat_u32_bound [of "g_height s"]
      by (auto simp: cx_def cy_def on_screen_def intro!: unat_of_nat_small)
    then have c: "cx < w" "y \<le> cy" "cy < y + h"
      using p(2) yh by (auto simp: in_rect_def word_less_nat_alt word_le_nat_alt)
    have "i = unat (cy * g_pitch_pixels s + x) + unat cx"
      using idx [OF c(1,3)] p(2,3) u by (simp add: in_rect_def)
    then show "i \<in> ?L" using c by (auto simp: in_range32 intro!: bexI [of _ cy] image_eqI [of _ _ cx])
  qed
qed

lemma fb_fill_rect_at:
  assumes ok: "fb_ok s" and "unat x + unat w < 2 ^ 32" and "unat y + unat h < 2 ^ 32"
  defines "A \<equiv> in_rect (unat x) (unat y) (unat w) (unat h)"
  shows "\<exists>s'. fb_fill_rect x y w h c s = Some s' \<and> drawn A s s'
    \<and> (\<forall>px py. on_screen s px py \<longrightarrow> fb_at s' px py = (if A px py then convert_color s c else fb_at s px py))"
proof (cases "g_width s \<le> x \<or> g_height s \<le> y")
  case True
  then have "\<not> A px py" if "on_screen s px py" for px py
    using that by (auto simp: A_def in_rect_def on_screen_def word_le_nat_alt)
  then show ?thesis using True ok drawn_refl by (auto simp: fb_fill_rect_def)
next
  case False
  define w' where "w' = (if g_width s < x + w then g_width s - x else w)"
  define h' where "h' = (if g_height s < y + h then g_height s - y else h)"
  have xw: "unat (x + w) = unat x + unat w" "unat (y + h) = unat y + unat h"
    using assms(2,3) by (simp_all add: unat_add_u32)
  have w': "unat x + unat w' \<le> unat (g_width s)" "unat y + unat h' \<le> unat (g_height s)"
    "unat w' \<le> unat w" "unat h' \<le> unat h"
    using False xw by (auto simp: w'_def h'_def unat_sub_u32 word_less_nat_alt word_le_nat_alt)
  have clip: "in_rect (unat x) (unat y) (unat w') (unat h') px py \<longleftrightarrow> A px py" if "on_screen s px py" for px py
    using that False xw
    by (auto simp: A_def in_rect_def on_screen_def w'_def h'_def unat_sub_u32 word_less_nat_alt word_le_nat_alt split: if_splits)
  have run: "fb_fill_rect x y w h c s = for_each (\<lambda>i. store_pixel i (convert_color s c))
      (concat (map (\<lambda>cy. map (\<lambda>cx. unat (cy * g_pitch_pixels s + x) + unat cx) (range32 0 w')) (range32 y (y + h')))) s"
    using False ok by (simp add: fb_fill_rect_def fb_ok_def Let_def w'_def [symmetric] h'_def [symmetric] fill_loop)
  obtain s' where s': "fb_fill_rect x y w h c s = Some s'" "drawn (in_rect (unat x) (unat y) (unat w') (unat h')) s s'"
      "\<forall>px py. on_screen s px py \<longrightarrow> fb_at s' px py
        = (if in_rect (unat x) (unat y) (unat w') (unat h') px py then convert_color s c else fb_at s px py)"
    using stores_at [OF ok rect_indices [OF ok w'(1,2)], of "convert_color s c"] unfolding run by blast
  moreover have "in_rect (unat x) (unat y) (unat w') (unat h') px py \<Longrightarrow> A px py" for px py
    using w'(3,4) by (auto simp: A_def in_rect_def)
  then have "drawn A s s'" using drawn_mono [OF s'(2)] by blast
  ultimately show ?thesis using clip by auto
qed

lemma fb_clear_at:
  assumes ok: "fb_ok s"
  shows "\<exists>s'. fb_clear c s = Some s' \<and> drawn (\<lambda>px py. True) s s'
    \<and> (\<forall>px py. on_screen s px py \<longrightarrow> fb_at s' px py = convert_color s c)"
proof -
  have "unat (0 :: u32) + unat (g_width s) \<le> unat (g_width s)" "unat (0 :: u32) + unat (g_height s) \<le> unat (g_height s)"
    by simp_all
  from rect_indices [OF ok this]
  have "set (concat (map (\<lambda>y. map (\<lambda>x. unat (y * g_pitch_pixels s) + unat x) (range32 0 (g_width s))) (range32 0 (g_height s))))
      = (\<lambda>(px, py). fb_index s px py) ` {(px, py). on_screen s px py \<and> True}"
    by (auto simp: in_rect_def on_screen_def)
  then show ?thesis
    using stores_at [OF ok, of _ "\<lambda>px py. True" "convert_color s c"] ok
    by (simp add: fb_clear_def fb_ok_def Let_def fill_loop)
qed

lemma fb_outline_drawn:
  assumes "fb_ok s"
  shows "\<exists>s'. fb_draw_rect_outline x y w h c s = Some s' \<and> drawn (\<lambda>px py. True) s s'"
proof -
  have two: "\<exists>s'. (fb_put_pixel x1 y1 c t \<bind> fb_put_pixel x2 y2 c) = Some s' \<and> drawn (\<lambda>px py. True) t s'"
    if tok: "fb_ok t" for x1 y1 x2 y2 t
  proof -
    obtain t1 where t1: "fb_put_pixel x1 y1 c t = Some t1" "drawn (\<lambda>px py. True) t t1"
      using put_pixel_drawn [OF tok, of x1 y1 "\<lambda>px py. True"] by auto
    then obtain t2 where "fb_put_pixel x2 y2 c t1 = Some t2" "drawn (\<lambda>px py. True) t1 t2"
      using put_pixel_drawn [of t1 x2 y2 "\<lambda>px py. True"] drawn_geometry(1) [OF t1(2)] tok by auto
    then show ?thesis using t1 drawn_trans by auto
  qed
  have "\<exists>s1. for_each (\<lambda>i s. fb_put_pixel (x + i) y c s \<bind> fb_put_pixel (x + i) (y + h - 1) c) (range32 0 w) s = Some s1
      \<and> drawn (\<lambda>px py. True) s s1"
    by (rule drawn_loop [OF assms]) (rule two)
  then obtain s1 where s1: "for_each (\<lambda>i s. fb_put_pixel (x + i) y c s \<bind> fb_put_pixel (x + i) (y + h - 1) c) (range32 0 w) s = Some s1"
      "drawn (\<lambda>px py. True) s s1" by blast
  then have "fb_ok s1" using assms drawn_geometry(1) by blast
  then have "\<exists>s2. for_each (\<lambda>i s. fb_put_pixel x (y + i) c s \<bind> fb_put_pixel (x + w - 1) (y + i) c) (range32 0 h) s1 = Some s2
      \<and> drawn (\<lambda>px py. True) s1 s2"
    by (rule drawn_loop) (rule two)
  then show ?thesis
    using s1 assms drawn_trans [OF s1(2)] by (auto simp: fb_draw_rect_outline_def fb_ok_def)
qed

text \<open>The pixels of a character, in the order they are drawn.\<close>

definition char_plots :: "u32 \<Rightarrow> u32 \<Rightarrow> char \<Rightarrow> u32 \<Rightarrow> u32 \<Rightarrow> nat \<Rightarrow> nat \<Rightarrow> (u32 \<times> u32 \<times> u32) list" where
  "char_plots x y c fg bg cy cx =
     (if glyph_of c ! cy AND drop_bit cx 0x80 \<noteq> 0 then [(x + of_nat cx, y + of_nat cy, fg)]
      else if bg \<noteq> 0 then [(x + of_nat cx, y + of_nat cy, bg)] else [])"

lemma draw_char_plots:
  "fb_draw_char x y c fg bg s =
     for_each plot (concat (map (\<lambda>cy. concat (map (char_plots x y c fg bg cy) [0..<8])) [0..<16])) s"
proof -
  have "(\<lambda>cx s. if glyph_of c ! cy AND drop_bit cx 0x80 \<noteq> 0 then fb_put_pixel (x + of_nat cx) (y + of_nat cy) fg s
      else if bg \<noteq> 0 then fb_put_pixel (x + of_nat cx) (y + of_nat cy) bg s else Some s)
    = (\<lambda>cx. for_each plot (char_plots x y c fg bg cy cx))" for cy
    by (auto simp: fun_eq_iff char_plots_def plot_def)
  moreover have "for_each (\<lambda>cx. for_each plot (char_plots x y c fg bg cy cx)) [0..<8]
      = for_each plot (concat (map (char_plots x y c fg bg cy) [0..<8]))" for cy
    by (rule ext) (rule for_each_nest)
  ultimately show ?thesis
    unfolding fb_draw_char_def Let_def by (simp only: for_each_nest)
qed

lemma picture_char:
  fixes x y fg bg :: u32 and c :: char
  assumes "unat x + 8 \<le> 2 ^ 32" and "unat y + 16 \<le> 2 ^ 32"
  defines "ts \<equiv> concat (map (\<lambda>cy. concat (map (char_plots x y c fg bg cy) [0..<8])) [0..<16])"
  shows "cx < 8 \<Longrightarrow> cy < 16 \<Longrightarrow> picture s ts (unat x + cx, unat y + cy) =
      (if glyph_of c ! cy AND drop_bit cx 0x80 \<noteq> 0 then Some (convert_color s fg)
       else if bg \<noteq> 0 then Some (convert_color s bg) else None)"
    and "(px, py, k) \<in> set ts \<Longrightarrow> in_rect (unat x) (unat y) 8 16 (unat px) (unat py)"
proof -
  have pos: "unat (x + of_nat cx) = unat x + cx" "unat (y + of_nat cy) = unat y + cy" if "cx < 8" "cy < 16" for cx cy
    using that assms(1,2) by (auto intro!: unat_add_u32 [THEN trans] simp: unat_of_nat_small)
  have in_ts: "(px, py, k) \<in> set ts \<longleftrightarrow> (\<exists>cx < 8. \<exists>cy < 16. (px, py, k) \<in> set (char_plots x y c fg bg cy cx))" for px py k
    by (simp add: ts_def Bex_def) blast
  show "in_rect (unat x) (unat y) 8 16 (unat px) (unat py)" if "(px, py, k) \<in> set ts"
    using that pos unfolding in_ts by (auto simp: char_plots_def in_rect_def split: if_splits)
  show "picture s ts (unat x + cx, unat y + cy) =
      (if glyph_of c ! cy AND drop_bit cx 0x80 \<noteq> 0 then Some (convert_color s fg)
       else if bg \<noteq> 0 then Some (convert_color s bg) else None)" if cc: "cx < 8" "cy < 16"
  proof -
    let ?ps = "rev (map (\<lambda>(x, y, c). ((unat x, unat y), convert_color s c)) ts)"
    have val: "v = (if glyph_of c ! cy AND drop_bit cx 0x80 \<noteq> 0 then convert_color s fg else convert_color s bg)
        \<and> (glyph_of c ! cy AND drop_bit cx 0x80 \<noteq> 0 \<or> bg \<noteq> 0)"
      if v: "((unat x + cx, unat y + cy), v) \<in> set ?ps" for v
    proof -
      obtain px py k where p: "(px, py, k) \<in> set ts" "unat px = unat x + cx" "unat py = unat y + cy" "v = convert_color s k"
        using v by auto
      then obtain dx dy where "dx < 8" "dy < 16" "(px, py, k) \<in> set (char_plots x y c fg bg dy dx)"
        using in_ts by blast
      then show ?thesis using p(2-4) pos by (auto simp: char_plots_def split: if_splits)
    qed
    show ?thesis
    proof (cases "map_of ?ps (unat x + cx, unat y + cy)")
      case (Some v)
      then show ?thesis using val [OF map_of_SomeD [OF Some]] by (auto simp: picture_def)
    next
      case None
      have "\<not> (glyph_of c ! cy AND drop_bit cx 0x80 \<noteq> 0 \<or> bg \<noteq> 0)"
      proof
        assume "glyph_of c ! cy AND drop_bit cx 0x80 \<noteq> 0 \<or> bg \<noteq> 0"
        then have "(x + of_nat cx, y + of_nat cy, if glyph_of c ! cy AND drop_bit cx 0x80 \<noteq> 0 then fg else bg)
            \<in> set (char_plots x y c fg bg cy cx)" (is "(_, _, ?k) \<in> _")
          by (auto simp: char_plots_def)
        then have "(x + of_nat cx, y + of_nat cy, ?k) \<in> set ts" using in_ts cc by blast
        then have "(unat x + cx, unat y + cy) \<in> fst ` set ?ps" using pos [OF cc] by force
        then show False using None by (simp add: map_of_eq_None_iff)
      qed
      then show ?thesis using None by (simp add: picture_def)
    qed
  qed
qed

lemma glyph_bit:
  fixes row :: u8
  assumes "cx < 8"
  shows "row AND drop_bit cx 0x80 \<noteq> 0 \<longleftrightarrow> bit row (7 - cx)"
proof -
  have "list_all (\<lambda>k. drop_bit k (0x80 :: u8) = 2 ^ (7 - k)) [0..<8]" by code_simp
  from all_below [OF this assms] show ?thesis by (simp add: and_exp_eq_0_iff_not_bit)
qed

lemma fb_draw_char_drawn:
  assumes "fb_ok s"
  shows "\<exists>s'. fb_draw_char x y c fg bg s = Some s' \<and> drawn (\<lambda>px py. True) s s'"
  using plots [OF assms] drawn_mono [of _ s _ "\<lambda>px py. True"] unfolding draw_char_plots by blast

lemma draw_string_loop_drawn:
  "fb_ok s \<Longrightarrow> \<exists>s'. draw_string_loop x cx y t fg bg s = Some s' \<and> drawn (\<lambda>px py. True) s s'"
proof (induction x cx y t fg bg s rule: draw_string_loop.induct)
  case (1 x cx y fg bg s)
  then show ?case by (simp add: drawn_refl)
next
  case (2 x cx y c cs fg bg s)
  show ?case
  proof (cases "c = CHR 0x0A")
    case True
    then show ?thesis using 2 by simp
  next
    case False
    obtain s1 where s1: "fb_draw_char cx y c fg bg s = Some s1" "drawn (\<lambda>px py. True) s s1"
      using fb_draw_char_drawn [OF "2.prems"] by blast
    then obtain s2 where "draw_string_loop x (cx + 9) y cs fg bg s1 = Some s2" "drawn (\<lambda>px py. True) s1 s2"
      using "2.IH"(2) [OF False] "2.prems" drawn_geometry(1) [OF s1(2)] by blast
    then show ?thesis using False s1 drawn_trans by auto
  qed
qed

lemma fb_draw_string_drawn:
  assumes "fb_ok s"
  shows "\<exists>s'. fb_draw_string x y t fg bg s = Some s' \<and> drawn (\<lambda>px py. True) s s'"
  using draw_string_loop_drawn [OF assms] drawn_refl by (cases t) (auto simp: fb_draw_string_def)

lemma fb_draw_badge_drawn:
  assumes "fb_ok s" and "unat x + 9 * length t + 16 < 2 ^ 32" and "unat y + 24 < 2 ^ 32"
  shows "\<exists>s'. fb_draw_badge x y (Some t) bg fg s = Some s' \<and> drawn (\<lambda>px py. True) s s'"
proof -
  let ?w = "of_nat (length t * 9 + 16) :: u32"
  have "unat ?w = length t * 9 + 16" using assms(2) by (intro unat_of_nat_small) simp
  then have "unat x + unat ?w < 2 ^ 32" "unat y + unat (24 :: u32) < 2 ^ 32" using assms(2,3) by simp_all
  then obtain s1 where s1: "fb_fill_rect x y ?w 24 bg s = Some s1" "drawn (\<lambda>px py. True) s s1"
    using fb_fill_rect_at [OF assms(1)] drawn_mono [of _ s _ "\<lambda>px py. True"] by blast
  then obtain s2 where s2: "fb_draw_rect_outline x y ?w 24 COLOR_CARD_BORDER s1 = Some s2" "drawn (\<lambda>px py. True) s1 s2"
    using fb_outline_drawn [of s1] assms(1) drawn_geometry(1) [OF s1(2)] by blast
  then obtain s3 where "fb_draw_string (x + 8) (y + 4) (Some t) fg 0 s2 = Some s3" "drawn (\<lambda>px py. True) s2 s3"
    using fb_draw_string_drawn [of s2] assms(1) drawn_geometry(1) [OF s1(2)] drawn_geometry(1) [OF s2(2)] by blast
  then show ?thesis
    using s1 s2 drawn_trans [OF s1(2) drawn_trans [OF s2(2)]] by (auto simp: fb_draw_badge_def Let_def)
qed

section \<open>Scrolling\<close>

lemma copy_row_prefix:
  assumes ok: "fb_ok s" and d: "unat d < unat (g_height s)" and r: "unat r < unat (g_height s)" and "d \<noteq> r"
  shows "n \<le> unat (g_width s) \<Longrightarrow>
    \<exists>s'. for_each (\<lambda>x :: u32. copy_pixel (unat (d * g_pitch_pixels s) + unat x) (unat (r * g_pitch_pixels s) + unat x))
        (map of_nat [0..<n]) s = Some s' \<and> drawn (\<lambda>px py. py = unat d) s s'
      \<and> (\<forall>px py. on_screen s px py \<longrightarrow> fb_at s' px py = (if py = unat d \<and> px < n then fb_at s px (unat r) else fb_at s px py))"
proof (induction n)
  case 0
  then show ?case by (simp add: drawn_refl)
next
  case (Suc n)
  then have "n \<le> unat (g_width s)" by simp
  then obtain s1 where s1: "for_each (\<lambda>x :: u32. copy_pixel (unat (d * g_pitch_pixels s) + unat x) (unat (r * g_pitch_pixels s) + unat x))
        (map of_nat [0..<n]) s = Some s1" "drawn (\<lambda>px py. py = unat d) s s1"
      "\<And>px py. on_screen s px py \<Longrightarrow> fb_at s1 px py = (if py = unat d \<and> px < n then fb_at s px (unat r) else fb_at s px py)"
    using Suc.IH by blast
  note g = drawn_geometry [OF s1(2)]
  have n: "unat (of_nat n :: u32) = n"
    using Suc.prems unat_u32_bound [of "g_width s"] by (intro unat_of_nat_small) simp
  have ne: "unat d \<noteq> unat r" using assms(4) by (simp add: word_unat_eq_iff)
  have on: "on_screen s n (unat d)" "on_screen s n (unat r)" using Suc.prems d r by (simp_all add: on_screen_def)
  note lt = on_screen_index(2) [OF ok on(1)]
  have idx: "unat (d * g_pitch_pixels s) + n = fb_index s n (unat d)" "unat (r * g_pitch_pixels s) + n = fb_index s n (unat r)"
    using row_exact [OF ok d, of 0 n] row_exact [OF ok r, of 0 n] lt by simp_all
  define c where "c = fb_at s n (unat r)"
  have c: "pixels s1 ! fb_index s n (unat r) = c"
    using s1(3) [OF on(2)] ne by (simp add: fb_at_def g(8) c_def)
  define s2 where "s2 = s1\<lparr>pixels := (pixels s1)[fb_index s1 n (unat d) := c]\<rparr>"
  have ok1: "fb_ok s1" "on_screen s1 n (unat d)" using ok on g by simp_all
  have st: "store_pixel (fb_index s n (unat d)) c s1 = Some s2" "drawn (\<lambda>px py. py = unat d) s1 s2"
    using store_on_screen [OF ok1, of "\<lambda>px py. py = unat d" c] by (simp_all add: s2_def g(8))
  have "copy_pixel (unat (d * g_pitch_pixels s) + unat (of_nat n :: u32)) (unat (r * g_pitch_pixels s) + unat (of_nat n :: u32)) s1 = Some s2"
    using idx n st(1) c on_screen_index(1) [OF ok on(2)] g(10) by (simp add: copy_pixel_def)
  then have run: "for_each (\<lambda>x :: u32. copy_pixel (unat (d * g_pitch_pixels s) + unat x) (unat (r * g_pitch_pixels s) + unat x))
        (map of_nat [0..<Suc n]) s = Some s2"
    using s1(1) by (simp add: for_each_append)
  have at: "fb_at s2 px py = (if (px, py) = (n, unat d) then c else fb_at s1 px py)" if "on_screen s px py" for px py
    unfolding s2_def using that g(7) by (intro store_at [OF ok1]) simp
  have "fb_at s2 px py = (if py = unat d \<and> px < Suc n then fb_at s px (unat r) else fb_at s px py)" if "on_screen s px py" for px py
    using at [OF that] s1(3) [OF that] by (auto simp: c_def less_Suc_eq)
  then show ?case using run drawn_trans [OF s1(2) st(2)] by blast
qed

lemma range32_zero: "range32 0 b = map of_nat [0..<unat b]"
  by (simp add: range32_def)

text \<open>
  After the copies up to row \<open>n\<close> the rows from \<open>y\<close> on hold what was \<open>k\<close> rows below.  The
  sources are still untouched, because they lie below all rows written so far.
\<close>

lemma copy_rows:
  assumes ok: "fb_ok s" and k: "0 < unat k" and yk: "unat y + unat k < 2 ^ 32"
  shows "unat y + unat k + n \<le> unat (g_height s) \<Longrightarrow>
    \<exists>s'. for_each (\<lambda>r. for_each (\<lambda>x. copy_pixel (unat ((r - k) * g_pitch_pixels s) + unat x)
          (unat (r * g_pitch_pixels s) + unat x)) (range32 0 (g_width s)))
        (map of_nat [unat y + unat k..<unat y + unat k + n]) s = Some s' \<and> drawn (\<lambda>px py. unat y \<le> py \<and> py < unat y + n) s s'
      \<and> (\<forall>px py. on_screen s px py \<longrightarrow>
           fb_at s' px py = (if unat y \<le> py \<and> py < unat y + n then fb_at s px (py + unat k) else fb_at s px py))"
proof (induction n)
  case 0
  then show ?case by (auto simp: drawn_refl)
next
  case (Suc n)
  let ?body = "\<lambda>r. for_each (\<lambda>x. copy_pixel (unat ((r - k) * g_pitch_pixels s) + unat x)
          (unat (r * g_pitch_pixels s) + unat x)) (range32 0 (g_width s))"
  have "unat y + unat k + n \<le> unat (g_height s)" using Suc.prems by simp
  then obtain s1 where s1: "for_each ?body (map of_nat [unat y + unat k..<unat y + unat k + n]) s = Some s1"
      "drawn (\<lambda>px py. unat y \<le> py \<and> py < unat y + n) s s1"
      "\<And>px py. on_screen s px py \<Longrightarrow>
         fb_at s1 px py = (if unat y \<le> py \<and> py < unat y + n then fb_at s px (py + unat k) else fb_at s px py)"
    using Suc.IH by blast
  note g = drawn_geometry [OF s1(2)]
  define r where "r = (of_nat (unat y + unat k + n) :: u32)"
  have r: "unat r = unat y + unat k + n"
    using Suc.prems unat_u32_bound [of "g_height s"] unfolding r_def by (intro unat_of_nat_small) simp
  then have d: "unat (r - k) = unat y + n" by (simp add: unat_sub_u32 word_le_nat_alt)
  have lt: "unat (r - k) < unat (g_height s1)" "unat r < unat (g_height s1)" "r - k \<noteq> r"
    using r d Suc.prems k g(3) by (auto simp: word_unat_eq_iff)
  obtain s2 where s2: "?body r s1 = Some s2" "drawn (\<lambda>px py. py = unat (r - k)) s1 s2"
      "\<And>px py. on_screen s px py \<Longrightarrow> fb_at s2 px py = (if py = unat (r - k) \<and> px < unat (g_width s) then fb_at s1 px (unat r) else fb_at s1 px py)"
    using copy_row_prefix [OF _ lt, of "unat (g_width s)"] ok unfolding g range32_zero by auto
  have "for_each ?body (map of_nat [unat y + unat k..<unat y + unat k + Suc n]) s = Some s2"
    using s1(1) s2(1) by (simp add: for_each_append r_def)
  moreover have "drawn (\<lambda>px py. unat y \<le> py \<and> py < unat y + Suc n) s s2"
    by (rule drawn_trans [OF drawn_mono [OF s1(2)] drawn_mono [OF s2(2)]]) (simp_all add: d)
  moreover have "fb_at s2 px py = (if unat y \<le> py \<and> py < unat y + Suc n then fb_at s px (py + unat k) else fb_at s px py)"
    if on: "on_screen s px py" for px py
  proof -
    have "on_screen s px (unat r)" using on lt(2) g(3) by (simp add: on_screen_def)
    then have "fb_at s1 px (unat r) = fb_at s px (unat r)" using s1(3) [of px "unat r"] r k by simp
    then show ?thesis
      using s2(3) [OF on] s1(3) [OF on] on d r by (auto simp: on_screen_def less_Suc_eq add.commute add.left_commute)
  qed
  ultimately show ?case by blast
qed

text \<open>The two steps of scrolling by less than the window: the rows move up, then the free rows are filled.\<close>

lemma scroll_rows:
  assumes ok: "fb_ok s" and H: "unat y + H \<le> unat (g_height s)" "unat (y + h') = unat y + H" and k: "unat d = k" "0 < k" "k < H"
  shows "\<exists>s'. (for_each (\<lambda>r. for_each (\<lambda>x. copy_pixel (unat ((r - d) * g_pitch_pixels s) + unat x)
              (unat (r * g_pitch_pixels s) + unat x)) (range32 0 (g_width s))) (range32 (y + d) (y + h')) s
            \<bind> fb_fill_rect 0 (y + h' - d) (g_width s) d c) = Some s'
    \<and> drawn (\<lambda>px py. unat y \<le> py \<and> py < unat y + H) s s'
    \<and> (\<forall>px py. on_screen s px py \<longrightarrow> fb_at s' px py =
        (if py < unat y \<or> unat y + H \<le> py then fb_at s px py
         else if py + k < unat y + H then fb_at s px (py + k) else convert_color s c))"
proof -
  note gh = unat_u32_bound [of "g_height s"] and gw = unat_u32_bound [of "g_width s"]
  have yk: "unat (y + d) = unat y + k" using k H gh by (simp add: unat_add_u32)
  then have rng: "range32 (y + d) (y + h') = map of_nat [unat y + unat d..<unat y + unat d + (H - k)]"
    using k H(2) by (simp add: range32_def)
  have pre: "unat y + unat d < 2 ^ 32" "unat y + unat d + (H - k) \<le> unat (g_height s)" "0 < unat d"
    using H gh k by simp_all
  obtain s1 where s1: "for_each (\<lambda>r. for_each (\<lambda>x. copy_pixel (unat ((r - d) * g_pitch_pixels s) + unat x)
            (unat (r * g_pitch_pixels s) + unat x)) (range32 0 (g_width s))) (range32 (y + d) (y + h')) s = Some s1"
      "drawn (\<lambda>px py. unat y \<le> py \<and> py < unat y + (H - k)) s s1"
      "\<forall>px py. on_screen s px py \<longrightarrow> fb_at s1 px py
        = (if unat y \<le> py \<and> py < unat y + (H - k) then fb_at s px (py + k) else fb_at s px py)"
    using copy_rows [OF ok pre(3,1,2)] unfolding rng k(1) by blast
  note g = drawn_geometry [OF s1(2)]
  have y2: "unat (y + h' - d) = unat y + (H - k)"
    using H(2) k by (simp add: unat_sub_u32 word_le_nat_alt)
  obtain s2 where s2: "fb_fill_rect 0 (y + h' - d) (g_width s) d c s1 = Some s2"
      "drawn (in_rect 0 (unat y + (H - k)) (unat (g_width s)) k) s1 s2"
      "\<forall>px py. on_screen s px py \<longrightarrow> fb_at s2 px py
        = (if in_rect 0 (unat y + (H - k)) (unat (g_width s)) k px py then convert_color s c else fb_at s1 px py)"
    using fb_fill_rect_at [of s1 0 "g_width s" "y + h' - d" d c] ok H gh gw y2 k g by auto
  have "drawn (\<lambda>px py. unat y \<le> py \<and> py < unat y + H) s s2"
    by (rule drawn_trans [OF drawn_mono [OF s1(2)] drawn_mono [OF s2(2)]]) (use k in \<open>auto simp: in_rect_def\<close>)
  then show ?thesis using s1(1,3) s2(1,3) k(3) by (auto simp: in_rect_def on_screen_def)
qed

lemma fb_scroll_up_at:
  assumes ok: "fb_ok s" and y: "y < g_height s" and h: "0 < unat height" "unat y + unat height < 2 ^ 32"
    and l: "0 < unat lines" "unat lines * 18 < 2 ^ 32"
  defines "k \<equiv> unat lines * 18" and "H \<equiv> min (unat height) (unat (g_height s) - unat y)"
  shows "\<exists>s'. fb_scroll_up y height lines c s = Some s' \<and> drawn (\<lambda>px py. unat y \<le> py \<and> py < unat y + H) s s'
    \<and> (\<forall>px py. on_screen s px py \<longrightarrow> fb_at s' px py =
        (if py < unat y \<or> unat y + H \<le> py then fb_at s px py
         else if py + k < unat y + H then fb_at s px (py + k) else convert_color s c))"
proof -
  define h' where "h' = (if g_height s < y + height then g_height s - y else height)"
  have yh: "unat (y + height) = unat y + unat height" using h(2) by (simp add: unat_add_u32)
  have h': "unat h' = H" "unat y + H \<le> unat (g_height s)" "0 < H"
    using y h(1) yh by (auto simp: h'_def H_def unat_sub_u32 word_less_nat_alt word_le_nat_alt)
  have k: "unat (lines * 18) = k" "0 < k" using l by (simp_all add: k_def unat_word_ariths)
  note gh = unat_u32_bound [of "g_height s"] and gw = unat_u32_bound [of "g_width s"]
  have run: "fb_scroll_up y height lines c s = (if h' \<le> lines * 18 then fb_fill_rect 0 y (g_width s) h' c s
      else for_each (\<lambda>r. for_each (\<lambda>x. copy_pixel (unat ((r - lines * 18) * g_pitch_pixels s) + unat x)
              (unat (r * g_pitch_pixels s) + unat x)) (range32 0 (g_width s)))
            (range32 (y + lines * 18) (y + h')) s \<bind> fb_fill_rect 0 (y + h' - lines * 18) (g_width s) (lines * 18) c)"
    using ok y h(1) l(1) by (auto simp: fb_scroll_up_def fb_ok_def Let_def h'_def [symmetric] not_le)
  show ?thesis
  proof (cases "H \<le> k")
    case True
    obtain s' where "fb_fill_rect 0 y (g_width s) h' c s = Some s'"
        "drawn (in_rect (unat (0 :: u32)) (unat y) (unat (g_width s)) (unat h')) s s'"
        "\<forall>px py. on_screen s px py \<longrightarrow> fb_at s' px py
          = (if in_rect (unat (0 :: u32)) (unat y) (unat (g_width s)) (unat h') px py then convert_color s c else fb_at s px py)"
      using fb_fill_rect_at [OF ok, of 0 "g_width s" y h' c] h' gh gw by auto
    moreover have "h' \<le> lines * 18" using True h'(1) k(1) by (simp add: word_le_nat_alt)
    ultimately show ?thesis
      using run h'(1) True by (auto simp: in_rect_def on_screen_def elim!: drawn_mono)
  next
    case False
    have "unat (y + h') = unat y + H" using False h' gh by (simp add: unat_add_u32)
    moreover have "\<not> h' \<le> lines * 18" using False h'(1) k(1) by (simp add: word_le_nat_alt)
    ultimately show ?thesis using scroll_rows [OF ok h'(2) _ k, of h' c] False run by simp
  qed
qed

section \<open>Faults\<close>

lemma stores_fail:
  "i \<in> set is \<Longrightarrow> length (pixels s) \<le> i \<Longrightarrow> for_each (\<lambda>i. store_pixel i c) is s = None"
proof (induction "is" arbitrary: s)
  case (Cons j "is")
  show ?case
  proof (cases "j < length (pixels s)")
    case True
    then show ?thesis using Cons.IH [of "s\<lparr>pixels := (pixels s)[j := c]\<rparr>"] Cons.prems by (auto simp: store_pixel_def)
  next
    case False
    then show ?thesis by (simp add: store_pixel_def)
  qed
qed simp

text \<open>
  The clipping test of \<^verbatim>\<open>fb_fill_rect\<close> wraps around: a rectangle whose right edge is 2 to the 32
  is not clipped and overruns the framebuffer.
\<close>

lemma fb_fill_rect_wraps:
  assumes "fb_ok s" and "1 < g_width s" and "0 < g_height s"
  shows "fb_fill_rect 1 0 (- 1) 1 c s = None"
proof -
  let ?is = "concat (map (\<lambda>cy. map (\<lambda>cx. unat (cy * g_pitch_pixels s + 1) + unat cx) (range32 0 (- 1))) (range32 0 1))"
  define cx where "cx = (of_nat (length (pixels s) - 1) :: u32)"
  have "2 \<le> unat (g_pitch_pixels s)" "1 \<le> unat (g_height s)"
    using assms by (auto simp: fb_ok_def word_less_nat_alt word_le_nat_alt)
  then have "1 * 2 \<le> unat (g_height s) * unat (g_pitch_pixels s)" by (intro mult_mono) simp_all
  then have len: "2 \<le> length (pixels s)" "length (pixels s) < 2 ^ 32" using assms(1) by (auto simp: fb_ok_def)
  then have u: "unat cx = length (pixels s) - 1" unfolding cx_def by (intro unat_of_nat_small) simp
  have "unat cx < unat (- 1 :: u32)" using u len by (simp add: unsigned_minus_1_eq_mask mask_eq_exp_minus_1)
  then have "cx \<in> set (range32 0 (- 1))" by (simp add: in_range32 word_less_nat_alt)
  moreover have "(0 :: u32) \<in> set (range32 0 1)" by (simp add: in_range32)
  moreover have "unat (cy * g_pitch_pixels s + 1) + unat cx \<in> set ?is"
    if "cx \<in> set (range32 0 (- 1))" "cy \<in> set (range32 0 1)" for cx cy
    using that by (auto intro!: bexI [of _ cy] image_eqI [of _ _ cx])
  ultimately have mem: "unat (0 * g_pitch_pixels s + 1) + unat cx \<in> set ?is" by blast
  have "length (pixels s) \<le> unat (0 * g_pitch_pixels s + 1) + unat cx" using u by simp
  from stores_fail [OF mem this] have "for_each (\<lambda>i. store_pixel i (convert_color s c)) ?is s = None" .
  moreover have "\<not> g_width s \<le> 1" "\<not> g_height s \<le> 0" "\<not> g_height s < 1"
    using assms(2,3) by (auto simp: word_less_nat_alt word_le_nat_alt)
  ultimately show ?thesis
    unfolding fb_fill_rect_def Let_def fill_loop using assms(1) by (simp add: fb_ok_def)
qed

section \<open>Properties\<close>

datatype draw =
    Clear u32
  | Fill u32 u32 u32 u32 u32
  | Outline u32 u32 u32 u32 u32
  | Letter u32 u32 char u32 u32
  | Text u32 u32 "string option" u32 u32
  | Badge u32 u32 string u32 u32
  | Scroll u32 u32 u32 u32

fun draw_step :: "draw \<Rightarrow> fb_state \<Rightarrow> fb_state c_result" where
  "draw_step (Clear c) = fb_clear c"
| "draw_step (Fill x y w h c) = fb_fill_rect x y w h c"
| "draw_step (Outline x y w h c) = fb_draw_rect_outline x y w h c"
| "draw_step (Letter x y ch fg bg) = fb_draw_char x y ch fg bg"
| "draw_step (Text x y t fg bg) = fb_draw_string x y t fg bg"
| "draw_step (Badge x y t bg fg) = fb_draw_badge x y (Some t) bg fg"
| "draw_step (Scroll y h l c) = fb_scroll_up y h l c"

text \<open>Rectangles whose far corner is a 32-bit number.\<close>

fun no_wrap :: "draw \<Rightarrow> bool" where
  "no_wrap (Fill x y w h c) \<longleftrightarrow> unat x + unat w < 2 ^ 32 \<and> unat y + unat h < 2 ^ 32"
| "no_wrap (Badge x y t bg fg) \<longleftrightarrow> unat x + 9 * length t + 16 < 2 ^ 32 \<and> unat y + 24 < 2 ^ 32"
| "no_wrap (Scroll y h l c) \<longleftrightarrow> unat y + unat h < 2 ^ 32 \<and> unat l * 18 < 2 ^ 32"
| "no_wrap d \<longleftrightarrow> True"

lemma draw_step_drawn:
  assumes "fb_ok s" and "no_wrap d"
  shows "\<exists>s'. draw_step d s = Some s' \<and> drawn (\<lambda>px py. True) s s'"
proof (cases d)
  case (Clear c)
  then show ?thesis using fb_clear_at [OF assms(1), of c] by auto
next
  case (Fill x y w h c)
  then show ?thesis using fb_fill_rect_at [OF assms(1), of x w y h c] assms(2) by (auto elim!: drawn_mono)
next
  case (Outline x y w h c)
  then show ?thesis using fb_outline_drawn [OF assms(1)] by simp
next
  case (Letter x y ch fg bg)
  then show ?thesis using fb_draw_char_drawn [OF assms(1)] by simp
next
  case (Text x y t fg bg)
  then show ?thesis using fb_draw_string_drawn [OF assms(1)] by simp
next
  case (Badge x y t bg fg)
  then show ?thesis using fb_draw_badge_drawn [OF assms(1)] assms(2) by simp
next
  case (Scroll y h l c)
  show ?thesis
  proof (cases "g_height s \<le> y \<or> h = 0 \<or> l = 0")
    case True
    then show ?thesis using Scroll drawn_refl by (auto simp: fb_scroll_up_def)
  next
    case False
    then have "y < g_height s" "0 < unat h" "0 < unat l" by (auto simp: not_le unat_gt_0)
    then show ?thesis
      using Scroll fb_scroll_up_at [OF assms(1), of y h l c] assms(2) by (auto elim!: drawn_mono)
  qed
qed

text \<open>
  C28: drawing stays on the screen.  On a framebuffer whose rows fit its memory, every sequence
  of drawing operations with rectangles that do not wrap around returns, and the pixels that
  differ afterwards are visible ones: nothing outside the framebuffer and no padding
  between the rows is ever written, also for coordinates far off the screen.
\<close>

theorem fb_drawing_stays_on_screen:
  assumes "fb_base b \<noteq> 0" and "fb_width b \<le> fb_pitch b div 4"
    and "unat (fb_height b) * unat (fb_pitch b div 4) \<le> length mem" and "length mem < 2 ^ 32" and "list_all no_wrap ds"
  shows "\<exists>s'. for_each draw_step ds (fb_init mem (Some b) s) = Some s'
    \<and> length (pixels s') = length mem
    \<and> (\<forall>i < length mem. pixels s' ! i \<noteq> mem ! i \<longrightarrow>
         (\<exists>x y. x < unat (fb_width b) \<and> y < unat (fb_height b) \<and> i = y * unat (fb_pitch b div 4) + x))"
proof -
  let ?s = "fb_init mem (Some b) s"
  have ok: "fb_ok ?s" and px: "pixels ?s = mem" using assms(1-4) by (simp_all add: fb_init_def fb_ok_def)
  obtain s' where s': "for_each draw_step ds ?s = Some s'" "drawn (\<lambda>px py. True) ?s s'"
    using drawn_loop [OF ok, of ds draw_step "\<lambda>px py. True"] draw_step_drawn assms(5) by (auto simp: list_all_iff)
  then show ?thesis
    using drawn_geometry(10) [OF s'(2)] assms(1)
    by (auto simp: drawn_def px on_screen_def fb_index_def) (auto simp: fb_init_def)
qed

definition sample_fb :: boot_info where
  "sample_fb = zero_boot_info\<lparr>fb_base := 0x80000000, fb_width := 20, fb_height := 18, fb_pitch := 96, fb_is_bgr := 1\<rparr>"

definition blank_fb :: fb_state where
  "blank_fb = \<lparr>g_fb = False, pixels = [], g_width = 0, g_height = 0, g_pitch_pixels = 0, g_is_bgr = 0\<rparr>"

theorem fb_drawing_stays_on_screen_witness:
  "\<exists>s'. for_each draw_step [Fill 15 10 100 100 0xFFFFFFFF, Text 4 4 (Some ''Hi'') 1 2]
      (fb_init (replicate 432 0) (Some sample_fb) blank_fb) = Some s' \<and> length (pixels s') = 432"
proof -
  have f: "fb_base sample_fb \<noteq> 0" "fb_width sample_fb \<le> fb_pitch sample_fb div 4"
      "unat (fb_height sample_fb) * unat (fb_pitch sample_fb div 4) \<le> length (replicate 432 (0 :: u32))"
      "length (replicate 432 (0 :: u32)) < 2 ^ 32"
    by (simp_all add: sample_fb_def unat_div)
  show ?thesis
    using fb_drawing_stays_on_screen [OF f, of "[Fill 15 10 100 100 0xFFFFFFFF, Text 4 4 (Some ''Hi'') 1 2]" blank_fb]
    by (simp del: for_each.simps) blast
qed

text \<open>
  C29: text is drawn from the font.  The visible pixels of the 8 by 16 cell at a position take the
  foreground colour where the glyph has a bit set and the background colour elsewhere
  (none when that is 0); a character outside the printable range is a question
  mark, and no other pixel changes.
\<close>

theorem fb_draw_char_glyph:
  assumes "fb_ok s" and "unat x + 8 \<le> 2 ^ 32" and "unat y + 16 \<le> 2 ^ 32" and "cx < 8" and "cy < 16"
  shows "\<exists>s'. fb_draw_char x y c fg bg s = Some s'
    \<and> drawn (in_rect (unat x) (unat y) 8 16) s s'
    \<and> (on_screen s (unat x + cx) (unat y + cy) \<longrightarrow> fb_at s' (unat x + cx) (unat y + cy) =
        (if bit (glyph_of c ! cy) (7 - cx) then convert_color s fg
         else if bg \<noteq> 0 then convert_color s bg else fb_at s (unat x + cx) (unat y + cy)))"
proof -
  let ?ts = "concat (map (\<lambda>cy. concat (map (char_plots x y c fg bg cy) [0..<8])) [0..<16])"
  have glyph: "glyph_of c ! cy AND drop_bit cx 0x80 \<noteq> 0 \<longleftrightarrow> bit (glyph_of c ! cy) (7 - cx)"
    using assms(4) by (rule glyph_bit)
  obtain s' where s': "fb_draw_char x y c fg bg s = Some s'"
      "drawn (\<lambda>px py. \<exists>x y c. (x, y, c) \<in> set ?ts \<and> px = unat x \<and> py = unat y) s s'"
      "\<And>px py. on_screen s px py \<Longrightarrow> fb_at s' px py = (case picture s ?ts (px, py) of None \<Rightarrow> fb_at s px py | Some c \<Rightarrow> c)"
    using plots [OF assms(1), of ?ts] unfolding draw_char_plots by blast
  have "drawn (in_rect (unat x) (unat y) 8 16) s s'"
    by (rule drawn_mono [OF s'(2)]) (use picture_char(2) [OF assms(2,3)] in blast)
  then show ?thesis
    using s'(1) s'(3) [of "unat x + cx" "unat y + cy"] picture_char(1) [OF assms(2-5), of s c fg bg] glyph by auto
qed

theorem fb_draw_char_glyph_witness:
  "\<exists>s'. fb_draw_char 4 2 (CHR ''H'') 7 9 (fb_init (replicate 432 0) (Some sample_fb) blank_fb) = Some s'
    \<and> fb_at s' 4 4 = 7 \<and> fb_at s' 4 4 \<noteq> 9"
proof -
  let ?s = "fb_init (replicate 432 0) (Some sample_fb) blank_fb"
  have ok: "fb_ok ?s" "on_screen ?s 4 4" "convert_color ?s 7 = 7"
    by (simp_all add: fb_ok_def fb_init_def sample_fb_def unat_div on_screen_def convert_color_def)
  have "glyph_of (CHR ''H'') ! 2 = 0xC3" by (simp add: glyph_of_def font_8x16_basic_def)
  then have "bit (glyph_of (CHR ''H'') ! 2) (7 - 0)" by (simp add: bit_iff_odd_drop_bit drop_bit_eq_div)
  then show ?thesis
    using fb_draw_char_glyph [OF ok(1), of 4 2 0 2 "CHR ''H''" 7 9] ok(2,3) by auto
qed

text \<open>
  C30: scrolling moves the text up.  Inside the band of the screen every visible row takes the
  pixels of the row \<open>18 * lines\<close> below, in spite of the copy in place, the rows at the bottom take the
  colour, and nothing outside the band changes.
\<close>

theorem fb_scroll_up_moves_rows:
  assumes "fb_ok s" and "y < g_height s" and "0 < unat height" and "unat y + unat height < 2 ^ 32"
    and "0 < unat lines" and "unat lines * 18 < 2 ^ 32" and "on_screen s px py"
  shows "\<exists>s'. fb_scroll_up y height lines c s = Some s' \<and> drawn (\<lambda>px py. unat y \<le> py \<and> py < unat y + unat height) s s'
    \<and> fb_at s' px py =
        (if py < unat y \<or> unat y + unat height \<le> py then fb_at s px py
         else if py + unat lines * 18 < min (unat y + unat height) (unat (g_height s))
         then fb_at s px (py + unat lines * 18) else convert_color s c)"
proof -
  have H: "unat y + min (unat height) (unat (g_height s) - unat y) = min (unat y + unat height) (unat (g_height s))"
    using assms(2) by (auto simp: word_less_nat_alt)
  obtain s' where "fb_scroll_up y height lines c s = Some s'"
      "drawn (\<lambda>px py. unat y \<le> py \<and> py < min (unat y + unat height) (unat (g_height s))) s s'"
      "fb_at s' px py =
        (if py < unat y \<or> min (unat y + unat height) (unat (g_height s)) \<le> py then fb_at s px py
         else if py + unat lines * 18 < min (unat y + unat height) (unat (g_height s))
         then fb_at s px (py + unat lines * 18) else convert_color s c)"
    using fb_scroll_up_at [OF assms(1-6), of c] assms(7) unfolding H by blast
  then show ?thesis using assms(7) by (auto simp: on_screen_def elim!: drawn_mono)
qed

theorem fb_scroll_up_moves_rows_witness:
  "\<exists>s'. fb_scroll_up 0 18 1 5 (fb_init (replicate 432 0) (Some sample_fb) blank_fb) = Some s' \<and> fb_at s' 3 3 = 5"
proof -
  let ?s = "fb_init (replicate 432 0) (Some sample_fb) blank_fb"
  have ok: "fb_ok ?s" "on_screen ?s 3 3" "convert_color ?s 5 = 5" "0 < g_height ?s" "g_height ?s = 18"
    by (simp_all add: fb_ok_def fb_init_def sample_fb_def unat_div on_screen_def convert_color_def)
  show ?thesis
    using fb_scroll_up_moves_rows [OF ok(1,4) _ _ _ _ ok(2), of 18 1 5] ok(3,5) by auto
qed

end
