(* ===== verification/Minos_Power.thy ===== *)
theory Minos_Power
  imports Minos_PortIO
begin

text \<open>
  Reset and power-off of \<^verbatim>\<open>kernel/power.c\<close>: the port accesses of the two functions.  Neither
  returns: after its last access it halts with interrupts off, so the state after the definition is
  the last one the kernel reaches.
\<close>

definition KBD_CMD_PULSE_RESET :: u8 where "KBD_CMD_PULSE_RESET = 0xFE"
definition RESET_CONTROL_PORT :: u16 where "RESET_CONTROL_PORT = 0xCF9"
definition ACPI_SHUTDOWN_PORT :: u16 where "ACPI_SHUTDOWN_PORT = 0x604"
definition BOCHS_SHUTDOWN_PORT :: u16 where "BOCHS_SHUTDOWN_PORT = 0xB004"
definition QEMU_SHUTDOWN_VALUE :: u16 where "QEMU_SHUTDOWN_VALUE = 0x2000"

definition controller_idle :: "'d hw \<Rightarrow> (('d, 'm) machine_scheme, bool) state" where
  "controller_idle hw = do { v \<leftarrow> inb hw 0x64; State_Monad.return (v AND 0x02 = 0) }"

definition power_reboot :: "'d hw \<Rightarrow> (('d, 'm) machine_scheme, unit) state" where
  "power_reboot hw = do {
     log_text (''[MinOS Power] Reboot requested.'' @ [CHR 0x0A]);
     timeout \<leftarrow> poll (controller_idle hw) 100000;
     (if timeout \<noteq> 0 then outb hw 0x64 KBD_CMD_PULSE_RESET else State_Monad.return ());
     io_wait hw;
     outb hw RESET_CONTROL_PORT 0x02;
     io_wait hw;
     outb hw RESET_CONTROL_PORT 0x06
   }"

definition power_shutdown :: "'d hw \<Rightarrow> (('d, 'm) machine_scheme, unit) state" where
  "power_shutdown hw = do {
     log_text (''[MinOS Power] Shutdown requested.'' @ [CHR 0x0A]);
     outw hw ACPI_SHUTDOWN_PORT QEMU_SHUTDOWN_VALUE;
     outw hw BOCHS_SHUTDOWN_PORT QEMU_SHUTDOWN_VALUE
   }"

lemma only_reads_idle: "only_reads 1 m (snd (run_state (controller_idle hw) m))"
  using only_reads_inb [of 0 m hw "0x64"] by (simp add: controller_idle_def split_beta)

text \<open>
  A reboot always comes to the reset-control port, at the latest after 100000 polls of a keyboard
  controller that stays busy, and pulses the controller's reset line before exactly when it became
  idle.
\<close>

lemma power_reboot_resets:
  fixes m :: "('d, 'm) machine_scheme"
  shows "\<exists>pulse. outputs (trace (snd (run_state (power_reboot hw) m))) = outputs (trace m) @ pulse
      @ [Out8 0x80 0, Out8 RESET_CONTROL_PORT 0x02, Out8 0x80 0, Out8 RESET_CONTROL_PORT 0x06]
    \<and> pulse \<in> {[], [Out8 0x64 KBD_CMD_PULSE_RESET]}"
proof -
  define m1 where "m1 = m\<lparr>klog := klog m @ ''[MinOS Power] Reboot requested.'' @ [CHR 0x0A]\<rparr>"
  obtain n m2 where p: "run_state (poll (controller_idle hw) 100000) m1 = (n, m2)" by force
  have "only_reads 100000 m1 m2"
    using poll_only_reads [of "controller_idle hw" 100000 m1, OF only_reads_idle] p by simp
  then have "outputs (trace m2) = outputs (trace m)"
    using only_reads_outputs by (fastforce simp: m1_def)
  then show ?thesis
    using p by (cases "n = 0") (simp_all add: power_reboot_def run_simps m1_def del: poll.simps)
qed

lemma power_shutdown_ports:
  "trace (snd (run_state (power_shutdown hw) m))
     = trace m @ [Out16 ACPI_SHUTDOWN_PORT QEMU_SHUTDOWN_VALUE, Out16 BOCHS_SHUTDOWN_PORT QEMU_SHUTDOWN_VALUE]"
  by (simp add: power_shutdown_def run_simps)

end
