(* ===== verification/Minos_Console.thy ===== *)
theory Minos_Console
  imports Minos_VfsDisk Minos_Fb Minos_Pmm Minos_Input Minos_Power
begin

text \<open>
  The console of \<^verbatim>\<open>kernel/console.c\<close>: output on the framebuffer, the line editor with its history,
  and the shell commands.  The command buffer is the array of 128 characters; the working directory
  and the history lines, which are only read as C strings, are strings.  The values that
  \<^verbatim>\<open>timer_ticks\<close> and \<^verbatim>\<open>timer_frequency\<close> answer while the console runs are fields of the
  state.  An access outside an array is undefined, \<^term>\<open>None\<close>.  Output to the serial port is in \<open>klog\<close>.
\<close>

section \<open>State\<close>

definition CONSOLE_CHAR_WIDTH :: u32 where "CONSOLE_CHAR_WIDTH = 9"
definition CONSOLE_LINE_HEIGHT :: u32 where "CONSOLE_LINE_HEIGHT = 18"
definition CONSOLE_MARGIN :: u32 where "CONSOLE_MARGIN = 16"
definition CONSOLE_BG :: u32 where "CONSOLE_BG = 0xFF101722"
definition CONSOLE_FG :: u32 where "CONSOLE_FG = 0xFFF8FAFC"
definition CONSOLE_CURSOR :: u32 where "CONSOLE_CURSOR = 0xFF38BDF8"
definition COMMAND_MAX :: u32 where "COMMAND_MAX = 127"
definition HISTORY_MAX :: u32 where "HISTORY_MAX = 16"

lemmas console_sizes = CONSOLE_CHAR_WIDTH_def CONSOLE_LINE_HEIGHT_def CONSOLE_MARGIN_def COMMAND_MAX_def HISTORY_MAX_def

record 'd console_machine = "'d vfs_machine" +
  screen :: fb_state
  frames :: pmm_state
  keys :: input_state
  tick_now :: u64
  tick_rate :: u32
  columns :: u32
  rows :: u32
  cursor_column :: u32
  cursor_row :: u32
  command :: "char list"
  command_length :: u32
  command_cursor :: u32
  cursor_tick :: u64
  cursor_visible :: bool
  cwd :: string
  history :: "string list"
  history_count :: u32
  history_index :: u32
  halted :: bool

type_synonym ('d, 'm) con = "('d, 'm) console_machine_scheme"

definition on_screen_do :: "(fb_state \<Rightarrow> fb_state c_result) \<Rightarrow> ('d, 'm) con \<Rightarrow> ('d, 'm) con c_result" where
  "on_screen_do f m = do { s \<leftarrow> f (screen m); Some (m\<lparr>screen := s\<rparr>) }"

definition con_log :: "string \<Rightarrow> ('d, 'm) con \<Rightarrow> ('d, 'm) con" where
  "con_log t m = snd (run_state (log_text t) m)"

section \<open>Output\<close>

definition console_prompt_columns :: "('d, 'm) con \<Rightarrow> u32" where
  "console_prompt_columns m = 8 + of_nat (length (cwd m))"

definition lower :: "char \<Rightarrow> char" where
  "lower c = (let k = (of_char c :: nat) in if 65 \<le> k \<and> k \<le> 90 then char_of (k - 65 + 97) else c)"

fun console_streq :: "string \<Rightarrow> string \<Rightarrow> bool" where
  "console_streq (a # as) (b # bs) \<longleftrightarrow> lower a = lower b \<and> console_streq as bs"
| "console_streq [] [] \<longleftrightarrow> True"
| "console_streq _ _ \<longleftrightarrow> False"

definition text_y :: "('d, 'm) con \<Rightarrow> u32" where
  "text_y m = CONSOLE_MARGIN + cursor_row m * CONSOLE_LINE_HEIGHT"

definition console_cursor :: "('d, 'm) con \<Rightarrow> ('d, 'm) con c_result" where
  "console_cursor m =
     on_screen_do (fb_fill_rect (CONSOLE_MARGIN + cursor_column m * CONSOLE_CHAR_WIDTH) (text_y m) 8 16
       (if cursor_visible m then CONSOLE_CURSOR else CONSOLE_BG)) m"

definition console_newline :: "('d, 'm) con \<Rightarrow> ('d, 'm) con c_result" where
  "console_newline m =
     (let m1 = m\<lparr>cursor_column := 0, cursor_row := cursor_row m + 1\<rparr> in
      if rows m1 \<le> cursor_row m1 then do {
        m2 \<leftarrow> on_screen_do (fb_scroll_up CONSOLE_MARGIN (rows m1 * CONSOLE_LINE_HEIGHT) 1 CONSOLE_BG) m1;
        Some (m2\<lparr>cursor_row := rows m2 - 1\<rparr>)
      } else Some m1)"

definition console_putc :: "char \<Rightarrow> ('d, 'm) con \<Rightarrow> ('d, 'm) con c_result" where
  "console_putc c m =
     (if c = CHR 0x0A then console_newline m
      else if c = CHR 0x0D then Some m
      else do {
        m1 \<leftarrow> (if columns m \<le> cursor_column m then console_newline m else Some m);
        m2 \<leftarrow> on_screen_do (fb_draw_char (CONSOLE_MARGIN + cursor_column m1 * CONSOLE_CHAR_WIDTH) (text_y m1)
                c CONSOLE_FG CONSOLE_BG) m1;
        Some (m2\<lparr>cursor_column := cursor_column m2 + 1\<rparr>)
      })"

definition console_puts :: "string \<Rightarrow> ('d, 'm) con \<Rightarrow> ('d, 'm) con c_result" where
  "console_puts text m = for_each console_putc text m"

definition console_line :: "string \<Rightarrow> ('d, 'm) con \<Rightarrow> ('d, 'm) con c_result" where
  "console_line text m = do { m1 \<leftarrow> console_puts text m; console_putc (CHR 0x0A) m1 }"

definition console_error :: "('d, 'm) con \<Rightarrow> ('d, 'm) con c_result" where
  "console_error m = console_puts (''error'' @ [CHR 0x0A]) m"

definition console_put_u64 :: "u64 \<Rightarrow> ('d, 'm) con \<Rightarrow> ('d, 'm) con c_result" where
  "console_put_u64 v m = (if v = 0 then console_putc (CHR ''0'') m else console_puts (rev (dec_digits v)) m)"

section \<open>Arguments\<close>

definition console_path :: "string option \<Rightarrow> ('d, 'm) con \<Rightarrow> (int \<times> string) c_result" where
  "console_path arg m = vfs_normalize (Some (cwd m)) (Some (case arg of None \<Rightarrow> ''.'' | Some a \<Rightarrow> a))"

text \<open>The path of argument \<open>n\<close>; \<^term>\<open>None\<close> is the result -1.\<close>

definition console_arg :: "string list \<Rightarrow> nat \<Rightarrow> ('d, 'm) con \<Rightarrow> (string option \<times> ('d, 'm) con) c_result" where
  "console_arg argv n m =
     (if length argv \<le> n then do { m1 \<leftarrow> console_error m; Some (None, m1) }
      else do {
        (rc, out) \<leftarrow> console_path (Some (argv ! n)) m;
        (if rc \<noteq> 0 then do { m1 \<leftarrow> console_error m; Some (None, m1) } else Some (Some out, m))
      })"

text \<open>The words of a line, at most \<open>max\<close>; the rest of the line is dropped.\<close>

fun console_words :: "string \<Rightarrow> nat \<Rightarrow> string list" where
  "console_words line 0 = []"
| "console_words line (Suc n) =
     (let l = dropWhile (\<lambda>c. c = CHR '' '') line in
      if l = [] then []
      else takeWhile (\<lambda>c. c \<noteq> CHR '' '') l # console_words (drop 1 (dropWhile (\<lambda>c. c \<noteq> CHR '' '') l)) n)"

section \<open>Listing, tree and find\<close>

text \<open>The local array of directory entries, which \<^verbatim>\<open>vfs_list\<close> fills.\<close>

definition dirent_array :: "vfs_dirent list" where
  "dirent_array = replicate 64 \<lparr>de_name = replicate 32 (CHR 0x00), de_type = 0, de_size = 0\<rparr>"

definition list_entries :: "string \<Rightarrow> ('d, 'm) con \<Rightarrow> (int \<times> vfs_dirent list) c_result" where
  "list_entries path m = do {
     (rc, e, count) \<leftarrow> vfs_list (records m) (Some path) (Some dirent_array) 64 (Some 0);
     Some (rc, take (unat (the count)) (the e))
   }"

definition put_entry :: "vfs_dirent \<Rightarrow> ('d, 'm) con \<Rightarrow> ('d, 'm) con c_result" where
  "put_entry e m = do {
     name \<leftarrow> cstr (de_name e);
     m1 \<leftarrow> console_puts name m;
     m2 \<leftarrow> (if de_type e = VFS_DIRECTORY then console_putc (CHR ''/'') m1 else Some m1);
     console_putc (CHR 0x0A) m2
   }"

definition stat_of :: "string \<Rightarrow> ('d, 'm) con \<Rightarrow> (int \<times> u8) c_result" where
  "stat_of path m = do {
     (rc, st) \<leftarrow> vfs_stat_path (records m) (Some path) (Some \<lparr>st_type = 0, st_size = 0\<rparr>);
     Some (rc, st_type (the st))
   }"

definition console_list :: "string \<Rightarrow> ('d, 'm) con \<Rightarrow> ('d, 'm) con c_result" where
  "console_list path m = do {
     (rc, ty) \<leftarrow> stat_of path m;
     (if rc \<noteq> 0 then console_error m
      else if ty = VFS_FILE then console_line path m
      else do {
        (rc2, es) \<leftarrow> list_entries path m;
        (if rc2 \<noteq> 0 then console_error m else for_each put_entry es m)
      })
   }"

text \<open>The joined path, or \<^term>\<open>None\<close> when it does not fit into \<open>cap\<close> bytes.\<close>

definition console_append_path :: "string \<Rightarrow> string \<Rightarrow> nat \<Rightarrow> string option" where
  "console_append_path base name cap =
     (if cap \<le> length base + 1 then None
      else let out = (if 1 < length base then base @ ''/'' else base)
           in if length out + length name + 1 \<le> cap then Some (out @ name) else None)"

fun console_name_matches :: "string \<Rightarrow> string \<Rightarrow> bool" where
  "console_name_matches [] needle \<longleftrightarrow> needle = []"
| "console_name_matches (c # cs) needle \<longleftrightarrow>
     needle = [] \<or> take (length needle) (c # cs) = needle \<or> console_name_matches cs needle"

text \<open>The two recursive walks; the first argument is 16 minus the depth.\<close>

primrec console_tree_walk :: "nat \<Rightarrow> string \<Rightarrow> ('d, 'm) con \<Rightarrow> ('d, 'm) con c_result" where
  "console_tree_walk 0 path m = Some m"
| "console_tree_walk (Suc k) path m = do {
     (rc, es) \<leftarrow> list_entries path m;
     (if rc \<noteq> 0 then Some m
      else for_each (\<lambda>e m. do {
             m1 \<leftarrow> console_puts (concat (replicate (15 - k) ''  '')) m;
             m2 \<leftarrow> put_entry e m1;
             (if de_type e = VFS_DIRECTORY then do {
                name \<leftarrow> cstr (de_name e);
                (case console_append_path path name 128 of
                   None \<Rightarrow> Some m2
                 | Some child \<Rightarrow> console_tree_walk k child m2)
              } else Some m2)
           }) es m)
   }"

primrec console_find_walk :: "nat \<Rightarrow> string \<Rightarrow> string \<Rightarrow> ('d, 'm) con \<Rightarrow> ('d, 'm) con c_result" where
  "console_find_walk 0 path needle m = Some m"
| "console_find_walk (Suc k) path needle m = do {
     (rc, es) \<leftarrow> list_entries path m;
     (if rc \<noteq> 0 then Some m
      else for_each (\<lambda>e m. do {
             name \<leftarrow> cstr (de_name e);
             (case console_append_path path name 128 of
                None \<Rightarrow> Some m
              | Some child \<Rightarrow> do {
                  m1 \<leftarrow> (if console_name_matches name needle then console_line child m else Some m);
                  (if de_type e = VFS_DIRECTORY then console_find_walk k child needle m1 else Some m1)
                })
           }) es m)
   }"

section \<open>History and prompt\<close>

definition shift_history :: "nat \<Rightarrow> string list \<Rightarrow> string list" where
  "shift_history n h = fold (\<lambda>i h. h[i := h ! (i - 1)]) (rev [1..<n]) h"

definition console_add_history :: "string \<Rightarrow> ('d, 'm) con \<Rightarrow> ('d, 'm) con" where
  "console_add_history line m =
     (if line = [] then m
      else if history_count m \<noteq> 0 \<and> console_streq (history m ! unat ((history_count m - 1) mod HISTORY_MAX)) line then m
      else let n = (if history_count m < HISTORY_MAX then history_count m + 1 else history_count m)
           in m\<lparr>history_count := n, history := (shift_history (unat n) (history m))[0 := line]\<rparr>)"

text \<open>A store into the command buffer.\<close>

definition set_char :: "nat \<Rightarrow> char \<Rightarrow> ('d, 'm) con \<Rightarrow> ('d, 'm) con c_result" where
  "set_char i c m = (if i < length (command m) then Some (m\<lparr>command := (command m)[i := c]\<rparr>) else None)"

definition get_char :: "nat \<Rightarrow> ('d, 'm) con \<Rightarrow> char c_result" where
  "get_char i m = (if i < length (command m) then Some (command m ! i) else None)"

definition console_prompt :: "('d, 'm) con \<Rightarrow> ('d, 'm) con c_result" where
  "console_prompt m = do {
     m1 \<leftarrow> console_puts ''MinOS:'' m;
     m2 \<leftarrow> console_puts (cwd m1) m1;
     m3 \<leftarrow> console_puts ''> '' m2;
     set_char 0 (CHR 0x00) (m3\<lparr>cursor_column := console_prompt_columns m3, command_length := 0, command_cursor := 0\<rparr>)
   }"

definition console_redraw_command :: "('d, 'm) con \<Rightarrow> ('d, 'm) con c_result" where
  "console_redraw_command m =
     (let x = CONSOLE_MARGIN + console_prompt_columns m * CONSOLE_CHAR_WIDTH;
          w = fb_get_width (screen m);
          width = (if x < w then w - x else 0)
      in do {
        m1 \<leftarrow> on_screen_do (fb_fill_rect x (text_y m) width 16 CONSOLE_BG) m;
        t \<leftarrow> cstr (command m1);
        m2 \<leftarrow> on_screen_do (fb_draw_string x (text_y m1) (Some t) CONSOLE_FG CONSOLE_BG) m1;
        Some (m2\<lparr>cursor_column := console_prompt_columns m2 + command_cursor m2\<rparr>)
      })"

definition console_set_command :: "string \<Rightarrow> ('d, 'm) con \<Rightarrow> ('d, 'm) con c_result" where
  "console_set_command text m =
     (let t = take (unat COMMAND_MAX) text in do {
        m1 \<leftarrow> for_each (\<lambda>i. set_char i (t ! i)) [0..<length t] m;
        m2 \<leftarrow> set_char (length t) (CHR 0x00) m1;
        console_redraw_command (m2\<lparr>command_length := of_nat (length t), command_cursor := of_nat (length t)\<rparr>)
      })"

section \<open>Commands\<close>

definition cmd_help :: "('d, 'm) con \<Rightarrow> ('d, 'm) con c_result" where
  "cmd_help m = do {
     m1 \<leftarrow> console_line ''BashPlus - MinOS shell'' m;
     m2 \<leftarrow> console_line ''System: about clear help mem ticks uptime reboot shutdown'' m1;
     m3 \<leftarrow> console_line ''Files:  pwd ls cd mkdir rmdir touch cat write append rm cp mv tree find df'' m2;
     console_line ''Shell:  echo history'' m3
   }"

definition cmd_clear :: "('d, 'm) con \<Rightarrow> ('d, 'm) con c_result" where
  "cmd_clear m = do {
     m1 \<leftarrow> on_screen_do (fb_clear CONSOLE_BG) m;
     Some (m1\<lparr>cursor_column := 0, cursor_row := 0\<rparr>)
   }"

definition cmd_about :: "('d, 'm) con \<Rightarrow> ('d, 'm) con c_result" where
  "cmd_about m = do {
     m1 \<leftarrow> console_line ''MinOS interactive kernel console'' m;
     console_line ''x86_64 UEFI | framebuffer | IRQ input'' m1
   }"

definition cmd_mem :: "('d, 'm) con \<Rightarrow> ('d, 'm) con c_result" where
  "cmd_mem m = do {
     m1 \<leftarrow> console_puts ''usable: '' m;
     m2 \<leftarrow> console_put_u64 (pmm_usable_bytes (frames m1) div (1024 * 1024)) m1;
     m3 \<leftarrow> console_puts '' MiB, reserved: '' m2;
     m4 \<leftarrow> console_put_u64 (pmm_reserved_bytes (frames m3) div (1024 * 1024)) m3;
     m5 \<leftarrow> console_puts '' MiB, free frames: '' m4;
     m6 \<leftarrow> console_put_u64 (pmm_free_frames (frames m5)) m5;
     console_putc (CHR 0x0A) m6
   }"

definition cmd_ticks :: "('d, 'm) con \<Rightarrow> ('d, 'm) con c_result" where
  "cmd_ticks m = do {
     m1 \<leftarrow> console_puts ''ticks: '' m;
     m2 \<leftarrow> console_put_u64 (tick_now m1) m1;
     m3 \<leftarrow> console_puts '' ('' m2;
     m4 \<leftarrow> console_put_u64 (ucast (tick_rate m3)) m3;
     console_line '' Hz)'' m4
   }"

definition cmd_uptime :: "('d, 'm) con \<Rightarrow> ('d, 'm) con c_result" where
  "cmd_uptime m = do {
     m1 \<leftarrow> console_puts ''uptime: '' m;
     m2 \<leftarrow> console_put_u64 (if tick_rate m1 \<noteq> 0 then tick_now m1 div ucast (tick_rate m1) else 0) m1;
     console_line '' seconds'' m2
   }"

text \<open>The argument of \<^verbatim>\<open>ls\<close>, \<^verbatim>\<open>cd\<close>, \<^verbatim>\<open>tree\<close> and \<^verbatim>\<open>find\<close>: the second word if there is one, else the first.\<close>

definition path_arg :: "string list \<Rightarrow> nat" where
  "path_arg argv = (if 1 < length argv then 1 else 0)"

definition cmd_ls :: "string list \<Rightarrow> ('d, 'm) con \<Rightarrow> ('d, 'm) con c_result" where
  "cmd_ls argv m = do {
     (p, m1) \<leftarrow> console_arg argv (path_arg argv) m;
     (case p of None \<Rightarrow> Some m1 | Some path \<Rightarrow> console_list path m1)
   }"

definition cmd_cd :: "string list \<Rightarrow> ('d, 'm) con \<Rightarrow> ('d, 'm) con c_result" where
  "cmd_cd argv m = do {
     (p, m1) \<leftarrow> console_arg argv (path_arg argv) m;
     (case p of
        None \<Rightarrow> console_error m1
      | Some path \<Rightarrow> do {
          d \<leftarrow> vfs_is_directory (records m1) (Some path);
          (if \<not> d then console_error m1
           else if VFS_PATH_MAX < length path then None
           else Some (m1\<lparr>cwd := path\<rparr>))
        })
   }"

definition file_op :: "'d hw \<Rightarrow> string \<Rightarrow> string \<Rightarrow> ('d, 'm) con \<Rightarrow> (int \<times> ('d, 'm) con) c_result" where
  "file_op hw name path m =
     (if console_streq name ''mkdir'' then vfs_mkdir hw (Some path) m
      else if console_streq name ''rmdir'' then vfs_rmdir hw (Some path) m
      else if console_streq name ''touch'' then vfs_touch hw (Some path) m
      else vfs_remove hw (Some path) m)"

definition cmd_file :: "'d hw \<Rightarrow> string list \<Rightarrow> ('d, 'm) con \<Rightarrow> ('d, 'm) con c_result" where
  "cmd_file hw argv m = do {
     (p, m1) \<leftarrow> console_arg argv 1 m;
     (case p of
        None \<Rightarrow> Some m1
      | Some path \<Rightarrow> do {
          (rc, m2) \<leftarrow> file_op hw (argv ! 0) path m1;
          (if rc \<noteq> 0 then console_error m2 else Some m2)
        })
   }"

definition cmd_cat :: "'d hw \<Rightarrow> string list \<Rightarrow> ('d, 'm) con \<Rightarrow> ('d, 'm) con c_result" where
  "cmd_cat hw argv m = do {
     (p, m1) \<leftarrow> console_arg argv 1 m;
     (case p of
        None \<Rightarrow> Some m1
      | Some path \<Rightarrow> do {
          ((rc, data, n), m2) \<leftarrow> vfs_read hw (Some path) (Some (replicate 128 (CHR 0x00))) COMMAND_MAX (Some 0) m1;
          (if rc = 0 then
             if length (the data) \<le> unat (the n) then None
             else do {
               t \<leftarrow> cstr ((the data)[unat (the n) := CHR 0x00]);
               m3 \<leftarrow> console_line t m2;
               Some (con_log (''[MinOS Console] cat output: '' @ t @ [CHR 0x0A]) m3)
             }
           else console_error (con_log (''[MinOS Console] cat failed'' @ [CHR 0x0A]) m2))
        })
   }"

text \<open>The text of \<^verbatim>\<open>write\<close>: the words from the third on with single spaces, cut to 127 characters.\<close>

definition write_text :: "string list \<Rightarrow> string" where
  "write_text ws =
     (case ws of
        [] \<Rightarrow> []
      | v # vs \<Rightarrow> fold (\<lambda>w d. take 127 (take 127 (d @ '' '') @ w)) vs (take 127 v))"

definition cmd_write :: "'d hw \<Rightarrow> string list \<Rightarrow> ('d, 'm) con \<Rightarrow> ('d, 'm) con c_result" where
  "cmd_write hw argv m =
     (if length argv < 3 then console_error m
      else do {
        (p, m1) \<leftarrow> console_arg argv 1 m;
        (case p of
           None \<Rightarrow> console_error m1
         | Some path \<Rightarrow>
             let data = write_text (drop 2 argv) in do {
               (rc, m2) \<leftarrow> vfs_write hw (Some path) (Some data) (of_nat (length data)) (console_streq (argv ! 0) ''append'') m1;
               (if rc \<noteq> 0 then console_error m2 else Some m2)
             })
      })"

definition cmd_copy :: "'d hw \<Rightarrow> string list \<Rightarrow> ('d, 'm) con \<Rightarrow> ('d, 'm) con c_result" where
  "cmd_copy hw argv m =
     (if length argv < 3 then Some m
      else do {
        (p, m1) \<leftarrow> console_arg argv 1 m;
        (case p of
           None \<Rightarrow> Some m1
         | Some path \<Rightarrow> do {
             (p2, m2) \<leftarrow> console_arg argv 2 m1;
             (case p2 of
                None \<Rightarrow> Some m2
              | Some path2 \<Rightarrow> do {
                  (rc, m3) \<leftarrow> (if console_streq (argv ! 0) ''cp'' then vfs_copy hw (Some path) (Some path2) m2
                               else vfs_move hw (Some path) (Some path2) m2);
                  (if rc \<noteq> 0 then console_error m3 else Some m3)
                })
           })
      })"

definition cmd_tree :: "string list \<Rightarrow> ('d, 'm) con \<Rightarrow> ('d, 'm) con c_result" where
  "cmd_tree argv m = do {
     (p, m1) \<leftarrow> console_arg argv (path_arg argv) m;
     (case p of
        None \<Rightarrow> Some m1
      | Some path \<Rightarrow> do {
          (rc, ty) \<leftarrow> stat_of path m1;
          (if rc \<noteq> 0 then console_error m1
           else do {
             m2 \<leftarrow> console_line path m1;
             (if ty = VFS_DIRECTORY then console_tree_walk 16 path m2 else Some m2)
           })
        })
   }"

definition cmd_find :: "string list \<Rightarrow> ('d, 'm) con \<Rightarrow> ('d, 'm) con c_result" where
  "cmd_find argv m = do {
     (p, m1) \<leftarrow> console_arg argv (path_arg argv) m;
     (case p of
        None \<Rightarrow> Some m1
      | Some path \<Rightarrow>
          let needle = (if 2 < length argv then argv ! 2 else []) in do {
            (rc, ty) \<leftarrow> stat_of path m1;
            (if rc \<noteq> 0 then console_error m1
             else if ty = VFS_FILE then
               (if console_name_matches path needle then console_line path m1 else Some m1)
             else console_find_walk 16 path needle m1)
          })
   }"

definition cmd_echo :: "string list \<Rightarrow> ('d, 'm) con \<Rightarrow> ('d, 'm) con c_result" where
  "cmd_echo argv m = do {
     m1 \<leftarrow> for_each (\<lambda>i m. do {
             m1 \<leftarrow> (if 1 < i then console_putc (CHR '' '') m else Some m);
             console_puts (argv ! i) m1
           }) [1..<length argv] m;
     console_putc (CHR 0x0A) m1
   }"

definition cmd_history :: "('d, 'm) con \<Rightarrow> ('d, 'm) con c_result" where
  "cmd_history m =
     for_each (\<lambda>i m.
       if length (history m) \<le> i then None
       else do {
         m1 \<leftarrow> console_put_u64 (of_nat (i + 1)) m;
         m2 \<leftarrow> console_puts '' '' m1;
         console_line (history m2 ! i) m2
       }) [0..<unat (history_count m)] m"

text \<open>The chain of comparisons, for a line with at least one word.\<close>

definition run_command :: "'d hw \<Rightarrow> string list \<Rightarrow> ('d, 'm) con \<Rightarrow> ('d, 'm) con c_result" where
  "run_command hw argv m =
     (let is_word = console_streq (argv ! 0) in
      if is_word ''help'' then cmd_help m
      else if is_word ''clear'' then cmd_clear m
      else if is_word ''about'' then cmd_about m
      else if is_word ''mem'' then cmd_mem m
      else if is_word ''ticks'' then cmd_ticks m
      else if is_word ''uptime'' then cmd_uptime m
      else if is_word ''reboot'' then Some ((snd (run_state (power_reboot hw) m))\<lparr>halted := True\<rparr>)
      else if is_word ''shutdown'' then Some ((snd (run_state (power_shutdown hw) m))\<lparr>halted := True\<rparr>)
      else if is_word ''pwd'' then console_line (cwd m) m
      else if is_word ''ls'' then cmd_ls argv m
      else if is_word ''cd'' then cmd_cd argv m
      else if is_word ''mkdir'' \<or> is_word ''rmdir'' \<or> is_word ''touch'' \<or> is_word ''rm'' then cmd_file hw argv m
      else if is_word ''cat'' then cmd_cat hw argv m
      else if is_word ''write'' \<or> is_word ''append'' then cmd_write hw argv m
      else if is_word ''cp'' \<or> is_word ''mv'' then cmd_copy hw argv m
      else if is_word ''tree'' then cmd_tree argv m
      else if is_word ''find'' then cmd_find argv m
      else if is_word ''df'' then
        console_line (if ata_primary_master_present m then ''disk: persistent ATA'' else ''disk: volatile memory'') m
      else if is_word ''echo'' then cmd_echo argv m
      else if is_word ''history'' then cmd_history m
      else console_line ''Unknown command. Type help.'' m)"

definition console_command :: "'d hw \<Rightarrow> ('d, 'm) con \<Rightarrow> ('d, 'm) con c_result" where
  "console_command hw m = do {
     m1 \<leftarrow> set_char (unat (command_length m)) (CHR 0x00) m;
     m2 \<leftarrow> console_putc (CHR 0x0A) m1;
     line \<leftarrow> cstr (command m2);
     (let m3 = con_log (''[MinOS Console] command: '' @ line @ [CHR 0x0A]) m2;
          m4 = (console_add_history line m3)\<lparr>history_index := 0\<rparr>;
          argv = console_words line 8
      in do {
        m5 \<leftarrow> (if argv = [] then Some m4 else run_command hw argv m4);
        (if halted m5 then Some m5 else console_prompt m5)
      })
   }"

text \<open>How many cells of \<open>k\<close> pixels fit beside the margin, at least one.\<close>

definition console_cells :: "u32 \<Rightarrow> u32 \<Rightarrow> u32" where
  "console_cells w k = (let c = (if CONSOLE_MARGIN < w then (w - CONSOLE_MARGIN) div k else 1) in if c = 0 then 1 else c)"

definition console_init :: "('d, 'm) con \<Rightarrow> ('d, 'm) con c_result" where
  "console_init m = do {
     m1 \<leftarrow> on_screen_do (fb_clear CONSOLE_BG) m;
     m2 \<leftarrow> console_prompt (m1\<lparr>columns := console_cells (fb_get_width (screen m1)) CONSOLE_CHAR_WIDTH,
             rows := console_cells (fb_get_height (screen m1)) CONSOLE_LINE_HEIGHT,
             cursor_row := 0, cursor_column := 0, cursor_visible := True, cursor_tick := tick_now m1\<rparr>);
     console_cursor m2
   }"

section \<open>The line editor\<close>

text \<open>A character inserted at the cursor: the loop moves the rest of the line one place to the right.\<close>

definition insert_char :: "char \<Rightarrow> ('d, 'm) con \<Rightarrow> ('d, 'm) con c_result" where
  "insert_char c m = do {
     m1 \<leftarrow> for_each (\<lambda>i m. get_char (i - 1) m \<bind> (\<lambda>x. set_char i x m))
             (rev [unat (command_cursor m) + 1..<unat (command_length m) + 1]) m;
     m2 \<leftarrow> set_char (unat (command_cursor m1)) c m1;
     (let m3 = m2\<lparr>command_cursor := command_cursor m2 + 1, command_length := command_length m2 + 1\<rparr>
      in set_char (unat (command_length m3)) (CHR 0x00) m3)
   }"

definition key_backspace :: "('d, 'm) con \<Rightarrow> ('d, 'm) con c_result" where
  "key_backspace m =
     (if command_cursor m = 0 then Some m
      else do {
        m1 \<leftarrow> for_each (\<lambda>i m. get_char (i + 1) m \<bind> (\<lambda>x. set_char i x m))
                [unat (command_cursor m - 1)..<unat (command_length m)] m;
        console_redraw_command (m1\<lparr>command_cursor := command_cursor m1 - 1, command_length := command_length m1 - 1\<rparr>)
      })"

text \<open>\<^verbatim>\<open>while (spaces-- && command_length < COMMAND_MAX)\<close>\<close>

primrec insert_spaces :: "nat \<Rightarrow> ('d, 'm) con \<Rightarrow> ('d, 'm) con c_result" where
  "insert_spaces 0 m = Some m"
| "insert_spaces (Suc n) m =
     (if command_length m < COMMAND_MAX then insert_char (CHR '' '') m \<bind> insert_spaces n else Some m)"

definition key_tab :: "('d, 'm) con \<Rightarrow> ('d, 'm) con c_result" where
  "key_tab m =
     (let m1 = con_log (''[MinOS Console] Tab event consumed'' @ [CHR 0x0A]) m;
          spaces = 4 - (cursor_column m1 - 7) mod 4
      in insert_spaces (unat spaces) m1 \<bind> console_redraw_command)"

definition key_left :: "('d, 'm) con \<Rightarrow> ('d, 'm) con c_result" where
  "key_left m = do {
     m1 \<leftarrow> (if command_cursor m \<noteq> 0 then console_redraw_command (m\<lparr>command_cursor := command_cursor m - 1\<rparr>) else Some m);
     Some (con_log (''[MinOS Console] Left arrow consumed'' @ [CHR 0x0A]) m1)
   }"

definition key_right :: "('d, 'm) con \<Rightarrow> ('d, 'm) con c_result" where
  "key_right m = do {
     m1 \<leftarrow> (if command_cursor m < command_length m
            then console_redraw_command (m\<lparr>command_cursor := command_cursor m + 1\<rparr>) else Some m);
     Some (con_log (''[MinOS Console] Right arrow consumed'' @ [CHR 0x0A]) m1)
   }"

definition recall :: "('d, 'm) con \<Rightarrow> string c_result" where
  "recall m = (let i = unat ((history_index m - 1) mod HISTORY_MAX) in if i < length (history m) then Some (history m ! i) else None)"

definition key_vertical :: "bool \<Rightarrow> ('d, 'm) con \<Rightarrow> ('d, 'm) con c_result" where
  "key_vertical up m0 =
     (let m = con_log (''[MinOS Console] Vertical arrow consumed'' @ [CHR 0x0A]) m0 in
      if up \<and> history_count m \<noteq> 0 then
        let m1 = (if history_index m < history_count m then m\<lparr>history_index := history_index m + 1\<rparr> else m)
        in do { t \<leftarrow> recall m1; console_set_command t m1 }
      else if \<not> up \<and> history_index m \<noteq> 0 then
        let m1 = m\<lparr>history_index := history_index m - 1\<rparr>
        in do { t \<leftarrow> (if history_index m1 \<noteq> 0 then recall m1 else Some []); console_set_command t m1 }
      else Some m)"

definition key_kill_line :: "('d, 'm) con \<Rightarrow> ('d, 'm) con c_result" where
  "key_kill_line m =
     set_char 0 (CHR 0x00) (m\<lparr>command_length := 0, command_cursor := 0\<rparr>) \<bind> console_redraw_command"

definition key_kill_rest :: "('d, 'm) con \<Rightarrow> ('d, 'm) con c_result" where
  "key_kill_rest m =
     set_char (unat (command_cursor m)) (CHR 0x00) (m\<lparr>command_length := command_cursor m\<rparr>) \<bind> console_redraw_command"

definition is_printable :: "char \<Rightarrow> bool" where
  "is_printable c \<longleftrightarrow> 32 \<le> (of_char c :: nat) \<and> (of_char c :: nat) \<le> 126"

definition handle_key :: "'d hw \<Rightarrow> input_event \<Rightarrow> ('d, 'm) con \<Rightarrow> ('d, 'm) con c_result" where
  "handle_key hw e m =
     (if ev_key e = INPUT_KEY_ENTER then console_cursor (m\<lparr>cursor_visible := False\<rparr>) \<bind> console_command hw
      else if ev_key e = INPUT_KEY_BACKSPACE then key_backspace m
      else if ev_key e = INPUT_KEY_TAB then key_tab m
      else if ev_key e = INPUT_KEY_LEFT then key_left m
      else if ev_key e = INPUT_KEY_RIGHT then key_right m
      else if ev_key e = INPUT_KEY_UP \<or> ev_key e = INPUT_KEY_DOWN then key_vertical (ev_key e = INPUT_KEY_UP) m
      else if ev_modifiers e AND INPUT_MOD_CTRL \<noteq> 0 \<and> ev_key e = INPUT_KEY_A then
        console_redraw_command (m\<lparr>command_cursor := 0\<rparr>)
      else if ev_modifiers e AND INPUT_MOD_CTRL \<noteq> 0 \<and> ev_key e = INPUT_KEY_E then
        console_redraw_command (m\<lparr>command_cursor := command_length m\<rparr>)
      else if ev_modifiers e AND INPUT_MOD_CTRL \<noteq> 0 \<and> ev_key e = INPUT_KEY_U then key_kill_line m
      else if ev_modifiers e AND INPUT_MOD_CTRL \<noteq> 0 \<and> ev_key e = INPUT_KEY_K then key_kill_rest m
      else if is_printable (ev_character e) \<and> command_length m < COMMAND_MAX then
        insert_char (ev_character e) m \<bind> console_redraw_command
      else Some m)"

text \<open>One event taken from the queue; releases are skipped.\<close>

definition console_event :: "'d hw \<Rightarrow> u64 \<Rightarrow> input_event \<Rightarrow> ('d, 'm) con \<Rightarrow> ('d, 'm) con c_result" where
  "console_event hw now e m =
     (if ev_pressed e = 0 then Some m
      else do {
        m1 \<leftarrow> handle_key hw e m;
        Some (if halted m1 then m1 else m1\<lparr>cursor_visible := True, cursor_tick := now\<rparr>)
      })"

definition no_event :: input_event where
  "no_event = \<lparr>ev_key = INPUT_KEY_NONE, ev_pressed = 0, ev_modifiers = 0, ev_character = CHR 0x00\<rparr>"

text \<open>The loop over the queue; it ends early when a command has switched the machine off.\<close>

partial_function (option) console_events :: "'d hw \<Rightarrow> u64 \<Rightarrow> ('d, 'm) con \<Rightarrow> ('d, 'm) con option" where
  "console_events hw now m =
     (case input_pop (Some no_event) (keys m) of
        ((rc, ev), q) \<Rightarrow>
          if rc \<noteq> 0 then Some (m\<lparr>keys := q\<rparr>)
          else console_event hw now (the ev) (m\<lparr>keys := q\<rparr>) \<bind> (\<lambda>m1.
            if halted m1 then Some m1 else console_events hw now m1))"

definition console_poll :: "'d hw \<Rightarrow> ('d, 'm) con \<Rightarrow> ('d, 'm) con c_result" where
  "console_poll hw m =
     (let now = tick_now m in do {
        m1 \<leftarrow> console_events hw now m;
        (if \<not> halted m1 \<and> ucast (if tick_rate m1 div 2 \<noteq> 0 then tick_rate m1 div 2 else 1) \<le> now - cursor_tick m1
         then console_cursor (m1\<lparr>cursor_visible := \<not> cursor_visible m1, cursor_tick := now\<rparr>)
         else Some m1)
      })"

end
