(* ===== verification/Minos_ConsoleEdit.thy ===== *)
theory Minos_ConsoleEdit
  imports Minos_Console
begin

text \<open>
  The line editor of the console: output keeps the cursor on the screen, every key but Enter does to
  the command buffer what an abstract editor does to a line with a cursor, and no store leaves the
  buffer.
\<close>

section \<open>Output\<close>

text \<open>
  A screen of a size at which no coordinate wraps around, and a cursor inside it; behind the prompt
  the cursor may stand right of the last column.
\<close>

definition screen_ok :: "('d, 'm) con \<Rightarrow> bool" where
  "screen_ok m \<longleftrightarrow> fb_ok (screen m) \<and> unat (cursor_row m) < unat (rows m) \<and> unat (rows m) * 18 + 16 < 2 ^ 31
     \<and> unat (columns m) * 9 + 16 < 2 ^ 31 \<and> unat (cursor_column m) \<le> max (unat (columns m)) 262
     \<and> length (cwd m) \<le> 127"

text \<open>Output changes the pixels and the place of the cursor only.\<close>

definition shown :: "('d, 'm) con \<Rightarrow> ('d, 'm) con \<Rightarrow> bool" where
  "shown m m' \<longleftrightarrow> screen_ok m' \<and> (\<exists>s c r. m' = m\<lparr>screen := s, cursor_column := c, cursor_row := r\<rparr>)"

lemma shown_ok [simp]: "shown m m' \<Longrightarrow> screen_ok m'"
  by (simp add: shown_def)

lemma shownI:
  assumes "screen_ok m'" "m' = m\<lparr>screen := s, cursor_column := c, cursor_row := r\<rparr>"
  shows "shown m m'"
  unfolding shown_def using assms by blast

lemma shownE:
  assumes "shown m m'"
  obtains s c r where "m' = m\<lparr>screen := s, cursor_column := c, cursor_row := r\<rparr>" "screen_ok m'"
  using assms unfolding shown_def by blast

lemma shown_refl [intro]: "screen_ok m \<Longrightarrow> shown m m"
  by (rule shownI [where s = "screen m" and c = "cursor_column m" and r = "cursor_row m"]) simp_all

lemma shown_trans:
  assumes "shown m m'" "shown m' m''"
  shows "shown m m''"
proof -
  obtain s c r where 1: "m' = m\<lparr>screen := s, cursor_column := c, cursor_row := r\<rparr>" using assms(1) by (rule shownE)
  obtain s' c' r' where 2: "m'' = m'\<lparr>screen := s', cursor_column := c', cursor_row := r'\<rparr>" "screen_ok m''"
    using assms(2) by (rule shownE)
  show ?thesis by (rule shownI [OF 2(2), where s = s' and c = c' and r = r']) (simp add: 1 2(1))
qed

lemma shown_draw:
  assumes "screen_ok m" "no_wrap d"
  shows "\<exists>s. on_screen_do (draw_step d) m = Some (m\<lparr>screen := s\<rparr>) \<and> fb_ok s \<and> g_width s = g_width (screen m)"
proof -
  have "fb_ok (screen m)" using assms(1) by (simp add: screen_ok_def)
  then obtain s where "draw_step d (screen m) = Some s" "drawn (\<lambda>px py. True) (screen m) s"
    using draw_step_drawn assms(2) by blast
  then show ?thesis
    using \<open>fb_ok (screen m)\<close> drawn_geometry(1,2) by (fastforce simp: on_screen_do_def)
qed

lemma unat_text_y:
  assumes "screen_ok m"
  shows "unat (text_y m) = 16 + unat (cursor_row m) * 18" "unat (text_y m) + 16 < 2 ^ 32"
proof -
  have "unat (cursor_row m) * 18 + 16 < 2 ^ 31" using assms by (simp add: screen_ok_def)
  then show "unat (text_y m) = 16 + unat (cursor_row m) * 18" "unat (text_y m) + 16 < 2 ^ 32"
    by (simp_all add: text_y_def console_sizes unat_word_ariths)
qed

lemma console_newline_shown:
  assumes "screen_ok m"
  shows "\<exists>m'. console_newline m = Some m' \<and> shown m m'"
proof -
  define m1 where "m1 = m\<lparr>cursor_column := 0, cursor_row := cursor_row m + 1\<rparr>"
  have b: "unat (cursor_row m) < unat (rows m)" "unat (rows m) * 18 + 16 < 2 ^ 31"
    using assms by (simp_all add: screen_ok_def)
  then have r: "unat (cursor_row m + 1) = unat (cursor_row m) + 1" by (simp add: unat_word_ariths)
  show ?thesis
  proof (cases "rows m \<le> cursor_row m + 1")
    case False
    then have "screen_ok m1" using assms r by (simp add: screen_ok_def m1_def word_le_nat_alt)
    then have "shown m m1" by (rule shownI [where s = "screen m"]) (simp add: m1_def)
    with False show ?thesis by (simp add: console_newline_def m1_def)
  next
    case True
    have "unat (rows m * 18) = unat (rows m) * 18" using b(2) by (simp add: unat_word_ariths)
    then have nw: "no_wrap (Scroll CONSOLE_MARGIN (rows m * CONSOLE_LINE_HEIGHT) 1 CONSOLE_BG)"
      using b(2) by (simp add: console_sizes)
    have "fb_ok (screen m1)" using assms by (simp add: screen_ok_def m1_def)
    then obtain s where s: "fb_scroll_up CONSOLE_MARGIN (rows m * CONSOLE_LINE_HEIGHT) 1 CONSOLE_BG (screen m1) = Some s"
        "drawn (\<lambda>px py. True) (screen m1) s"
      using draw_step_drawn [OF _ nw] by auto
    then have "fb_ok s" using \<open>fb_ok (screen m1)\<close> drawn_geometry(1) by blast
    let ?m = "m\<lparr>screen := s, cursor_column := 0, cursor_row := rows m - 1\<rparr>"
    have "unat (rows m - 1) < unat (rows m)"
      using b(1) by (simp add: unat_sub_u32 word_le_nat_alt)
    then have "screen_ok ?m" using assms \<open>fb_ok s\<close> by (simp add: screen_ok_def)
    then have "shown m ?m" by (rule shownI) simp
    moreover have "console_newline m = Some ?m"
      using True s by (simp add: console_newline_def on_screen_do_def m1_def)
    ultimately show ?thesis by blast
  qed
qed

lemma console_putc_shown:
  assumes "screen_ok m"
  shows "\<exists>m'. console_putc c m = Some m' \<and> shown m m'"
proof (cases "c = CHR 0x0A \<or> c = CHR 0x0D")
  case True
  then show ?thesis using console_newline_shown [OF assms] assms by (auto simp: console_putc_def)
next
  case False
  obtain m1 where m1: "(if columns m \<le> cursor_column m then console_newline m else Some m) = Some m1" "shown m m1"
    "columns m \<le> cursor_column m \<longrightarrow> cursor_column m1 = 0" "\<not> columns m \<le> cursor_column m \<longrightarrow> m1 = m"
  proof (cases "columns m \<le> cursor_column m")
    case True
    obtain m1 where "console_newline m = Some m1" "shown m m1" using console_newline_shown [OF assms] by blast
    moreover from this have "cursor_column m1 = 0"
      by (auto simp: console_newline_def on_screen_do_def Let_def split: if_splits Option.bind_splits)
    ultimately show ?thesis using that True by simp
  qed (use that assms in auto)
  obtain s where s: "on_screen_do (draw_step (Letter (CONSOLE_MARGIN + cursor_column m1 * CONSOLE_CHAR_WIDTH) (text_y m1)
      c CONSOLE_FG CONSOLE_BG)) m1 = Some (m1\<lparr>screen := s\<rparr>)" "fb_ok s"
    using shown_draw [OF shown_ok [OF m1(2)], of "Letter (CONSOLE_MARGIN + cursor_column m1 * CONSOLE_CHAR_WIDTH) (text_y m1)
      c CONSOLE_FG CONSOLE_BG"] by auto
  let ?m = "m1\<lparr>screen := s, cursor_column := cursor_column m1 + 1\<rparr>"
  have "unat (cursor_column m1 + 1) \<le> max (unat (columns m)) 262"
  proof (cases "columns m \<le> cursor_column m")
    case False
    then have "unat (cursor_column m) < unat (columns m)" by (simp add: word_le_nat_alt)
    then have "unat (cursor_column m + 1) \<le> unat (columns m)"
      using assms by (simp add: screen_ok_def unat_word_ariths)
    then show ?thesis using False m1(4) by simp
  qed (use m1(3) in simp)
  moreover have "columns m1 = columns m" "screen_ok m1" using m1(2) by (auto simp: shown_def)
  ultimately have "screen_ok ?m" using s(2) by (auto simp: screen_ok_def)
  then have "shown m1 ?m" by (rule shownI [where r = "cursor_row m1"]) simp
  then have "shown m ?m" using m1(2) shown_trans by blast
  then show ?thesis using False m1(1) s(1) by (simp add: console_putc_def)
qed

lemma console_puts_shown:
  assumes "screen_ok m"
  shows "\<exists>m'. console_puts t m = Some m' \<and> shown m m'"
proof -
  have "\<exists>m'. for_each console_putc t m = Some m' \<and> shown m m'"
    by (rule for_each_invariant [where I = "shown m"])
      (use assms console_putc_shown shown_trans shown_ok in blast)+
  then show ?thesis by (simp add: console_puts_def)
qed

section \<open>The command buffer\<close>

text \<open>The line \<open>l @ r\<close> is in the buffer, with its terminator, and the cursor stands before \<open>r\<close>.\<close>

definition editing :: "string \<Rightarrow> string \<Rightarrow> ('d, 'm) con \<Rightarrow> bool" where
  "editing l r m \<longleftrightarrow> (\<exists>rest. command m = l @ r @ CHR 0x00 # rest) \<and> length (command m) = 128
     \<and> CHR 0x00 \<notin> set l \<and> CHR 0x00 \<notin> set r
     \<and> command_cursor m = of_nat (length l) \<and> command_length m = of_nat (length l + length r)"

lemma editing_bounds:
  assumes "editing l r m"
  shows "length l + length r \<le> 127" "unat (command_cursor m) = length l" "unat (command_length m) = length l + length r"
proof -
  show b: "length l + length r \<le> 127" using assms by (auto simp: editing_def)
  show "unat (command_cursor m) = length l" "unat (command_length m) = length l + length r"
    using assms b unat_of_nat_small [of "length l", where 'a = 32]
      unat_of_nat_small [of "length l + length r", where 'a = 32]
    by (simp_all add: editing_def)
qed

lemma editing_cstr: "editing l r m \<Longrightarrow> cstr (command m) = Some (l @ r)"
proof -
  assume "editing l r m"
  then obtain rest where "command m = (l @ r) @ CHR 0x00 # rest" "CHR 0x00 \<notin> set (l @ r)" by (auto simp: editing_def)
  then show ?thesis
    by (auto simp: cstr_def takeWhile_append2 simp del: append_assoc intro!: takeWhile_append2 [where xs = "l @ r", THEN trans])
qed

lemma editing_shown:
  assumes "editing l r m" "shown m m'"
  shows "editing l r m'"
  using assms(2) by (rule shownE) (use assms(1) in \<open>simp add: editing_def\<close>)

lemma shift_right_loop:
  assumes "command m = l @ r @ x # rest"
  shows "for_each (\<lambda>i m. get_char (i - 1) m \<bind> (\<lambda>x. set_char i x m)) (rev [length l + 1..<length l + length r + 1]) m
    = Some (m\<lparr>command := l @ hd (r @ [x]) # r @ rest\<rparr>)"
  using assms
proof (induction r arbitrary: m x rest rule: rev_induct)
  case Nil
  then show ?case by simp
next
  case (snoc z r)
  let ?m = "m\<lparr>command := l @ r @ z # z # rest\<rparr>"
  have "get_char (length l + length r) m = Some z" "set_char (Suc (length l + length r)) z m = Some ?m"
    using snoc.prems by (simp_all add: get_char_def set_char_def nth_append list_update_append)
  moreover have "hd (r @ [z] @ [x]) = hd (r @ [z])" by (cases r) simp_all
  ultimately show ?case using snoc.IH [of ?m z "z # rest"] by simp
qed

lemma shift_left_loop:
  assumes "command m = p @ y # q @ rest"
  shows "for_each (\<lambda>i m. get_char (i + 1) m \<bind> (\<lambda>x. set_char i x m)) [length p..<length p + length q] m
    = Some (m\<lparr>command := p @ q @ last (y # q) # rest\<rparr>)"
  using assms
proof (induction q arbitrary: m p y)
  case Nil
  then show ?case by simp
next
  case (Cons z q)
  let ?m = "m\<lparr>command := (p @ [z]) @ z # q @ rest\<rparr>"
  have "get_char (Suc (length p)) m = Some z" "set_char (length p) z m = Some ?m"
    using Cons.prems by (simp_all add: get_char_def set_char_def nth_append list_update_append)
  moreover have "[length p..<length p + length (z # q)] = length p # [length (p @ [z])..<length (p @ [z]) + length q]"
    using upt_conv_Cons [of "length p" "length p + Suc (length q)"] by (simp del: upt_Suc)
  ultimately show ?case using Cons.IH [of ?m "p @ [z]" z] by simp
qed

lemma set_chars_loop:
  assumes "length t \<le> length (command m)"
  shows "for_each (\<lambda>i. set_char i (t ! i)) [0..<length t] m = Some (m\<lparr>command := t @ drop (length t) (command m)\<rparr>)"
  using assms
proof (induction t rule: rev_induct)
  case Nil
  then show ?case by simp
next
  case (snoc c t)
  have "for_each (\<lambda>i. set_char i ((t @ [c]) ! i)) [0..<length t] m = for_each (\<lambda>i. set_char i (t ! i)) [0..<length t] m"
    by (rule for_each_cong) (simp_all add: nth_append)
  moreover have "(t @ drop (length t) (command m))[length t := c] = (t @ [c]) @ drop (length (t @ [c])) (command m)"
    using snoc.prems by (simp add: list_update_append Cons_nth_drop_Suc [symmetric])
  moreover have "set_char (length t) c (m\<lparr>command := t @ drop (length t) (command m)\<rparr>)
      = Some (m\<lparr>command := (t @ drop (length t) (command m))[length t := c]\<rparr>)"
    using snoc.prems by (simp add: set_char_def)
  ultimately show ?case using snoc by (simp add: for_each_append)
qed

section \<open>Keys\<close>

lemma prompt_columns_screen [simp]:
  "console_prompt_columns (m\<lparr>screen := s\<rparr>) = console_prompt_columns m"
  "console_prompt_columns (m\<lparr>cursor_column := c\<rparr>) = console_prompt_columns m"
  by (simp_all add: console_prompt_columns_def)

text \<open>The fields that the editing keys change.\<close>

definition line_only :: "('d, 'm) con \<Rightarrow> ('d, 'm) con \<Rightarrow> bool" where
  "line_only m m' \<longleftrightarrow> (\<exists>s c cmd len cur t. m' = m\<lparr>screen := s, cursor_column := c, command := cmd,
     command_length := len, command_cursor := cur, klog := t\<rparr>)"

lemma line_onlyI:
  "m' = m\<lparr>screen := s, cursor_column := c, command := cmd, command_length := len, command_cursor := cur,
     klog := t\<rparr> \<Longrightarrow> line_only m m'"
  unfolding line_only_def by blast

lemma line_only_refl [simp]: "line_only m m"
  by (rule line_onlyI [where s = "screen m" and c = "cursor_column m" and cmd = "command m" and
        len = "command_length m" and cur = "command_cursor m" and t = "klog m"]) simp

lemma line_only_trans:
  assumes "line_only m m'" "line_only m' m''"
  shows "line_only m m''"
proof -
  obtain s c cmd len cur t where 1: "m' = m\<lparr>screen := s, cursor_column := c, command := cmd,
     command_length := len, command_cursor := cur, klog := t\<rparr>"
    using assms(1) unfolding line_only_def by blast
  obtain s' c' cmd' len' cur' t' where 2: "m'' = m'\<lparr>screen := s', cursor_column := c', command := cmd',
     command_length := len', command_cursor := cur', klog := t'\<rparr>"
    using assms(2) unfolding line_only_def by blast
  show ?thesis by (rule line_onlyI [where s = s' and c = c' and cmd = cmd' and len = len' and cur = cur' and t = t']) (simp add: 1 2)
qed

lemma line_only_upd [simp]:
  assumes "line_only m m'"
  shows "line_only m (m'\<lparr>screen := s\<rparr>)" "line_only m (m'\<lparr>cursor_column := c\<rparr>)" "line_only m (m'\<lparr>command := cmd\<rparr>)"
    "line_only m (m'\<lparr>command_length := len\<rparr>)" "line_only m (m'\<lparr>command_cursor := cur\<rparr>)"
    "line_only m (m'\<lparr>klog := t\<rparr>)"
proof -
  have all: "line_only m' (m'\<lparr>screen := s, cursor_column := c, command := cmd, command_length := len,
      command_cursor := cur, klog := t\<rparr>)" for s c cmd len cur t
    by (rule line_onlyI) (rule refl)
  note trans = line_only_trans [OF assms]
  show "line_only m (m'\<lparr>screen := s\<rparr>)" "line_only m (m'\<lparr>cursor_column := c\<rparr>)" "line_only m (m'\<lparr>command := cmd\<rparr>)"
    "line_only m (m'\<lparr>command_length := len\<rparr>)" "line_only m (m'\<lparr>command_cursor := cur\<rparr>)"
    "line_only m (m'\<lparr>klog := t\<rparr>)"
    using trans [OF all [of t "command_cursor m'" "command_length m'" "command m'" "cursor_column m'" "screen m'"]]
      trans [OF all [of "klog m'" cur "command_length m'" "command m'" "cursor_column m'" "screen m'"]]
      trans [OF all [of "klog m'" "command_cursor m'" len "command m'" "cursor_column m'" "screen m'"]]
      trans [OF all [of "klog m'" "command_cursor m'" "command_length m'" cmd "cursor_column m'" "screen m'"]]
      trans [OF all [of "klog m'" "command_cursor m'" "command_length m'" "command m'" c "screen m'"]]
      trans [OF all [of "klog m'" "command_cursor m'" "command_length m'" "command m'" "cursor_column m'" s]]
    by simp_all
qed

lemma line_only_fields:
  "line_only m m' \<Longrightarrow> cwd m' = cwd m \<and> history m' = history m \<and> history_count m' = history_count m
     \<and> history_index m' = history_index m \<and> halted m' = halted m \<and> keys m' = keys m \<and> dev m' = dev m
     \<and> tick_rate m' = tick_rate m \<and> records m' = records m \<and> contents m' = contents m
     \<and> disk_backed m' = disk_backed m \<and> console_machine.more m' = console_machine.more m"
  by (auto simp: line_only_def)

text \<open>The line \<open>l @ r\<close> is being edited, with the cursor of the screen at its place behind the prompt.\<close>

definition at_line :: "string \<Rightarrow> string \<Rightarrow> ('d, 'm) con \<Rightarrow> bool" where
  "at_line l r m \<longleftrightarrow> editing l r m \<and> screen_ok m \<and> cursor_column m = 8 + of_nat (length (cwd m) + length l)"

definition edited :: "string \<Rightarrow> string \<Rightarrow> ('d, 'm) con \<Rightarrow> ('d, 'm) con \<Rightarrow> bool" where
  "edited l r m m' \<longleftrightarrow> at_line l r m' \<and> line_only m m'"

lemma redraw_edited:
  assumes "editing l r m'" "screen_ok m'"
    and "line_only m m'"
  shows "\<exists>m''. console_redraw_command m' = Some m'' \<and> edited l r m m''"
proof -
  let ?x = "CONSOLE_MARGIN + console_prompt_columns m' * CONSOLE_CHAR_WIDTH"
  let ?w = "g_width (screen m')"
  have cl: "length (cwd m') \<le> 127" using assms(2) by (simp add: screen_ok_def)
  then have x: "unat ?x \<le> 1300"
    by (simp add: console_prompt_columns_def console_sizes unat_word_ariths unat_of_nat_small)
  have nw: "no_wrap (Fill ?x (text_y m') (if ?x < ?w then ?w - ?x else 0) 16 CONSOLE_BG)"
    using unat_text_y(2) [OF assms(2)] x unat_u32_bound [of ?w]
    by (auto simp: unat_sub_u32 word_less_nat_alt word_le_nat_alt)
  obtain s where s: "on_screen_do (fb_fill_rect ?x (text_y m') (if ?x < ?w then ?w - ?x else 0) 16 CONSOLE_BG) m'
      = Some (m'\<lparr>screen := s\<rparr>)" "fb_ok s"
    using shown_draw [OF assms(2) nw] by auto
  let ?m1 = "m'\<lparr>screen := s\<rparr>"
  have ok1: "screen_ok ?m1" using assms(2) s(2) by (simp add: screen_ok_def)
  obtain s' where s': "on_screen_do (fb_draw_string ?x (text_y ?m1) (Some (l @ r)) CONSOLE_FG CONSOLE_BG) ?m1
      = Some (m'\<lparr>screen := s'\<rparr>)" "fb_ok s'"
    using shown_draw [OF ok1, of "Text ?x (text_y ?m1) (Some (l @ r)) CONSOLE_FG CONSOLE_BG"] by auto
  let ?c = "console_prompt_columns m' + command_cursor m'"
  let ?m2 = "m'\<lparr>screen := s', cursor_column := ?c\<rparr>"
  have "console_redraw_command m' = Some ?m2"
    using s s' editing_cstr [OF assms(1)]
    by (simp add: console_redraw_command_def fb_get_width_def Let_def split del: if_split)
  moreover have "edited l r m ?m2"
  proof -
    have c: "?c = 8 + of_nat (length (cwd m) + length l)"
      using assms(1) line_only_fields [OF assms(3)] by (simp add: console_prompt_columns_def editing_def)
    have "unat ?c \<le> 262"
      using c editing_bounds(1) [OF assms(1)] cl line_only_fields [OF assms(3)]
      by (simp add: unat_word_ariths unat_of_nat_small del: of_nat_add)
    then have "screen_ok ?m2" using assms(2) s'(2) by (simp add: screen_ok_def)
    moreover have "editing l r ?m2" using assms(1) by (simp add: editing_def)
    moreover have "line_only m ?m2" using assms(3) by simp
    ultimately show ?thesis
      unfolding edited_def at_line_def using c line_only_fields [OF assms(3)] by simp
  qed
  ultimately show ?thesis by blast
qed

lemma editing_command:
  assumes "editing l r m"
  obtains rest where "command m = l @ r @ CHR 0x00 # rest" "length l + length r + length rest = 127"
  using assms unfolding editing_def by auto

lemma insert_char_editing:
  assumes "editing l r m" "length l + length r < 127" "c \<noteq> CHR 0x00"
  shows "\<exists>m'. insert_char c m = Some m' \<and> editing (l @ [c]) r m' \<and> line_only m m' \<and> screen_ok m' = screen_ok m"
proof -
  note b = editing_bounds [OF assms(1)]
  obtain rest where cmd: "command m = l @ r @ CHR 0x00 # rest" "length l + length r + length rest = 127"
    using assms(1) by (rule editing_command)
  then obtain y ys where rest: "rest = y # ys" using assms(2) by (cases rest) auto
  let ?h = "hd (r @ [CHR 0x00])"
  have sh: "for_each (\<lambda>i m. get_char (i - 1) m \<bind> (\<lambda>x. set_char i x m))
      (rev [unat (command_cursor m) + 1..<unat (command_length m) + 1]) m = Some (m\<lparr>command := l @ ?h # r @ rest\<rparr>)"
    using shift_right_loop [OF cmd(1)] b by simp
  have u: "unat (command_length m + 1) = length l + length r + 1"
    using b assms(2) by (simp add: unat_word_ariths)
  let ?m2 = "m\<lparr>command := l @ c # r @ rest\<rparr>"
  let ?m3 = "?m2\<lparr>command_cursor := command_cursor m + 1, command_length := command_length m + 1\<rparr>"
  have "set_char (unat (command_cursor m)) c (m\<lparr>command := l @ ?h # r @ rest\<rparr>) = Some ?m2"
    by (simp add: b set_char_def list_update_append)
  moreover have "set_char (unat (command_length m + 1)) (CHR 0x00) ?m3 = Some (?m3\<lparr>command := l @ c # r @ CHR 0x00 # ys\<rparr>)"
    by (simp add: u set_char_def list_update_append rest)
  ultimately have "insert_char c m = Some (?m3\<lparr>command := l @ c # r @ CHR 0x00 # ys\<rparr>)"
    unfolding insert_char_def sh Let_def by simp
  moreover have "editing (l @ [c]) r (?m3\<lparr>command := l @ c # r @ CHR 0x00 # ys\<rparr>)"
    using assms cmd(2) by (simp add: editing_def rest add.commute)
  ultimately show ?thesis by (simp add: screen_ok_def)
qed

lemma key_backspace_edited:
  assumes "at_line l r m"
  shows "\<exists>m'. key_backspace m = Some m' \<and> edited (butlast l) r m m'"
proof (cases l rule: rev_cases)
  case Nil
  then show ?thesis
    using assms line_only_refl by (simp add: key_backspace_def at_line_def editing_def edited_def)
next
  case (snoc p y)
  have e: "editing l r m" and ok: "screen_ok m" using assms by (simp_all add: at_line_def)
  note b = editing_bounds [OF e]
  obtain rest where cmd: "command m = l @ r @ CHR 0x00 # rest" "length l + length r + length rest = 127"
    using e by (rule editing_command)
  have c: "command_cursor m = of_nat (length p + 1)" "command_length m = of_nat (length p + length r + 1)"
    using e snoc by (simp_all add: editing_def add.commute)
  have nz: "command_cursor m \<noteq> 0" using b(2) snoc by auto
  have u: "unat (command_cursor m - 1) = length p" using c(1) b(1) snoc by (simp add: unat_of_nat_small)
  have cmd': "command m = p @ y # (r @ [CHR 0x00]) @ rest" using cmd snoc by simp
  have sh: "for_each (\<lambda>i m. get_char (i + 1) m \<bind> (\<lambda>x. set_char i x m)) [unat (command_cursor m - 1)..<unat (command_length m)] m
      = Some (m\<lparr>command := p @ r @ CHR 0x00 # CHR 0x00 # rest\<rparr>)"
    using shift_left_loop [OF cmd'] u b(3) snoc by simp
  let ?m = "m\<lparr>command := p @ r @ CHR 0x00 # CHR 0x00 # rest, command_cursor := command_cursor m - 1,
      command_length := command_length m - 1\<rparr>"
  have "editing p r ?m" using e snoc cmd(2) c by (simp add: editing_def)
  moreover have "screen_ok ?m" using ok by (simp add: screen_ok_def)
  ultimately have "\<exists>m''. console_redraw_command ?m = Some m'' \<and> edited p r m m''"
    by (rule redraw_edited) simp
  then show ?thesis using sh nz snoc by (simp add: key_backspace_def)
qed

lemma screen_ok_line [simp]:
  "screen_ok (m\<lparr>command := cmd\<rparr>) = screen_ok m" "screen_ok (m\<lparr>command_length := len\<rparr>) = screen_ok m"
  "screen_ok (m\<lparr>command_cursor := cur\<rparr>) = screen_ok m" "screen_ok (m\<lparr>klog := t\<rparr>) = screen_ok m"
  "screen_ok (m\<lparr>history_index := i\<rparr>) = screen_ok m" "screen_ok (m\<lparr>keys := q\<rparr>) = screen_ok m"
  "screen_ok (m\<lparr>cursor_visible := v\<rparr>) = screen_ok m" "screen_ok (m\<lparr>cursor_tick := k\<rparr>) = screen_ok m"
  by (simp_all add: screen_ok_def)

lemma con_log_eq: "con_log t m = m\<lparr>klog := klog m @ t\<rparr>"
  by (simp add: con_log_def run_simps)

lemma editing_log [simp]: "editing l r (m\<lparr>klog := t\<rparr>) = editing l r m" "at_line l r (m\<lparr>klog := t\<rparr>) = at_line l r m"
  "editing l r (m\<lparr>history_index := i\<rparr>) = editing l r m"
  by (simp_all add: editing_def at_line_def)

lemma edited_log: "edited l r m m' \<Longrightarrow> edited l r m (m'\<lparr>klog := t\<rparr>)"
  by (simp add: edited_def)

lemma edited_from: "edited l r m1 m' \<Longrightarrow> line_only m m1 \<Longrightarrow> edited l r m m'"
  using line_only_trans by (auto simp: edited_def)

text \<open>Printable characters are inserted while there is room.\<close>

lemma type_char_edited:
  assumes "at_line l r m" "length l + length r < 127" "c \<noteq> CHR 0x00"
  shows "\<exists>m'. (insert_char c m \<bind> console_redraw_command) = Some m' \<and> edited (l @ [c]) r m m'"
proof -
  obtain m1 where m1: "insert_char c m = Some m1" "editing (l @ [c]) r m1" "line_only m m1" "screen_ok m1"
    using insert_char_editing [of l r m c] assms by (auto simp: at_line_def)
  then show ?thesis using redraw_edited [OF m1(2,4,3)] by auto
qed

lemma insert_spaces_editing:
  assumes "editing l r m"
  shows "\<exists>m'. insert_spaces n m = Some m' \<and> editing (l @ replicate (min n (127 - (length l + length r))) (CHR '' '')) r m'
    \<and> line_only m m' \<and> screen_ok m' = screen_ok m"
  using assms
proof (induction n arbitrary: l m)
  case 0
  then show ?case by simp
next
  case (Suc n)
  note b = editing_bounds [OF Suc.prems]
  show ?case
  proof (cases "length l + length r < 127")
    case False
    then have "\<not> command_length m < COMMAND_MAX" using b by (simp add: COMMAND_MAX_def word_less_nat_alt)
    then show ?thesis using False Suc.prems by simp
  next
    case True
    then have lt: "command_length m < COMMAND_MAX" using b by (simp add: COMMAND_MAX_def word_less_nat_alt)
    obtain m1 where m1: "insert_char (CHR '' '') m = Some m1" "editing (l @ '' '') r m1" "line_only m m1" "screen_ok m1 = screen_ok m"
      using insert_char_editing [OF Suc.prems True, of "CHR '' ''"] by auto
    have "min (Suc n) (127 - (length l + length r)) = Suc (min n (127 - (length (l @ '' '') + length r)))"
      using True by auto
    then show ?thesis
      using Suc.IH [OF m1(2)] m1 lt line_only_trans [OF m1(3)] by auto
  qed
qed

lemma key_tab_edited:
  assumes "at_line l r m"
  shows "\<exists>m'. key_tab m = Some m' \<and>
    edited (l @ replicate (min (4 - (length (cwd m) + length l + 1) mod 4) (127 - (length l + length r))) (CHR '' '')) r m m'"
proof -
  let ?m = "m\<lparr>klog := klog m @ ''[MinOS Console] Tab event consumed'' @ [CHR 0x0A]\<rparr>"
  have e: "editing l r ?m" "screen_ok ?m" using assms by (simp_all add: at_line_def)
  let ?k = "length (cwd m) + length l"
  have "length (cwd m) \<le> 127" using assms by (simp add: at_line_def screen_ok_def)
  then have k: "?k \<le> 254" using editing_bounds(1) [OF e(1)] by simp
  have cc: "cursor_column m - 7 = of_nat (?k + 1)" using assms by (simp add: at_line_def)
  have "unat (cursor_column m - 7) = ?k + 1" unfolding cc using k by (intro unat_of_nat_small) simp
  then have m4: "unat ((cursor_column m - 7) mod 4) = (?k + 1) mod 4" by (simp add: unat_mod)
  have sp: "unat (4 - (cursor_column m - 7) mod 4) = 4 - (?k + 1) mod 4"
    using m4 by (subst unat_sub_u32) (simp_all add: word_le_nat_alt less_imp_le)
  obtain m1 where m1: "insert_spaces (4 - (?k + 1) mod 4) ?m = Some m1" "line_only ?m m1" "screen_ok m1"
      "editing (l @ replicate (min (4 - (?k + 1) mod 4) (127 - (length l + length r))) (CHR '' '')) r m1"
    using insert_spaces_editing [OF e(1)] e(2) by metis
  have "line_only m m1" using m1(2) by (rule line_only_trans [rotated]) simp
  then show ?thesis
    using redraw_edited [OF m1(4,3)] m1(1) sp by (auto simp: key_tab_def con_log_eq)
qed

lemma edited_refl: "at_line l r m \<Longrightarrow> edited l r m m"
  by (simp add: edited_def)

text \<open>Moving the cursor inside the line.\<close>

lemma move_cursor_edited:
  assumes "at_line l r m" "l @ r = l' @ r'"
  shows "\<exists>m'. console_redraw_command (m\<lparr>command_cursor := of_nat (length l')\<rparr>) = Some m' \<and> edited l' r' m m'"
proof (rule redraw_edited)
  have "length l + length r = length l' + length r'" "set l \<union> set r = set l' \<union> set r'"
    using assms(2) by (metis length_append, metis set_append)
  then show "editing l' r' (m\<lparr>command_cursor := of_nat (length l')\<rparr>)"
    using assms by (auto simp: at_line_def editing_def) (metis append.assoc)+
qed (use assms in \<open>simp_all add: at_line_def\<close>)

lemma key_left_edited:
  assumes "at_line l r m"
  shows "\<exists>m'. key_left m = Some m' \<and> edited (butlast l) (if l = [] then r else last l # r) m m'"
proof (cases l rule: rev_cases)
  case Nil
  then show ?thesis
    using assms editing_bounds(2) [of l r m] edited_log [OF edited_refl [OF assms]]
    by (auto simp: key_left_def con_log_eq at_line_def editing_def)
next
  case (snoc p y)
  have c: "command_cursor m = of_nat (length p) + 1" "command_cursor m \<noteq> 0"
    using assms snoc editing_bounds(2) [of l r m] by (auto simp: at_line_def editing_def)
  obtain m1 where "console_redraw_command (m\<lparr>command_cursor := of_nat (length p)\<rparr>) = Some m1" "edited p (y # r) m m1"
    using move_cursor_edited [OF assms, of p "y # r"] snoc by auto
  then show ?thesis using c snoc edited_log by (auto simp: key_left_def con_log_eq)
qed

lemma key_right_edited:
  assumes "at_line l r m"
  shows "\<exists>m'. key_right m = Some m' \<and> edited (l @ take 1 r) (drop 1 r) m m'"
proof -
  note b = editing_bounds [of l r m]
  have e: "editing l r m" using assms by (simp add: at_line_def)
  show ?thesis
  proof (cases r)
    case Nil
    then have "\<not> command_cursor m < command_length m" using e by (simp add: editing_def)
    then show ?thesis using Nil edited_log [OF edited_refl [OF assms]] by (auto simp: key_right_def con_log_eq)
  next
    case (Cons y q)
    have c: "command_cursor m < command_length m" "command_cursor m + 1 = of_nat (length (l @ [y]))"
      using b [OF e] e Cons by (simp_all add: word_less_nat_alt editing_def add.commute)
    obtain m1 where "console_redraw_command (m\<lparr>command_cursor := of_nat (length (l @ [y]))\<rparr>) = Some m1" "edited (l @ [y]) q m m1"
      using move_cursor_edited [OF assms, of "l @ [y]" q] Cons by auto
    then show ?thesis using c Cons edited_log by (auto simp: key_right_def con_log_eq add.commute)
  qed
qed

lemma key_kill_rest_edited:
  assumes "at_line l r m"
  shows "\<exists>m'. key_kill_rest m = Some m' \<and> edited l [] m m'"
proof -
  have e: "editing l r m" and ok: "screen_ok m" using assms by (simp_all add: at_line_def)
  note b = editing_bounds [OF e]
  obtain rest where cmd: "command m = l @ r @ CHR 0x00 # rest" "length l + length r + length rest = 127"
    using e by (rule editing_command)
  let ?m = "m\<lparr>command_length := command_cursor m, command := l @ CHR 0x00 # drop (Suc (length l)) (command m)\<rparr>"
  have "(l @ r @ CHR 0x00 # rest)[length l := CHR 0x00] = l @ CHR 0x00 # drop (Suc (length l)) (command m)"
    using cmd by (cases r) (simp_all add: list_update_append)
  then have "set_char (unat (command_cursor m)) (CHR 0x00) (m\<lparr>command_length := command_cursor m\<rparr>) = Some ?m"
    using b cmd by (simp add: set_char_def)
  moreover have "editing l [] ?m"
    using e cmd by (auto simp: editing_def)
  ultimately show ?thesis
    using redraw_edited [of l "[]" ?m m] ok by (simp add: key_kill_rest_def)
qed

lemma key_kill_line_edited:
  assumes "at_line l r m"
  shows "\<exists>m'. key_kill_line m = Some m' \<and> edited [] [] m m'"
proof -
  have ok: "screen_ok m" "length (command m) = 128" using assms by (simp_all add: at_line_def editing_def)
  obtain x xs where c: "command m = x # xs" "length xs = 127" using ok(2) by (cases "command m") auto
  let ?m = "m\<lparr>command_length := 0, command_cursor := 0, command := CHR 0x00 # xs\<rparr>"
  have "set_char 0 (CHR 0x00) (m\<lparr>command_length := 0, command_cursor := 0\<rparr>) = Some ?m"
    using c by (simp add: set_char_def)
  moreover have "editing [] [] ?m" using c by (simp add: editing_def)
  ultimately show ?thesis using redraw_edited [of "[]" "[]" ?m m] ok(1) by (simp add: key_kill_line_def)
qed

lemma set_command_edited:
  assumes "screen_ok m" "length (command m) = 128" "CHR 0x00 \<notin> set t" "length t \<le> 127"
  shows "\<exists>m'. console_set_command t m = Some m' \<and> edited t [] m m'"
proof -
  have t: "take (unat COMMAND_MAX) t = t" using assms(4) by (simp add: COMMAND_MAX_def)
  obtain d where d: "drop (length t) (command m) = d # drop (Suc (length t)) (command m)"
    using assms(2,4) by (metis Cons_nth_drop_Suc le_imp_less_Suc numeral_eq_Suc pred_numeral_simps(2) semiring_norm(26-28))
  let ?m = "m\<lparr>command := t @ CHR 0x00 # drop (Suc (length t)) (command m), command_length := of_nat (length t),
      command_cursor := of_nat (length t)\<rparr>"
  have l: "for_each (\<lambda>i. set_char i (t ! i)) [0..<length t] m = Some (m\<lparr>command := t @ d # drop (Suc (length t)) (command m)\<rparr>)"
    using set_chars_loop [of t m] assms(2,4) d by simp
  have "set_char (length t) (CHR 0x00) (m\<lparr>command := t @ d # drop (Suc (length t)) (command m)\<rparr>)
      = Some (m\<lparr>command := t @ CHR 0x00 # drop (Suc (length t)) (command m)\<rparr>)"
    by (simp add: set_char_def list_update_append)
  moreover have "editing t [] ?m" using assms by (simp add: editing_def)
  ultimately show ?thesis
    using redraw_edited [of t "[]" ?m m] assms(1) l t by (simp add: console_set_command_def Let_def)
qed

section \<open>The history\<close>

definition history_ok :: "('d, 'm) con \<Rightarrow> bool" where
  "history_ok m \<longleftrightarrow> length (history m) = 16 \<and> (\<forall>h \<in> set (history m). length h \<le> 127 \<and> CHR 0x00 \<notin> set h)
     \<and> unat (history_count m) \<le> 16 \<and> history_index m \<le> history_count m"

text \<open>The lines entered so far, newest first.\<close>

definition past :: "('d, 'm) con \<Rightarrow> string list" where
  "past m = take (unat (history_count m)) (history m)"

lemma recall_past:
  assumes "history_ok m" "0 < unat (history_index m)"
  shows "recall m = Some (past m ! (unat (history_index m) - 1))"
    and "length (past m ! (unat (history_index m) - 1)) \<le> 127" "CHR 0x00 \<notin> set (past m ! (unat (history_index m) - 1))"
proof -
  let ?i = "unat (history_index m) - 1"
  have b: "unat (history_index m) \<le> unat (history_count m)" "unat (history_count m) \<le> 16" "length (history m) = 16"
    using assms by (simp_all add: history_ok_def word_le_nat_alt)
  have "unat (history_index m - 1) = ?i" using assms(2) by (simp add: unat_sub_u32 word_le_nat_alt)
  then have i: "unat ((history_index m - 1) mod HISTORY_MAX) = ?i"
    using b assms(2) by (simp add: HISTORY_MAX_def unat_mod)
  have p: "past m ! ?i = history m ! ?i" using b assms(2) by (simp add: past_def)
  show "recall m = Some (past m ! ?i)" using i p b assms(2) by (auto simp: recall_def Let_def)
  have "history m ! ?i \<in> set (history m)" using b assms(2) by (intro nth_mem) simp
  then show "length (past m ! ?i) \<le> 127" "CHR 0x00 \<notin> set (past m ! ?i)"
    using assms(1) p by (auto simp: history_ok_def)
qed

lemma past_length: "history_ok m \<Longrightarrow> length (past m) = unat (history_count m)"
  by (simp add: past_def history_ok_def)

lemma past_line: "line_only m m' \<Longrightarrow> past m' = past m"
  using line_only_fields [of m m'] by (simp add: past_def)

section \<open>The abstract editor\<close>

text \<open>
  A line with a cursor and the place in the history: the text before the cursor, the text behind it,
  and how many lines back the history stands.  \<open>n\<close> is the length of the working directory, which the
  tab stops depend on, and \<open>H\<close> the history.
\<close>

definition ctrl :: "input_event \<Rightarrow> input_key \<Rightarrow> bool" where
  "ctrl e k \<longleftrightarrow> ev_modifiers e AND INPUT_MOD_CTRL \<noteq> 0 \<and> ev_key e = k"

fun edit_spec :: "nat \<Rightarrow> string list \<Rightarrow> input_event \<Rightarrow> string \<times> string \<times> nat \<Rightarrow> string \<times> string \<times> nat" where
  "edit_spec n H e (l, r, i) =
     (if ev_pressed e = 0 then (l, r, i)
      else if ev_key e = INPUT_KEY_BACKSPACE then (butlast l, r, i)
      else if ev_key e = INPUT_KEY_TAB then
        (l @ replicate (min (4 - (n + length l + 1) mod 4) (127 - (length l + length r))) (CHR '' ''), r, i)
      else if ev_key e = INPUT_KEY_LEFT then (butlast l, if l = [] then r else last l # r, i)
      else if ev_key e = INPUT_KEY_RIGHT then (l @ take 1 r, drop 1 r, i)
      else if ev_key e = INPUT_KEY_UP then
        (if H = [] then (l, r, i) else let j = min (i + 1) (length H) in (H ! (j - 1), [], j))
      else if ev_key e = INPUT_KEY_DOWN then
        (if i = 0 then (l, r, i) else (if i = 1 then [] else H ! (i - 2), [], i - 1))
      else if ctrl e INPUT_KEY_A then ([], l @ r, i)
      else if ctrl e INPUT_KEY_E then (l @ r, [], i)
      else if ctrl e INPUT_KEY_U then ([], [], i)
      else if ctrl e INPUT_KEY_K then (l, [], i)
      else if is_printable (ev_character e) \<and> length l + length r < 127 then (l @ [ev_character e], r, i)
      else (l, r, i))"

text \<open>The console shows the abstract state.\<close>

definition represents_line :: "string \<times> string \<times> nat \<Rightarrow> ('d, 'm) con \<Rightarrow> bool" where
  "represents_line a m \<longleftrightarrow> (case a of (l, r, i) \<Rightarrow> at_line l r m \<and> history_ok m \<and> unat (history_index m) = i)"

lemma represents_edited:
  assumes "edited l r m m'" "history_ok m"
  shows "represents_line (l, r, unat (history_index m)) m'"
  using assms line_only_fields [of m m'] by (auto simp: represents_line_def edited_def history_ok_def)

text \<open>What editing does not concern: the queue, the devices, the clock, the files and the rest of the machine.\<close>

definition unmoved :: "('d, 'm) con \<Rightarrow> ('d, 'm) con \<Rightarrow> bool" where
  "unmoved m m' \<longleftrightarrow> keys m' = keys m \<and> dev m' = dev m \<and> tick_rate m' = tick_rate m
     \<and> records m' = records m \<and> contents m' = contents m \<and> disk_backed m' = disk_backed m
     \<and> console_machine.more m' = console_machine.more m"

lemma key_vertical_up:
  assumes "at_line l r m" "history_ok m"
  shows "\<exists>m'. key_vertical True m = Some m' \<and> cwd m' = cwd m \<and> past m' = past m \<and> halted m' = halted m \<and> unmoved m m'
    \<and> represents_line (if past m = [] then (l, r, unat (history_index m)) else
        let j = min (unat (history_index m) + 1) (length (past m)) in (past m ! (j - 1), [], j)) m'"
proof -
  define m0 where "m0 = m\<lparr>klog := klog m @ ''[MinOS Console] Vertical arrow consumed'' @ [CHR 0x0A]\<rparr>"
  have ok: "history_ok m0" "at_line l r m0" "past m0 = past m" "cwd m0 = cwd m" "halted m0 = halted m" "unmoved m m0"
    using assms by (simp_all add: m0_def history_ok_def past_def unmoved_def)
  have lp: "length (past m) = unat (history_count m)" using past_length [OF assms(2)] .
  show ?thesis
  proof (cases "past m = []")
    case True
    then have "history_count m = 0" using lp by (simp add: unat_eq_0)
    then show ?thesis
      using True ok by (auto simp: key_vertical_def con_log_eq m0_def represents_line_def unmoved_def)
  next
    case False
    then have nz: "history_count m0 \<noteq> 0" using lp by (auto simp: m0_def)
    define m1 where "m1 = (if history_index m0 < history_count m0 then m0\<lparr>history_index := history_index m0 + 1\<rparr> else m0)"
    have c: "unat (history_index m) \<le> unat (history_count m)" "unat (history_count m) \<le> 16"
      using assms(2) by (simp_all add: history_ok_def word_le_nat_alt)
    have j: "unat (history_index m1) = min (unat (history_index m) + 1) (length (past m))"
      using c nz lp by (auto simp: m1_def m0_def word_less_nat_alt unat_word_ariths)
    have keep: "history_count m1 = history_count m" "history m1 = history m" "cwd m1 = cwd m" "halted m1 = halted m" "unmoved m m1"
        "screen_ok m1" "length (command m1) = 128"
      using ok(2) by (simp_all add: m1_def m0_def at_line_def editing_def unmoved_def)
    have "history_ok m1" using assms(2) keep(1,2) j lp by (simp add: history_ok_def word_le_nat_alt)
    moreover have "past m1 = past m" using keep by (simp add: past_def)
    ultimately have m1: "history_ok m1" "past m1 = past m" "cwd m1 = cwd m" "halted m1 = halted m" "unmoved m m1" "screen_ok m1" "length (command m1) = 128"
      using keep by simp_all
    have pos: "0 < unat (history_index m1)" unfolding j using False by simp
    note r = recall_past [OF m1(1) pos]
    obtain m' where m': "console_set_command (past m1 ! (unat (history_index m1) - 1)) m1 = Some m'"
        "edited (past m1 ! (unat (history_index m1) - 1)) [] m1 m'"
      using set_command_edited [OF m1(6,7) r(3,2)] by blast
    have "key_vertical True m = Some m'"
      unfolding key_vertical_def con_log_eq m0_def [symmetric] Let_def m1_def [symmetric]
      using nz r(1) m'(1) by simp
    moreover have "cwd m' = cwd m" "past m' = past m" "halted m' = halted m" "unmoved m m'"
      using m'(2) m1 line_only_fields [of m1 m'] past_line [of m1 m'] by (simp_all add: edited_def unmoved_def)
    ultimately show ?thesis
      using represents_edited [OF m'(2) m1(1)] False m1(2) j by (simp add: Let_def)
  qed
qed

lemma key_vertical_down:
  assumes "at_line l r m" "history_ok m"
  shows "\<exists>m'. key_vertical False m = Some m' \<and> cwd m' = cwd m \<and> past m' = past m \<and> halted m' = halted m \<and> unmoved m m'
    \<and> represents_line (if unat (history_index m) = 0 then (l, r, unat (history_index m)) else
        (if unat (history_index m) = 1 then [] else past m ! (unat (history_index m) - 2), [], unat (history_index m) - 1)) m'"
proof -
  define m0 where "m0 = m\<lparr>klog := klog m @ ''[MinOS Console] Vertical arrow consumed'' @ [CHR 0x0A]\<rparr>"
  have ok: "history_ok m0" "at_line l r m0" "past m0 = past m" "cwd m0 = cwd m" "halted m0 = halted m" "unmoved m m0"
    using assms by (simp_all add: m0_def history_ok_def past_def unmoved_def)
  show ?thesis
  proof (cases "history_index m = 0")
    case True
    then show ?thesis
      using ok by (auto simp: key_vertical_def con_log_eq m0_def represents_line_def unmoved_def)
  next
    case False
    then have nz: "history_index m0 \<noteq> 0" by (simp add: m0_def)
    define m1 where "m1 = m0\<lparr>history_index := history_index m0 - 1\<rparr>"
    have j: "unat (history_index m1) = unat (history_index m) - 1"
      using False by (simp add: m1_def m0_def unat_sub_u32 word_le_nat_alt unat_eq_0 Suc_le_eq unat_gt_0)
    have m1: "history_ok m1" "past m1 = past m" "cwd m1 = cwd m" "halted m1 = halted m" "unmoved m m1" "screen_ok m1" "length (command m1) = 128"
      using ok j by (auto simp: m1_def m0_def history_ok_def past_def at_line_def editing_def word_le_nat_alt unmoved_def)
    define t where "t = (if unat (history_index m1) = 0 then [] else past m1 ! (unat (history_index m1) - 1))"
    have t: "(if history_index m1 \<noteq> 0 then recall m1 else Some []) = Some t" "length t \<le> 127" "CHR 0x00 \<notin> set t"
      using recall_past [OF m1(1)] by (auto simp: t_def unat_eq_0 unat_gt_0)
    obtain m' where m': "console_set_command t m1 = Some m'" "edited t [] m1 m'"
      using set_command_edited [OF m1(6,7) t(3,2)] by blast
    have "key_vertical False m = Some m'"
      unfolding key_vertical_def con_log_eq m0_def [symmetric] Let_def m1_def [symmetric]
      using nz t(1) m'(1) by simp
    moreover have "cwd m' = cwd m" "past m' = past m" "halted m' = halted m" "unmoved m m'"
      using m'(2) m1 line_only_fields [of m1 m'] past_line [of m1 m'] by (simp_all add: edited_def unmoved_def)
    moreover have "unat (history_index m) \<noteq> 0" using False by (simp add: unat_eq_0)
    ultimately show ?thesis
      using represents_edited [OF m'(2) m1(1)] m1(2) j by (auto simp: t_def numeral_2_eq_2)
  qed
qed

text \<open>
  Every pressed key other than Enter does to the console what the abstract editor does to the line;
  the working directory and the history stay.
\<close>

lemma edited_kept:
  assumes "edited l' r' m m'" "history_ok m"
  shows "cwd m' = cwd m" "past m' = past m" "halted m' = halted m" "unmoved m m'"
  using assms line_only_fields [of m m'] past_line [of m m'] by (simp_all add: edited_def unmoved_def)

definition key_step :: "('d, 'm) con \<Rightarrow> ('d, 'm) con c_result \<Rightarrow> string \<times> string \<times> nat \<Rightarrow> bool" where
  "key_step m k a \<longleftrightarrow> (\<exists>m'. k = Some m' \<and> cwd m' = cwd m \<and> past m' = past m \<and> halted m' = halted m
    \<and> unmoved m m' \<and> represents_line a m')"

lemma key_step_if:
  "(c \<Longrightarrow> key_step m k a) \<Longrightarrow> (\<not> c \<Longrightarrow> key_step m k' a') \<Longrightarrow> key_step m (if c then k else k') (if c then a else a')"
  by simp

lemma key_step_edited:
  assumes "\<exists>m'. k = Some m' \<and> edited l' r' m m'" "history_ok m"
  shows "key_step m k (l', r', unat (history_index m))"
  using assms represents_edited edited_kept unfolding key_step_def by metis

lemma key_step_idle: "represents_line a m \<Longrightarrow> key_step m (Some m) a"
  by (simp add: key_step_def unmoved_def)

lemma vertical_cases:
  "(if u \<or> d then key_vertical u m else k) = (if u then key_vertical True m else if d then key_vertical False m else k)"
  by (cases u) simp_all

lemma handle_key_cases:
  "handle_key hw e m =
     (if ev_key e = INPUT_KEY_ENTER then console_cursor (m\<lparr>cursor_visible := False\<rparr>) \<bind> console_command hw
      else if ev_key e = INPUT_KEY_BACKSPACE then key_backspace m
      else if ev_key e = INPUT_KEY_TAB then key_tab m
      else if ev_key e = INPUT_KEY_LEFT then key_left m
      else if ev_key e = INPUT_KEY_RIGHT then key_right m
      else if ev_key e = INPUT_KEY_UP then key_vertical True m
      else if ev_key e = INPUT_KEY_DOWN then key_vertical False m
      else if ctrl e INPUT_KEY_A then console_redraw_command (m\<lparr>command_cursor := 0\<rparr>)
      else if ctrl e INPUT_KEY_E then console_redraw_command (m\<lparr>command_cursor := command_length m\<rparr>)
      else if ctrl e INPUT_KEY_U then key_kill_line m
      else if ctrl e INPUT_KEY_K then key_kill_rest m
      else if is_printable (ev_character e) \<and> command_length m < COMMAND_MAX then
        insert_char (ev_character e) m \<bind> console_redraw_command
      else Some m)"
  unfolding handle_key_def ctrl_def vertical_cases by (rule refl)

lemma handle_key_refines:
  assumes "represents_line a m" "ev_pressed e \<noteq> 0" "ev_key e \<noteq> INPUT_KEY_ENTER"
  shows "key_step m (handle_key hw e m) (edit_spec (length (cwd m)) (past m) e a)"
proof -
  obtain l r where a: "a = (l, r, unat (history_index m))" and al: "at_line l r m" and h: "history_ok m"
    using assms(1) by (cases a) (auto simp: represents_line_def)
  have e: "editing l r m" using al by (simp add: at_line_def)
  have len: "command_length m < COMMAND_MAX \<longleftrightarrow> length l + length r < 127"
    using editing_bounds [OF e] by (simp add: COMMAND_MAX_def word_less_nat_alt)
  have home: "key_step m (console_redraw_command (m\<lparr>command_cursor := 0\<rparr>)) ([], l @ r, unat (history_index m))"
    using key_step_edited [OF move_cursor_edited [OF al, of "[]" "l @ r"] h] by simp
  have "command_length m = of_nat (length (l @ r))" using e by (simp add: editing_def)
  then have to_end: "key_step m (console_redraw_command (m\<lparr>command_cursor := command_length m\<rparr>)) (l @ r, [], unat (history_index m))"
    using key_step_edited [OF move_cursor_edited [OF al, of "l @ r" "[]"] h] by simp
  have typed: "c \<noteq> CHR 0x00" if "is_printable c" for c using that by (auto simp: is_printable_def)
  have up: "key_step m (key_vertical True m) (if past m = [] then (l, r, unat (history_index m)) else
      let j = min (unat (history_index m) + 1) (length (past m)) in (past m ! (j - 1), [], j))"
    using key_vertical_up [OF al h] by (simp add: key_step_def)
  have down: "key_step m (key_vertical False m) (if unat (history_index m) = 0 then (l, r, unat (history_index m)) else
      (if unat (history_index m) = 1 then [] else past m ! (unat (history_index m) - 2), [], unat (history_index m) - 1))"
    using key_vertical_down [OF al h] by (simp add: key_step_def)
  note keys = key_backspace_edited [OF al] key_tab_edited [OF al] key_left_edited [OF al] key_right_edited [OF al]
    key_kill_line_edited [OF al] key_kill_rest_edited [OF al] type_char_edited [OF al]
  show ?thesis
    unfolding handle_key_cases if_not_P [OF assms(3)] a edit_spec.simps if_not_P [OF assms(2)] len
    by (intro key_step_if up down home to_end; (rule key_step_edited [OF _ h], intro keys typed)?)
      (use assms(1) a in \<open>auto intro: key_step_idle\<close>)
qed

end
