(* ===== verification/Minos_Shell.thy ===== *)
theory Minos_Shell
  imports Minos_ConsoleEdit
begin

text \<open>
  The shell: how a line is split into words, what the commands that only print do, and the console as
  a whole.  The specification is a line editor with a history; \<^verbatim>\<open>console_poll\<close> refines it on
  every sequence of key events whose submitted lines name no command of the file system and none that
  stops the machine.
\<close>

section \<open>Words\<close>

text \<open>A text cut at every space; the pieces may be empty.\<close>

fun pieces :: "string \<Rightarrow> string list" where
  "pieces [] = [[]]"
| "pieces (c # cs) = (if c = CHR '' '' then [] # pieces cs else (c # hd (pieces cs)) # tl (pieces cs))"

definition words_spec :: "string \<Rightarrow> string list" where
  "words_spec line = filter (\<lambda>w. w \<noteq> []) (pieces line)"

lemma pieces_ne [simp]: "pieces line \<noteq> []"
  by (cases line) auto

lemma words_spec_space [simp]: "words_spec (CHR '' '' # cs) = words_spec cs"
  by (simp add: words_spec_def)

lemma words_spec_nil [simp]: "words_spec [] = []"
  by (simp add: words_spec_def)

lemma words_spec_dropWhile: "words_spec (dropWhile (\<lambda>c. c = CHR '' '') line) = words_spec line"
  by (induction line) auto

lemma pieces_word:
  "pieces line = takeWhile (\<lambda>c. c \<noteq> CHR '' '') line #
     (case dropWhile (\<lambda>c. c \<noteq> CHR '' '') line of [] \<Rightarrow> [] | _ # rest \<Rightarrow> pieces rest)"
  by (induction line) (auto split: list.split)

lemma words_spec_word:
  assumes "c \<noteq> CHR '' ''"
  shows "words_spec (c # cs) = takeWhile (\<lambda>c. c \<noteq> CHR '' '') (c # cs)
    # words_spec (drop 1 (dropWhile (\<lambda>c. c \<noteq> CHR '' '') (c # cs)))"
  using assms unfolding words_spec_def pieces_word [of "c # cs"]
  by (cases "dropWhile (\<lambda>c. c \<noteq> CHR '' '') cs") (simp_all del: dropWhile_eq_Nil_conv)

text \<open>
  C22: \<^verbatim>\<open>console_words\<close> computes the words of the line: the non-empty pieces between
  the spaces, of which it keeps the first \<open>n\<close> and drops the rest.
\<close>

theorem console_words_splits: "console_words line n = take n (words_spec line)"
proof (induction n arbitrary: line)
  case (Suc n)
  define l where "l = dropWhile (\<lambda>c. c = CHR '' '') line"
  have l: "words_spec line = words_spec l" by (simp add: l_def words_spec_dropWhile)
  show ?case
  proof (cases l)
    case Nil
    then show ?thesis using l by (simp add: l_def [symmetric])
  next
    case (Cons c cs)
    then have "c \<noteq> CHR '' ''" using hd_dropWhile [of "\<lambda>c. c = CHR '' ''" line] by (auto simp: l_def)
    then show ?thesis
      unfolding l Cons words_spec_word [OF \<open>c \<noteq> CHR '' ''\<close>] console_words.simps l_def [symmetric]
      using Suc.IH by (simp add: Cons)
  qed
qed simp

section \<open>Commands that only print\<close>

text \<open>A step of the console that changes only the picture and the place of the cursor, and ends.\<close>

definition prints :: "('d, 'm) con \<Rightarrow> ('d, 'm) con c_result \<Rightarrow> bool" where
  "prints m k \<longleftrightarrow> (\<exists>m'. k = Some m' \<and> shown m m')"

lemma prints_Some: "screen_ok m \<Longrightarrow> prints m (Some m)"
  by (auto simp: prints_def)

lemma prints_if: "(c \<Longrightarrow> prints m k) \<Longrightarrow> (\<not> c \<Longrightarrow> prints m k') \<Longrightarrow> prints m (if c then k else k')"
  by simp

lemma prints_bind:
  assumes "prints m k" "\<And>m'. shown m m' \<Longrightarrow> screen_ok m' \<Longrightarrow> prints m' (f m')"
  shows "prints m (k \<bind> f)"
  using assms shown_ok shown_trans unfolding prints_def by (metis bind.bind_lunit)

lemma prints_putc: "screen_ok m \<Longrightarrow> prints m (console_putc c m)"
  by (simp add: prints_def console_putc_shown)

lemma prints_puts: "screen_ok m \<Longrightarrow> prints m (console_puts t m)"
  by (simp add: prints_def console_puts_shown)

lemma prints_line: "screen_ok m \<Longrightarrow> prints m (console_line t m)"
  unfolding console_line_def by (intro prints_bind prints_puts prints_putc)

lemma prints_u64: "screen_ok m \<Longrightarrow> prints m (console_put_u64 v m)"
  unfolding console_put_u64_def by (intro prints_if prints_puts prints_putc)

lemmas prints_intros = prints_bind prints_puts prints_putc prints_line prints_u64 prints_if prints_Some

lemma prints_for_each:
  assumes "screen_ok m" "\<And>x m'. x \<in> set xs \<Longrightarrow> shown m m' \<Longrightarrow> screen_ok m' \<Longrightarrow> prints m' (f x m')"
  shows "prints m (for_each f xs m)"
  unfolding prints_def
  by (rule for_each_invariant [where I = "shown m"])
    (use assms shown_trans in \<open>fastforce simp: prints_def\<close>)+

lemma prints_clear:
  assumes "screen_ok m"
  shows "prints m (cmd_clear m)"
proof -
  obtain s where s: "fb_clear CONSOLE_BG (screen m) = Some s" "drawn (\<lambda>px py. True) (screen m) s"
    using fb_clear_at [of "screen m" CONSOLE_BG] assms unfolding screen_ok_def by blast
  let ?m = "m\<lparr>screen := s, cursor_column := 0, cursor_row := 0\<rparr>"
  have "fb_ok s" using s(2) assms drawn_geometry(1) by (auto simp: screen_ok_def)
  then have "screen_ok ?m" using assms by (simp add: screen_ok_def)
  then have "shown m ?m" by (rule shownI) simp
  then show ?thesis using s(1) by (simp add: prints_def cmd_clear_def on_screen_do_def)
qed

lemma shown_history:
  assumes "shown m m'" "history_ok m"
  shows "history m' = history m" "history_count m' = history_count m" "history_ok m'"
  using assms(1) by (rule shownE, use assms(2) in \<open>simp add: history_ok_def\<close>)+

lemma prints_history:
  assumes "screen_ok m" "history_ok m"
  shows "prints m (cmd_history m)"
  unfolding cmd_history_def
proof (rule prints_for_each [OF assms(1)])
  fix i m' assume i: "i \<in> set [0..<unat (history_count m)]" and m': "shown m m'" "screen_ok m'"
  have "i < length (history m')"
    using i shown_history [OF m'(1) assms(2)] assms(2) by (auto simp: history_ok_def)
  then show "prints m' (if length (history m') \<le> i then None
      else do { m1 \<leftarrow> console_put_u64 (of_nat (i + 1)) m'; m2 \<leftarrow> console_puts '' '' m1; console_line (history m2 ! i) m2 })"
    using m' by (auto intro!: prints_intros)
qed

lemma prints_echo:
  assumes "screen_ok m"
  shows "prints m (cmd_echo argv m)"
  unfolding cmd_echo_def
  by (intro prints_intros prints_for_each assms)

lemma prints_mem: "screen_ok m \<Longrightarrow> prints m (cmd_mem m)"
  unfolding cmd_mem_def by (intro prints_intros)

lemma prints_ticks: "screen_ok m \<Longrightarrow> prints m (cmd_ticks m)"
  unfolding cmd_ticks_def by (intro prints_intros)

lemma prints_uptime: "screen_ok m \<Longrightarrow> prints m (cmd_uptime m)"
  unfolding cmd_uptime_def by (intro prints_intros)

lemma prints_help: "screen_ok m \<Longrightarrow> prints m (cmd_help m)"
  unfolding cmd_help_def by (intro prints_intros)

lemma prints_about: "screen_ok m \<Longrightarrow> prints m (cmd_about m)"
  unfolding cmd_about_def by (intro prints_intros)

text \<open>The words that are commands of the file system or stop the machine.\<close>

definition acting :: "string list" where
  "acting = [''reboot'', ''shutdown'', ''ls'', ''cd'', ''mkdir'', ''rmdir'', ''touch'', ''rm'', ''cat'',
     ''write'', ''append'', ''cp'', ''mv'', ''tree'', ''find'']"

definition prints_only :: "string \<Rightarrow> bool" where
  "prints_only line \<longleftrightarrow> (case words_spec line of [] \<Rightarrow> True | w # _ \<Rightarrow> \<not> list_ex (console_streq w) acting)"

lemma run_command_shows:
  assumes "screen_ok m" "history_ok m" "\<not> list_ex (console_streq (argv ! 0)) acting"
  shows "prints m (run_command hw argv m)"
proof -
  have n: "\<not> console_streq (argv ! 0) w" if "w \<in> set acting" for w
    using assms(3) that by (auto simp: list_ex_iff)
  note n' = n [unfolded acting_def, simplified]
  show ?thesis
    unfolding run_command_def Let_def
    by (simp only: n' simp_thms if_False)
      (intro prints_if prints_line prints_help prints_clear prints_about prints_mem prints_ticks prints_uptime
        prints_echo prints_history assms(1,2))
qed

section \<open>Enter\<close>

text \<open>
  What the history keeps: nothing for the empty line, nothing for a line equal, up to case, to the
  \<^emph>\<open>oldest\<close> line kept, and the newest sixteen lines otherwise.
\<close>

definition add_line :: "string \<Rightarrow> string list \<Rightarrow> string list" where
  "add_line t H = (if t = [] \<or> H \<noteq> [] \<and> console_streq (last H) t then H else take 16 (t # H))"

lemma shift_history_eq:
  assumes "n \<le> length h" "0 < n"
  shows "shift_history n h = hd h # take (n - 1) h @ drop n h"
  using assms(2,1)
proof (induction n arbitrary: h rule: nat_induct_non_zero)
  case 1
  then show ?case by (cases h) (simp_all add: shift_history_def)
next
  case (Suc n)
  let ?h = "h[n := h ! (n - 1)]"
  have "rev [1..<Suc n] = n # rev [1..<n]" using Suc.hyps by simp
  then have "shift_history (Suc n) h = shift_history n ?h"
    by (simp add: shift_history_def)
  also have "\<dots> = hd ?h # take (n - 1) ?h @ drop n ?h" using Suc by simp
  also have "hd ?h = hd h" using Suc.hyps Suc.prems by (cases h; cases n) simp_all
  also have "take (n - 1) ?h @ drop n ?h = take n h @ drop (Suc n) h"
  proof -
    have "drop n ?h = h ! (n - 1) # drop (Suc n) h"
      using Suc.prems by (simp add: Cons_nth_drop_Suc [symmetric])
    moreover have "take n h = take (n - 1) h @ [h ! (n - 1)]"
      using Suc.hyps Suc.prems take_Suc_conv_app_nth [of "n - 1" h] by simp
    ultimately show ?thesis by simp
  qed
  finally show ?case by simp
qed

lemma history_oldest:
  assumes "history_ok m" "history_count m \<noteq> 0"
  shows "history m ! unat ((history_count m - 1) mod HISTORY_MAX) = last (past m)"
proof -
  define c where "c = unat (history_count m)"
  have len: "length (history m) = 16" "c \<le> 16" "0 < c"
    using assms by (simp_all add: history_ok_def c_def unat_gt_0)
  then have "unat ((history_count m - 1) mod HISTORY_MAX) = c - 1"
    by (simp add: HISTORY_MAX_def unat_mod unat_sub_u32 word_le_nat_alt c_def)
  then show ?thesis using len by (subst last_conv_nth) (auto simp: past_def c_def)
qed

lemma add_history_past:
  assumes "history_ok m" "length line \<le> 127" "CHR 0x00 \<notin> set line"
  shows "past (console_add_history line m) = add_line line (past m)"
    and "history_ok ((console_add_history line m)\<lparr>history_index := 0\<rparr>)"
proof -
  define c where "c = unat (history_count m)"
  have len: "length (history m) = 16" "c \<le> 16" using assms(1) by (simp_all add: history_ok_def c_def)
  have p: "past m = take c (history m)" by (simp add: past_def c_def)
  note old = history_oldest [OF assms(1)]
  have ne: "past m \<noteq> [] \<longleftrightarrow> history_count m \<noteq> 0" using len by (auto simp: p c_def unat_eq_0)
  have goal: "past m' = add_line line (past m) \<and> history_ok (m'\<lparr>history_index := 0\<rparr>)"
    if m': "m' = console_add_history line m" for m'
  proof (cases "line = [] \<or> history_count m \<noteq> 0 \<and> console_streq (last (past m)) line")
    case True
    then have "m' = m" "add_line line (past m) = past m"
      unfolding m' console_add_history_def add_line_def ne using old by auto
    then show ?thesis using assms(1) by (simp add: history_ok_def)
  next
    case False
    define n where "n = (if history_count m < HISTORY_MAX then history_count m + 1 else history_count m)"
    have n: "unat n = min (c + 1) 16" "0 < unat n"
      using len(2) by (auto simp: n_def c_def HISTORY_MAX_def word_less_nat_alt unat_word_ariths)
    define h where "h = line # take (unat n - 1) (history m) @ drop (unat n) (history m)"
    have "(shift_history (unat n) (history m))[0 := line] = h"
      using shift_history_eq [of "unat n" "history m"] n len by (simp add: h_def)
    then have eq: "m' = m\<lparr>history_count := n, history := h\<rparr>"
      using False old unfolding m' console_add_history_def n_def [symmetric] Let_def by auto
    have "set h \<subseteq> insert line (set (history m))" "length h = 16"
      using n len by (auto simp: h_def dest: in_set_takeD in_set_dropD)
    then have "history_ok (m'\<lparr>history_index := 0\<rparr>)"
      using assms n len by (auto simp: eq history_ok_def)
    moreover have "past m' = line # take (unat n - 1) (history m)"
      using n len by (auto simp: eq past_def h_def take_Cons')
    moreover have "add_line line (past m) = take 16 (line # past m)"
      using False ne by (auto simp: add_line_def)
    moreover have "take 16 (line # past m) = line # take (unat n - 1) (history m)"
      using n(1) len(2) by (simp add: p min_def)
    ultimately show ?thesis by simp
  qed
  then show "past (console_add_history line m) = add_line line (past m)"
    and "history_ok ((console_add_history line m)\<lparr>history_index := 0\<rparr>)"
    by blast+
qed

lemma add_history_fields [simp]:
  "cwd (console_add_history line m) = cwd m" "halted (console_add_history line m) = halted m"
  "unmoved m (console_add_history line m)" "command (console_add_history line m) = command m"
  "klog (console_add_history line m) = klog m" "screen_ok (console_add_history line m) = screen_ok m"
  "past (m\<lparr>history_index := i\<rparr>) = past m"
  by (simp_all add: console_add_history_def screen_ok_def past_def unmoved_def Let_def)

lemma shown_fields:
  assumes "shown m m'"
  shows "cwd m' = cwd m" "past m' = past m" "halted m' = halted m" "unmoved m m'" "command m' = command m"
    "history_ok m' = history_ok m" "klog m' = klog m" "history_index m' = history_index m"
    "columns m' = columns m" "rows m' = rows m"
  using assms by (rule shownE, simp add: past_def history_ok_def unmoved_def)+

lemma console_cursor_draws:
  assumes "screen_ok m"
  shows "\<exists>s. console_cursor m = Some (m\<lparr>screen := s\<rparr>) \<and> screen_ok (m\<lparr>screen := s\<rparr>)"
proof -
  have "unat (cursor_column m) \<le> max (unat (columns m)) 262" "unat (columns m) * 9 + 16 < 2 ^ 31"
    using assms by (simp_all add: screen_ok_def)
  then have "unat (CONSOLE_MARGIN + cursor_column m * CONSOLE_CHAR_WIDTH) + 8 < 2 ^ 32"
    by (simp add: console_sizes unat_word_ariths max_def split: if_splits)
  then have nw: "no_wrap (Fill (CONSOLE_MARGIN + cursor_column m * CONSOLE_CHAR_WIDTH) (text_y m) 8 16
      (if cursor_visible m then CONSOLE_CURSOR else CONSOLE_BG))"
    using unat_text_y(2) [OF assms] by simp
  obtain s where s: "console_cursor m = Some (m\<lparr>screen := s\<rparr>)" "fb_ok s"
    using shown_draw [OF assms nw] by (auto simp: console_cursor_def)
  then show ?thesis using assms by (auto simp: screen_ok_def)
qed

text \<open>The prompt: a fresh, empty line.\<close>

lemma console_prompt_fresh:
  assumes "screen_ok m" "length (command m) = 128"
  shows "\<exists>m'. console_prompt m = Some m' \<and> at_line [] [] m' \<and> cwd m' = cwd m \<and> past m' = past m \<and> halted m' = halted m
    \<and> unmoved m m' \<and> klog m' = klog m \<and> history_ok m' = history_ok m \<and> history_index m' = history_index m
    \<and> columns m' = columns m \<and> rows m' = rows m"
proof -
  have "prints m (console_puts ''MinOS:'' m \<bind> (\<lambda>m1. console_puts (cwd m1) m1 \<bind> console_puts ''> ''))"
    using assms(1) by (intro prints_intros)
  then obtain m1 m2 m3 where m: "console_puts ''MinOS:'' m = Some m1" "console_puts (cwd m1) m1 = Some m2"
      "console_puts ''> '' m2 = Some m3" "shown m m3"
    by (auto simp: prints_def split: Option.bind_splits)
  obtain x xs where c: "command m3 = x # xs" "length xs = 127"
    using assms(2) unfolding shown_fields(5) [OF m(4), symmetric] by (cases "command m3") auto
  let ?m = "m3\<lparr>cursor_column := console_prompt_columns m3, command_length := 0, command_cursor := 0, command := CHR 0x00 # xs\<rparr>"
  have eq: "console_prompt m = Some ?m"
    using m c by (simp add: console_prompt_def set_char_def)
  have ok: "screen_ok m3" using m(4) by simp
  then have "length (cwd m3) \<le> 127" by (simp add: screen_ok_def)
  then have "unat (console_prompt_columns m3) \<le> 262"
    by (simp add: console_prompt_columns_def unat_word_ariths unat_of_nat_small)
  then have "screen_ok ?m" using ok by (simp add: screen_ok_def)
  then have "at_line [] [] ?m" using c by (simp add: at_line_def editing_def console_prompt_columns_def)
  then show ?thesis
    using eq shown_fields [OF m(4)] by (simp add: past_def history_ok_def unmoved_def)
qed

text \<open>A submitted line: it is logged, added to the history and run; then comes a new prompt.\<close>

lemma console_command_line:
  assumes "editing l r m" "screen_ok m" "history_ok m" "\<not> halted m"
  shows "\<exists>m4. console_command hw m = do {
      m5 \<leftarrow> (if console_words (l @ r) 8 = [] then Some m4 else run_command hw (console_words (l @ r) 8) m4);
      (if halted m5 then Some m5 else console_prompt m5) }
    \<and> history_ok m4 \<and> past m4 = add_line (l @ r) (past m) \<and> screen_ok m4 \<and> \<not> halted m4 \<and> cwd m4 = cwd m \<and> unmoved m m4
    \<and> command m4 = command m \<and> history_index m4 = 0 \<and> klog m4 = klog m @ ''[MinOS Console] command: '' @ l @ r @ [CHR 0x0A]"
proof -
  note b = editing_bounds [OF assms(1)]
  obtain rest where cmd: "command m = l @ r @ CHR 0x00 # rest" "length l + length r + length rest = 127"
    using assms(1) by (rule editing_command)
  have "set_char (unat (command_length m)) (CHR 0x00) m = Some m"
    using b cmd by (simp add: set_char_def list_update_append)
  moreover obtain m2 where m2: "console_putc (CHR 0x0A) m = Some m2" "shown m m2"
    using prints_putc [OF assms(2)] by (auto simp: prints_def)
  moreover have "cstr (command m2) = Some (l @ r)"
    using editing_cstr [OF assms(1)] shown_fields(5) [OF m2(2)] by simp
  moreover define m3 where "m3 = con_log (''[MinOS Console] command: '' @ l @ r @ [CHR 0x0A]) m2"
  moreover define m4 where "m4 = (console_add_history (l @ r) m3)\<lparr>history_index := 0\<rparr>"
  ultimately have eq: "console_command hw m = do {
      m5 \<leftarrow> (if console_words (l @ r) 8 = [] then Some m4 else run_command hw (console_words (l @ r) 8) m4);
      (if halted m5 then Some m5 else console_prompt m5) }"
    by (simp add: console_command_def Let_def)
  have m3: "history_ok m3" "past m3 = past m" "screen_ok m3" "halted m3 = halted m" "cwd m3 = cwd m" "unmoved m m3"
      "command m3 = command m" "klog m3 = klog m @ ''[MinOS Console] command: '' @ l @ r @ [CHR 0x0A]"
    using shown_fields [OF m2(2)] assms(3) m2(2) by (simp_all add: m3_def con_log_eq history_ok_def past_def unmoved_def)
  have "length (l @ r) \<le> 127" "CHR 0x00 \<notin> set (l @ r)" using b(1) assms(1) by (simp_all add: editing_def)
  note h = add_history_past [OF m3(1) this]
  have m4: "history_ok m4" "past m4 = add_line (l @ r) (past m)" "screen_ok m4" "\<not> halted m4" "cwd m4 = cwd m" "unmoved m m4"
      "command m4 = command m" "history_index m4 = 0" "klog m4 = klog m @ ''[MinOS Console] command: '' @ l @ r @ [CHR 0x0A]"
    using h m3 assms(4) add_history_fields(3) [of m3 "l @ r"] by (simp_all add: m4_def unmoved_def)
  show ?thesis by (intro exI [of _ m4] conjI eq m4)
qed

lemma console_command_fresh:
  assumes "editing l r m" "screen_ok m" "history_ok m" "\<not> halted m" "prints_only (l @ r)"
  shows "\<exists>m'. console_command hw m = Some m' \<and> at_line [] [] m' \<and> history_ok m' \<and> history_index m' = 0 \<and> \<not> halted m'
    \<and> cwd m' = cwd m \<and> unmoved m m' \<and> past m' = add_line (l @ r) (past m)
    \<and> klog m' = klog m @ ''[MinOS Console] command: '' @ l @ r @ [CHR 0x0A]"
proof -
  obtain m4 where eq: "console_command hw m = do {
      m5 \<leftarrow> (if console_words (l @ r) 8 = [] then Some m4 else run_command hw (console_words (l @ r) 8) m4);
      (if halted m5 then Some m5 else console_prompt m5) }"
    and m4: "history_ok m4" "past m4 = add_line (l @ r) (past m)" "screen_ok m4" "\<not> halted m4" "cwd m4 = cwd m" "unmoved m m4"
      "command m4 = command m" "history_index m4 = 0" "klog m4 = klog m @ ''[MinOS Console] command: '' @ l @ r @ [CHR 0x0A]"
    using console_command_line [OF assms(1-4), of hw] by blast
  have "prints m4 (if console_words (l @ r) 8 = [] then Some m4 else run_command hw (console_words (l @ r) 8) m4)"
    using m4(1,3) assms(5) unfolding console_words_splits prints_only_def
    by (cases "words_spec (l @ r)") (auto intro!: prints_Some run_command_shows)
  then obtain m5 where m5: "(if console_words (l @ r) 8 = [] then Some m4 else run_command hw (console_words (l @ r) 8) m4) = Some m5"
      "shown m4 m5" by (auto simp: prints_def)
  note f = shown_fields [OF m5(2)]
  have "length (command m5) = 128" using f(5) m4(7) assms(1) by (simp add: editing_def)
  then obtain m' where "console_prompt m5 = Some m'" "at_line [] [] m'" "cwd m' = cwd m5" "past m' = past m5" "halted m' = halted m5"
      "unmoved m5 m'" "klog m' = klog m5" "history_ok m' = history_ok m5" "history_index m' = history_index m5"
    using console_prompt_fresh [OF shown_ok [OF m5(2)]] by blast
  then show ?thesis unfolding eq m5(1) using f m4 by (simp add: unmoved_def)
qed

section \<open>The console refines the abstract shell\<close>

text \<open>The abstract shell: the edited line with the place in the history, and the history.\<close>

type_synonym shell = "(string \<times> string \<times> nat) \<times> string list"

definition enters :: "input_event \<Rightarrow> bool" where
  "enters e \<longleftrightarrow> ev_pressed e \<noteq> 0 \<and> ev_key e = INPUT_KEY_ENTER"

fun shell_line :: "shell \<Rightarrow> string" where
  "shell_line ((l, r, i), H) = l @ r"

definition shell_step :: "nat \<Rightarrow> input_event \<Rightarrow> shell \<Rightarrow> shell" where
  "shell_step n e s =
     (if enters e then (([], [], 0), add_line (shell_line s) (snd s)) else (edit_spec n (snd s) e (fst s), snd s))"

text \<open>Every line submitted on the way only prints.\<close>

fun printing :: "nat \<Rightarrow> input_event list \<Rightarrow> shell \<Rightarrow> bool" where
  "printing n [] s \<longleftrightarrow> True"
| "printing n (e # es) s \<longleftrightarrow> (enters e \<longrightarrow> prints_only (shell_line s)) \<and> printing n es (shell_step n e s)"

definition console_shell :: "shell \<Rightarrow> ('d, 'm) con \<Rightarrow> bool" where
  "console_shell s m \<longleftrightarrow> represents_line (fst s) m \<and> past m = snd s \<and> \<not> halted m"

lemma represents_line_tick [simp]:
  "represents_line a (m\<lparr>cursor_visible := v\<rparr>) = represents_line a m" "past (m\<lparr>cursor_visible := v\<rparr>) = past m"
  "represents_line a (m\<lparr>cursor_tick := k\<rparr>) = represents_line a m" "past (m\<lparr>cursor_tick := k\<rparr>) = past m"
  "represents_line a (m\<lparr>keys := q\<rparr>) = represents_line a m" "past (m\<lparr>keys := q\<rparr>) = past m"
  by (cases a; simp add: represents_line_def at_line_def editing_def history_ok_def past_def)+

lemma console_cursor_shell:
  assumes "console_shell s m"
  shows "\<exists>m'. console_cursor m = Some m' \<and> console_shell s m' \<and> unmoved m m' \<and> cwd m' = cwd m
    \<and> columns m' = columns m \<and> rows m' = rows m"
proof -
  obtain l r i where s: "fst s = (l, r, i)" by (cases "fst s")
  have "screen_ok m" using assms s by (simp add: console_shell_def represents_line_def at_line_def)
  then obtain sc where "console_cursor m = Some (m\<lparr>screen := sc\<rparr>)" "screen_ok (m\<lparr>screen := sc\<rparr>)"
    using console_cursor_draws by blast
  then show ?thesis
    using assms s by (auto simp: console_shell_def represents_line_def at_line_def editing_def history_ok_def past_def unmoved_def)
qed

lemma console_enter_shell:
  assumes "console_shell s m" "prints_only (shell_line s)" "ev_key e = INPUT_KEY_ENTER"
  shows "\<exists>m'. handle_key hw e m = Some m' \<and> console_shell (([], [], 0), add_line (shell_line s) (snd s)) m'
    \<and> unmoved m m' \<and> cwd m' = cwd m"
proof -
  obtain l r i H where s: "s = ((l, r, i), H)" by (cases s) auto
  have "console_shell s (m\<lparr>cursor_visible := False\<rparr>)" using assms(1) by (simp add: console_shell_def)
  then obtain m1 where m1: "console_cursor (m\<lparr>cursor_visible := False\<rparr>) = Some m1" "console_shell s m1"
      "unmoved m m1" "cwd m1 = cwd m"
    using console_cursor_shell by (fastforce simp: unmoved_def)
  then have "editing l r m1" "screen_ok m1" "history_ok m1" "\<not> halted m1" "past m1 = H"
    by (simp_all add: s console_shell_def represents_line_def at_line_def)
  then show ?thesis
    using console_command_fresh [of l r m1 hw] m1 assms(2,3)
    by (auto simp: s handle_key_def console_shell_def represents_line_def unmoved_def)
qed

lemma console_event_shell:
  assumes "console_shell s m" "enters e \<longrightarrow> prints_only (shell_line s)"
  shows "\<exists>m'. console_event hw now e m = Some m' \<and> console_shell (shell_step (length (cwd m)) e s) m'
    \<and> unmoved m m' \<and> cwd m' = cwd m"
proof (cases "ev_pressed e = 0")
  case True
  have "edit_spec n H e a = a" for n H a using True by (cases a) simp
  then show ?thesis using assms(1) True by (simp add: console_event_def shell_step_def enters_def unmoved_def)
next
  case False
  have "\<exists>m'. handle_key hw e m = Some m' \<and> console_shell (shell_step (length (cwd m)) e s) m' \<and> unmoved m m' \<and> cwd m' = cwd m"
  proof (cases "ev_key e = INPUT_KEY_ENTER")
    case True
    then show ?thesis
      using console_enter_shell [OF assms(1)] assms(2) False by (simp add: shell_step_def enters_def)
  next
    case e: False
    have "represents_line (fst s) m" using assms(1) by (simp add: console_shell_def)
    then show ?thesis
      using handle_key_refines [OF _ False e, of "fst s" m hw] assms(1) e
      by (auto simp: key_step_def console_shell_def shell_step_def enters_def)
  qed
  then show ?thesis
    using False by (auto simp: console_event_def console_shell_def unmoved_def)
qed

text \<open>What draining the queue leaves: the directory, the devices, the clock, a valid queue and the rest of the machine.\<close>

definition elsewhere :: "('d, 'm) con \<Rightarrow> ('d, 'm) con \<Rightarrow> bool" where
  "elsewhere m m' \<longleftrightarrow> cwd m' = cwd m \<and> dev m' = dev m \<and> tick_rate m' = tick_rate m
     \<and> console_machine.more m' = console_machine.more m \<and> (input_inv (keys m) \<longrightarrow> input_inv (keys m'))"

lemma console_events_shell:
  assumes "console_shell s m" "input_inv (keys m)" "printing (length (cwd m)) (input_pending (keys m)) s"
  shows "\<exists>m'. console_events hw now m = Some m' \<and> input_pending (keys m') = [] \<and> elsewhere m m'
    \<and> console_shell (fold (shell_step (length (cwd m))) (input_pending (keys m)) s) m'"
  using assms
proof (induction "input_pending (keys m)" arbitrary: m s)
  case Nil
  then have "read_index (keys m) = write_index (keys m)"
    using input_count_zero_iff [of "keys m"] input_pending_length [of "keys m"] by simp
  then have "console_events hw now m = Some m" by (subst console_events.simps) (simp add: input_pop_def)
  then show ?case using Nil by (simp add: elsewhere_def)
next
  case (Cons e es)
  let ?q = "(keys m)\<lparr>read_index := (read_index (keys m) + 1) mod 64\<rparr>"
  have ne: "read_index (keys m) \<noteq> write_index (keys m)"
    using input_count_zero_iff [of "keys m"] input_pending_length [of "keys m"] Cons.hyps(2) Cons.prems(2) by auto
  have q: "queue (keys m) ! unat (read_index (keys m)) = e" "input_pending ?q = es"
    using input_pending_pop [OF Cons.prems(2) ne] Cons.hyps(2) by simp_all
  have inv: "input_inv ?q"
    using input_inv_pop [OF Cons.prems(2), of "Some no_event"] ne by (simp add: input_pop_def)
  have ok: "enters e \<longrightarrow> prints_only (shell_line s)" "printing (length (cwd m)) es (shell_step (length (cwd m)) e s)"
    using Cons.prems(3) Cons.hyps(2) [symmetric] by simp_all
  have "console_shell s (m\<lparr>keys := ?q\<rparr>)" using Cons.prems(1) by (simp add: console_shell_def)
  then obtain m1 where m1: "console_event hw now e (m\<lparr>keys := ?q\<rparr>) = Some m1" "keys m1 = ?q" "elsewhere m m1"
      "console_shell (shell_step (length (cwd m)) e s) m1"
    using console_event_shell [OF _ ok(1)] Cons.prems(2) inv by (fastforce simp: unmoved_def elsewhere_def)
  have "\<exists>m'. console_events hw now m1 = Some m' \<and> input_pending (keys m') = [] \<and> elsewhere m1 m'
    \<and> console_shell (fold (shell_step (length (cwd m1))) (input_pending (keys m1)) (shell_step (length (cwd m)) e s)) m'"
    by (rule Cons.hyps(1)) (use m1 q inv ok in \<open>simp_all add: elsewhere_def\<close>)
  moreover have "console_events hw now m = console_events hw now m1"
    using ne q(1) m1(1,4) by (subst console_events.simps) (simp add: input_pop_def console_shell_def)
  ultimately show ?case using m1(2,3) q(2) Cons.hyps(2) [symmetric] by (auto simp: elsewhere_def)
qed

lemma console_poll_shell:
  assumes "console_shell s m" "input_inv (keys m)" "printing (length (cwd m)) (input_pending (keys m)) s"
  shows "\<exists>m'. console_poll hw m = Some m' \<and> input_pending (keys m') = [] \<and> elsewhere m m'
    \<and> console_shell (fold (shell_step (length (cwd m))) (input_pending (keys m)) s) m'"
proof -
  obtain m1 where m1: "console_events hw (tick_now m) m = Some m1" "input_pending (keys m1) = []" "elsewhere m m1"
      "console_shell (fold (shell_step (length (cwd m))) (input_pending (keys m)) s) m1"
    using console_events_shell [OF assms] by blast
  let ?m = "m1\<lparr>cursor_visible := \<not> cursor_visible m1, cursor_tick := tick_now m\<rparr>"
  have "console_shell (fold (shell_step (length (cwd m))) (input_pending (keys m)) s) ?m"
    using m1(4) by (simp add: console_shell_def)
  then show ?thesis
    using console_cursor_shell m1 by (fastforce simp: console_poll_def Let_def console_shell_def elsewhere_def unmoved_def)
qed

text \<open>
  C9: the console refines the abstract shell.  When the submitted lines only print, \<^verbatim>\<open>console_poll\<close>
  ends without an access outside its arrays, the event queue is empty, and the command buffer with its
  cursor, the history and the place in it are what the abstract shell computes from the pending events:
  editing keys, tab stops, history recall and Enter.
\<close>

theorem console_poll_refines:
  assumes "console_shell s m" "input_inv (keys m)" "printing (length (cwd m)) (input_pending (keys m)) s"
  shows "\<exists>m'. console_poll hw m = Some m' \<and> input_pending (keys m') = [] \<and> elsewhere m m'
    \<and> console_shell (fold (shell_step (length (cwd m))) (input_pending (keys m)) s) m'"
  using console_poll_shell [OF assms] .

text \<open>A small console with an empty line, and the keys \<^verbatim>\<open>h\<close>, \<^verbatim>\<open>i\<close>, left, \<^verbatim>\<open>!\<close> and Enter waiting.\<close>

definition press :: "input_key \<Rightarrow> char \<Rightarrow> input_event" where
  "press k c = \<lparr>ev_key = k, ev_pressed = 1, ev_modifiers = 0, ev_character = c\<rparr>"

definition sample_screen :: fb_state where
  "sample_screen = \<lparr>g_fb = True, pixels = replicate 10000 0, g_width = 100, g_height = 100, g_pitch_pixels = 100, g_is_bgr = 0\<rparr>"

definition sample_keys :: "input_event list" where
  "sample_keys = [press INPUT_KEY_H (CHR ''h''), press INPUT_KEY_I (CHR ''i''), press INPUT_KEY_LEFT (CHR 0x00),
     press INPUT_KEY_1 (CHR ''!''), press INPUT_KEY_ENTER (CHR 0x0A)]"

definition sample_at :: "'d \<Rightarrow> input_state \<Rightarrow> 'm \<Rightarrow> ('d, 'm) con" where
  "sample_at d q x = \<lparr>dev = d, trace = [], klog = [], serial_initialized = True, present = False, sector_count = 0,
     records = [], contents = [], generation = 0, disk_backed = False, screen = sample_screen,
     frames = \<lparr>bitmap = (\<lambda>_. 0), total_frames = 0, free_frames = 0, reserved_bytes_total = 0, pmm_log = []\<rparr>,
     keys = q, tick_now = 0, tick_rate = 100, columns = 9, rows = 4, cursor_column = 9, cursor_row = 0,
     command = replicate 128 (CHR 0x00), command_length = 0, command_cursor = 0, cursor_tick = 0, cursor_visible = True,
     cwd = ''/'', history = replicate 16 [], history_count = 0, history_index = 0, halted = False, \<dots> = x\<rparr>"

lemma sample_at_shell: "console_shell (([], [], 0), []) (sample_at d q x)"
proof -
  have "fb_ok sample_screen" by (simp add: fb_ok_def sample_screen_def)
  moreover have "replicate 128 (CHR 0x00) = CHR 0x00 # replicate 127 (CHR 0x00)" by (simp add: numeral_eq_Suc)
  ultimately show ?thesis
    by (simp add: console_shell_def represents_line_def at_line_def editing_def screen_ok_def history_ok_def past_def sample_at_def)
qed

definition sample_console :: "unit console_machine" where
  "sample_console = sample_at () \<lparr>queue = sample_keys @ replicate 59 no_event, read_index = 0, write_index = 5\<rparr> ()"

lemmas sample_console_defs = sample_console_def sample_at_def

lemma sample_pending: "input_pending (keys sample_console) = sample_keys"
  by (simp add: sample_console_defs input_pending_def input_count_def sample_keys_def upt_rec)

lemma sample_shell: "console_shell (([], [], 0), []) sample_console" "input_inv (keys sample_console)"
  by (simp_all add: sample_console_def sample_at_shell) (simp add: sample_at_def input_inv_def INPUT_QUEUE_SIZE_def sample_keys_def)

lemma sample_steps:
  "fold (shell_step 1) sample_keys (([], [], 0), []) = (([], [], 0), [''h!i''])"
  "printing 1 sample_keys (([], [], 0), [])"
  by (simp_all add: sample_keys_def shell_step_def enters_def press_def ctrl_def is_printable_def add_line_def
      prints_only_def words_spec_def acting_def lower_def Let_def)

theorem console_poll_refines_witness:
  "\<exists>m'. console_poll \<lparr>hw_inb = (\<lambda>p d. (0, d)), hw_outb = (\<lambda>p v d. d), hw_inw = (\<lambda>p d. (0, d)), hw_outw = (\<lambda>p v d. d)\<rparr>
      sample_console = Some m' \<and> input_pending (keys m') = [] \<and> past m' = [''h!i''] \<and> cstr (command m') = Some []"
proof -
  have "cwd sample_console = ''/''" by (simp add: sample_console_defs)
  then have "\<exists>m'. console_poll \<lparr>hw_inb = (\<lambda>p d. (0, d)), hw_outb = (\<lambda>p v d. d), hw_inw = (\<lambda>p d. (0, d)), hw_outw = (\<lambda>p v d. d)\<rparr>
      sample_console = Some m' \<and> input_pending (keys m') = [] \<and> console_shell (([], [], 0), [''h!i'']) m'"
    using console_poll_refines [OF sample_shell] sample_pending sample_steps by auto
  then show ?thesis
    using editing_cstr by (fastforce simp: console_shell_def represents_line_def at_line_def)
qed

section \<open>The console at boot\<close>

lemma cells_bounds:
  assumes "unat w < 2 ^ 31" "0 < unat k" "unat k < 100"
  shows "0 < console_cells w k" "unat (console_cells w k) * unat k + 16 < 2 ^ 31"
proof -
  show "0 < console_cells w k" by (simp add: console_cells_def Let_def word_gt_0)
  have "unat ((w - 16) div k) * unat k \<le> unat w - 16" if "16 < w"
    using that by (simp add: unat_div unat_sub_u32 word_less_nat_alt word_le_nat_alt)
  then show "unat (console_cells w k) * unat k + 16 < 2 ^ 31"
    using assms by (auto simp: console_cells_def Let_def CONSOLE_MARGIN_def word_less_nat_alt)
qed



end
