(* ===== verification/Minos_Files.thy ===== *)
theory Minos_Files
  imports Minos_Shell
begin

text \<open>
  The shell on the file system.  The specification of \<open>Minos_Shell\<close>, a line editor with a history, is
  extended by a working directory and a tree of files; the commands \<^verbatim>\<open>cd\<close>, \<^verbatim>\<open>mkdir\<close>, \<^verbatim>\<open>rmdir\<close>, \<^verbatim>\<open>touch\<close>, \<^verbatim>\<open>rm\<close>,
  \<^verbatim>\<open>write\<close>, \<^verbatim>\<open>append\<close>, \<^verbatim>\<open>cp\<close> and \<^verbatim>\<open>mv\<close> of a submitted line change them.
\<close>

section \<open>Paths from a working directory\<close>

text \<open>The names a path leads to from the directory \<open>ws\<close>; too long or too deep paths lead nowhere.\<close>

definition resolve_at :: "string list \<Rightarrow> string \<Rightarrow> string list option" where
  "resolve_at ws p =
     (if p = [] then None
      else if is_absolute p then resolve [] (split_slash (tl p))
      else if length (render ws) + 1 + length p > VFS_PATH_MAX then None
      else resolve ws (split_slash p))"

definition dir_ok :: "string list \<Rightarrow> bool" where
  "dir_ok ws \<longleftrightarrow> proper_path ws \<and> length (render ws) \<le> VFS_PATH_MAX"

lemma split_slash_append: "split_slash (a @ CHR ''/'' # b) = split_slash a @ split_slash b"
  by (induction a) (auto simp: hd_append tl_append split: list.split)

lemma resolve_append: "resolve ps (as @ bs) = resolve ps as \<bind> (\<lambda>qs. resolve qs bs)"
  by (induction as arbitrary: ps) auto

lemma resolve_render: "proper_path ws \<Longrightarrow> resolve [] (split_slash (tl (render ws))) = Some ws"
  using normalize_joined [of ws "[]"] by (simp add: normalize_loop_resolve [symmetric] proper_path_def tl_render proper_nonempty)

lemma normalize_at:
  assumes ws: "dir_ok ws" and p: "good_path p"
  shows "case resolve_at ws p of
      None \<Rightarrow> \<exists>out. vfs_normalize (Some (render ws)) (Some p) = Some (-1, out)
    | Some ps \<Rightarrow> dir_ok ps \<and> vfs_normalize (Some (render ws)) (Some p) = Some (0, render ps)"
proof -
  have ne: "[] \<notin> set ws" using ws by (simp add: dir_ok_def proper_path_def proper_nonempty)
  note abs = absolute_render [OF ne]
  have root: "normalize_root (render ws) = Some (0, render ws)"
    using abs normalize_abs_render [of ws] ws by (simp add: normalize_root_def dir_ok_def)
  consider "p = []" | "p \<noteq> []" "is_absolute p" | "p \<noteq> []" "\<not> is_absolute p" "length (render ws) + 1 + length p > VFS_PATH_MAX"
    | "p \<noteq> []" "\<not> is_absolute p" "length (render ws) + 1 + length p \<le> VFS_PATH_MAX" by linarith
  then show ?thesis
  proof cases
    case 1
    then show ?thesis by (simp add: resolve_at_def vfs_normalize_def)
  next
    case 2
    then show ?thesis
      using normalize_abs_parts [OF 2(1) p] by (auto simp: resolve_at_def vfs_normalize_def dir_ok_def split: option.splits)
  next
    case 3
    then show ?thesis using root by (simp add: resolve_at_def vfs_normalize_def normalize_join_def)
  next
    case 4
    let ?j = "(if length (render ws) > 1 then render ws @ ''/'' else render ws) @ p"
    have "CHR 0x00 \<notin> set (render ws)"
      using good_render(1) [of ws] ws by (simp add: dir_ok_def good_path_def)
    then have j: "?j \<noteq> []" "good_path ?j" using 4 p abs by (auto simp: good_path_def)
    have "resolve [] (split_slash (tl ?j)) = resolve ws (split_slash p)"
    proof (cases "ws = []")
      case True
      then show ?thesis by (simp add: render_def)
    next
      case False
      then have "1 < length (render ws)" using length_render [OF ne] ne by (cases ws; cases "hd ws") auto
      moreover from this have "tl (render ws @ ''/'' @ p) = tl (render ws) @ CHR ''/'' # p" by (cases "render ws") auto
      ultimately show ?thesis
        using resolve_render [of ws] ws by (simp add: split_slash_append resolve_append dir_ok_def)
    qed
    then show ?thesis
      using normalize_abs_parts [OF j] 4 root
      by (auto simp: resolve_at_def vfs_normalize_def normalize_join_def dir_ok_def Let_def split: option.splits)
  qed
qed

section \<open>The machine and the tree\<close>

text \<open>The buffers of the files, and sizes that fit into them.\<close>

definition stores :: "u8 list list \<Rightarrow> bool" where
  "stores cs \<longleftrightarrow> length cs = 64 \<and> (\<forall>c \<in> set cs. length c = 4096)"

definition small_files :: "tree \<Rightarrow> bool" where
  "small_files T \<longleftrightarrow> (\<forall>ps ty sz. T ps = Some (ty, sz) \<longrightarrow> sz \<le> VFS_CONTENT_MAX)"

definition fs_at :: "string list \<Rightarrow> tree \<Rightarrow> ('d, 'm) con \<Rightarrow> bool" where
  "fs_at ws T m \<longleftrightarrow> \<not> disk_backed m \<and> represents (records m) T \<and> stores (contents m) \<and> small_files T
     \<and> dir_ok ws \<and> cwd m = render ws"

text \<open>What a command may change: the picture, the log, the files and the working directory.\<close>

definition acted :: "('d, 'm) con \<Rightarrow> ('d, 'm) con \<Rightarrow> bool" where
  "acted m m' \<longleftrightarrow> screen_ok m' \<and> (\<exists>s c r k rs cs w.
     m' = m\<lparr>screen := s, cursor_column := c, cursor_row := r, klog := k, records := rs, contents := cs, cwd := w\<rparr>)"

lemma actedI:
  assumes "screen_ok m'"
    "m' = m\<lparr>screen := s, cursor_column := c, cursor_row := r, klog := k, records := rs, contents := cs, cwd := w\<rparr>"
  shows "acted m m'"
  unfolding acted_def using assms by blast

lemma actedE:
  assumes "acted m m'"
  obtains s c r k rs cs w where "screen_ok m'"
    "m' = m\<lparr>screen := s, cursor_column := c, cursor_row := r, klog := k, records := rs, contents := cs, cwd := w\<rparr>"
  using assms unfolding acted_def by blast

lemma acted_ok: "acted m m' \<Longrightarrow> screen_ok m'"
  by (simp add: acted_def)

lemma acted_trans:
  assumes "acted m m'" "acted m' m''"
  shows "acted m m''"
proof -
  obtain s c r k rs cs w where 1: "m' = m\<lparr>screen := s, cursor_column := c, cursor_row := r, klog := k, records := rs, contents := cs, cwd := w\<rparr>"
    using assms(1) by (rule actedE)
  obtain s' c' r' k' rs' cs' w' where 2: "screen_ok m''"
    "m'' = m'\<lparr>screen := s', cursor_column := c', cursor_row := r', klog := k', records := rs', contents := cs', cwd := w'\<rparr>"
    using assms(2) by (rule actedE)
  show ?thesis by (rule actedI [OF 2(1)]) (simp add: 1 2(2))
qed

lemma shown_acted:
  assumes "shown m m'"
  shows "acted m m'"
proof -
  obtain s c r where "m' = m\<lparr>screen := s, cursor_column := c, cursor_row := r\<rparr>" "screen_ok m'" using assms by (rule shownE)
  then show ?thesis
    by (intro actedI [where s = s and c = c and r = r and k = "klog m" and rs = "records m" and cs = "contents m" and w = "cwd m"]) simp_all
qed

lemma shown_fs_at: "shown m m' \<Longrightarrow> fs_at ws T m' = fs_at ws T m"
  by (erule shownE) (simp add: fs_at_def)

text \<open>A step of the console that ends, and what it makes of the directory and the tree.\<close>

definition acts :: "('d, 'm) con \<Rightarrow> ('d, 'm) con c_result \<Rightarrow> string list \<times> tree \<Rightarrow> bool" where
  "acts m k f \<longleftrightarrow> (\<exists>m'. k = Some m' \<and> acted m m' \<and> fs_at (fst f) (snd f) m')"

lemma acts_prints:
  assumes "fs_at ws T m" "prints m k"
  shows "acts m k (ws, T)"
  using assms shown_acted shown_fs_at unfolding prints_def acts_def by fastforce

lemma acts_after:
  assumes "acted m m'" "acts m' k f"
  shows "acts m k f"
  using assms acted_trans unfolding acts_def by blast

lemma acts_bind:
  assumes "acts m k (ws, T)" "\<And>m'. acted m m' \<Longrightarrow> fs_at ws T m' \<Longrightarrow> screen_ok m' \<Longrightarrow> acts m' (f m') g"
  shows "acts m (k \<bind> f) g"
  using assms acted_ok acted_trans unfolding acts_def by (metis bind.bind_lunit fst_conv snd_conv)

lemma prints_error: "screen_ok m \<Longrightarrow> prints m (console_error m)"
  unfolding console_error_def by (rule prints_puts)

section \<open>Operations of the file system\<close>

lemma overwrite_length: "pos + length xs \<le> length c \<Longrightarrow> length (overwrite pos xs c) = length c"
  by (simp add: overwrite_def)

lemma stores_update: "stores cs \<Longrightarrow> length c = 4096 \<Longrightarrow> stores (cs[i := c])"
  unfolding stores_def using set_update_subset_insert [of cs i c] by auto

text \<open>Without a disk an operation changes the table and the buffers, and the buffers keep their sizes.\<close>

definition files_only :: "('d, 'm) vfs_machine_scheme \<Rightarrow> ('d, 'm) vfs_machine_scheme \<Rightarrow> bool" where
  "files_only m m' \<longleftrightarrow> (\<exists>rs cs. m' = m\<lparr>records := rs, contents := cs\<rparr> \<and> (stores (contents m) \<longrightarrow> stores cs))"

lemma files_only_records: "files_only m (m\<lparr>records := rs\<rparr>)"
  unfolding files_only_def by (rule exI [of _ rs], rule exI [of _ "contents m"]) simp

lemma files_only_refl: "files_only m m"
  using files_only_records [of m "records m"] by simp

lemma create_only:
  assumes "\<not> disk_backed m" "create hw p ty m = Some (rc, m')"
  shows "files_only m m'"
  using assms files_only_records files_only_refl
  by (auto simp: create_def persist_keeps(4) split: Option.bind_splits if_splits option.splits prod.splits)

lemma write_fits:
  fixes pos s sz :: u32
  assumes "\<not> VFS_CONTENT_MAX < pos" "s = min sz (VFS_CONTENT_MAX - pos)"
  shows "unat pos + unat s \<le> 4096" "pos + s \<le> VFS_CONTENT_MAX"
proof -
  have pos: "unat pos \<le> 4096" using assms(1) by (simp add: vfs_lbas word_less_nat_alt)
  then have "unat (VFS_CONTENT_MAX - pos) = 4096 - unat pos" by (simp add: vfs_lbas unat_sub_u32 word_le_nat_alt)
  moreover have "s \<le> VFS_CONTENT_MAX - pos" using assms(2) by simp
  ultimately show le: "unat pos + unat s \<le> 4096" using pos by (simp add: word_le_nat_alt)
  show "pos + s \<le> VFS_CONTENT_MAX" using le by (simp add: vfs_lbas word_le_nat_alt unat_word_ariths)
qed

lemma write_only:
  assumes "\<not> disk_backed m" "vfs_write hw p (Some d) sz app m = Some (rc, m')"
  shows "files_only m m'"
proof -
  obtain n where n: "find_path (records m) p = Some n" using assms(2) by (auto simp: vfs_write_def split: Option.bind_splits)
  define k where "k = nat n"
  define pos where "pos = (if app then v_size (records m ! k) else 0)"
  define s where "s = min sz (VFS_CONTENT_MAX - pos)"
  define c where "c = overwrite (unat pos) (map byte_of_char (take (unat s) d)) (contents m ! k)"
  define m1 where "m1 = m\<lparr>contents := (contents m)[k := c], records := (records m)[k := (records m ! k)\<lparr>v_size := pos + s\<rparr>]\<rparr>"
  have stay: "files_only m m'" if "m' = m" using that by (simp add: files_only_refl)
  show ?thesis
  proof (cases "n < 0 \<or> v_type (records m ! k) \<noteq> VFS_FILE")
    case True
    then show ?thesis using assms(2) n by (intro stay) (auto simp: vfs_write_def k_def)
  next
    case False
    then have f: "find_path (records m) p = Some (int k)" "v_type (records m ! k) = VFS_FILE" using n by (simp_all add: k_def)
    have st: "stores ((contents m)[k := c])" if "stores (contents m)" "\<not> VFS_CONTENT_MAX < pos"
    proof (cases "k < 64")
      case True
      then have "length (contents m ! k) = 4096" using that by (simp add: stores_def)
      then show ?thesis
        using write_fits(1) [OF that(2) s_def] by (intro stores_update that(1)) (simp add: c_def overwrite_length)
    qed (use that in \<open>simp add: stores_def list_update_beyond\<close>)
    have "m' = m \<or> m' = m1 \<and> \<not> VFS_CONTENT_MAX < pos"
      using vfs_write_run [OF f pos_def s_def m1_def [unfolded c_def] refl, of hw] assms
      by (auto simp: m1_def persist_keeps(4) split: if_splits)
    moreover have "files_only m m1" if "\<not> VFS_CONTENT_MAX < pos"
      unfolding files_only_def m1_def using st [OF _ that]
      by (intro exI [of _ "(records m)[k := (records m ! k)\<lparr>v_size := pos + s\<rparr>]"] exI [of _ "(contents m)[k := c]"]) simp
    ultimately show ?thesis using stay by blast
  qed
qed

lemma fs_step_only:
  assumes "\<not> disk_backed m" "fs_step hw c m = Some (rc, m')"
  shows "files_only m m'"
proof (cases c)
  case (Put p d app)
  then show ?thesis using write_only assms by simp
qed (use assms create_only [OF assms(1)] files_only_records files_only_refl in
    \<open>auto simp: vfs_mkdir_def vfs_touch_def vfs_rmdir_def vfs_remove_def mark_unused_def persist_keeps(4)
      split: Option.bind_splits if_splits\<close>)

definition or_same :: "'a \<Rightarrow> 'a option \<Rightarrow> 'a" where
  "or_same x y = (case y of None \<Rightarrow> x | Some z \<Rightarrow> z)"

lemma or_same_simps [simp]: "or_same x None = x" "or_same x (Some z) = z"
  by (simp_all add: or_same_def)

lemma tree_step_small:
  assumes "small_files T" "tree_step c ps T = Some T'"
  shows "small_files T'"
proof (cases c)
  case (Put p d app)
  define pos where "pos = (if app then snd (the (T ps)) else 0)"
  define n :: u32 where "n = min (of_nat (length d)) (VFS_CONTENT_MAX - pos)"
  have "\<not> VFS_CONTENT_MAX < pos" "T' = T(ps \<mapsto> (VFS_FILE, pos + n))"
    using assms(2) Put by (auto simp: tree_write_def pos_def n_def Let_def split: if_splits)
  moreover from this have "pos + n \<le> VFS_CONTENT_MAX"
    using write_fits(2) [of pos n "of_nat (length d)"] by (simp add: n_def)
  ultimately show ?thesis using assms(1) by (simp add: small_files_def)
qed (use assms in \<open>auto simp: small_files_def tree_create_def tree_touch_def tree_rmdir_def tree_remove_def split: if_splits\<close>)

text \<open>An operation on the machine is the operation on the tree.\<close>

lemma fs_step_acts:
  assumes "fs_at ws T m" "screen_ok m" "dir_ok ps" "fs_path c = render ps"
  shows "\<exists>rc m'. fs_step hw c m = Some (rc, m') \<and> acted m m' \<and> fs_at ws (or_same T (tree_step c ps T)) m'
    \<and> screen_ok m' \<and> (rc = 0 \<longleftrightarrow> tree_step c ps T \<noteq> None)"
proof -
  have nd: "\<not> disk_backed m" "represents (records m) T" using assms(1) by (simp_all add: fs_at_def)
  have "good_path (fs_path c)" "path_parts (fs_path c) = Some ps"
    using good_render [of ps] assms(3,4) by (simp_all add: dir_ok_def)
  then have a: "answers m (fs_step hw c m) (tree_step c ps T)"
    using fs_step_answers [OF nd(2), of c hw] by simp
  obtain rc m' where r: "fs_step hw c m = Some (rc, m')" "represents (records m') (or_same T (tree_step c ps T))"
      "rc = 0 \<longleftrightarrow> tree_step c ps T \<noteq> None"
    using a nd by (cases "tree_step c ps T") (auto simp: answers_def)
  obtain rs cs where m': "m' = m\<lparr>records := rs, contents := cs\<rparr>" "stores (contents m) \<longrightarrow> stores cs"
    using fs_step_only [OF nd(1) r(1)] by (auto simp: files_only_def)
  have "screen_ok m'" using assms(2) m'(1) by (simp add: screen_ok_def)
  moreover from this have "acted m m'"
    by (rule actedI [where s = "screen m" and c = "cursor_column m" and r = "cursor_row m" and k = "klog m" and rs = rs and cs = cs and w = "cwd m"])
      (simp add: m'(1))
  moreover have "small_files (or_same T (tree_step c ps T))"
    using tree_step_small [of T c ps] assms(1) by (cases "tree_step c ps T") (auto simp: fs_at_def)
  ultimately show ?thesis using r m' assms(1) by (auto simp: fs_at_def)
qed

section \<open>Commands\<close>

text \<open>The words of a line are paths that fit: without a null character, at most 127 characters, not empty.\<close>

definition good_words :: "string list \<Rightarrow> bool" where
  "good_words argv \<longleftrightarrow> (\<forall>w \<in> set argv. good_path w \<and> w \<noteq> [])"

lemma words_spec_set:
  "w \<in> set (words_spec line) \<Longrightarrow> set w \<subseteq> set line \<and> length w \<le> length line \<and> w \<noteq> []"
proof -
  have "set w \<subseteq> set line \<and> length w \<le> length line" if "w \<in> set (pieces line)" for w
    using that
  proof (induction line arbitrary: w)
    case (Cons c cs)
    obtain p ps where p: "pieces cs = p # ps" by (cases "pieces cs") auto
    then have "w = [] \<or> w = c # p \<or> w \<in> set (pieces cs)" using Cons.prems by (auto split: if_splits)
    moreover have "set p \<subseteq> set cs \<and> length p \<le> length cs" using Cons.IH [of p] p by simp
    ultimately show ?case using Cons.IH [of w] by auto
  qed simp
  then show "w \<in> set (words_spec line) \<Longrightarrow> set w \<subseteq> set line \<and> length w \<le> length line \<and> w \<noteq> []"
    by (auto simp: words_spec_def)
qed

lemma good_words_line:
  assumes "length line \<le> 127" "CHR 0x00 \<notin> set line"
  shows "good_words (console_words line n)"
  unfolding good_words_def
proof
  fix w assume "w \<in> set (console_words line n)"
  then have "w \<in> set (words_spec line)" by (metis console_words_splits in_set_takeD)
  from words_spec_set [OF this] show "good_path w \<and> w \<noteq> []"
    using assms by (auto simp: good_path_def VFS_PATH_MAX_def)
qed

text \<open>Where argument \<open>n\<close> leads.\<close>

definition arg_at :: "string list \<Rightarrow> nat \<Rightarrow> string list \<Rightarrow> string list option" where
  "arg_at argv n ws = (if length argv \<le> n then None else resolve_at ws (argv ! n))"

lemma console_arg_at:
  assumes "fs_at ws T m" "screen_ok m" "good_words argv"
  shows "case arg_at argv n ws of
      None \<Rightarrow> \<exists>m1. console_arg argv n m = Some (None, m1) \<and> shown m m1
    | Some ps \<Rightarrow> dir_ok ps \<and> console_arg argv n m = Some (Some (render ps), m)"
proof -
  obtain m1 where m1: "console_error m = Some m1" "shown m m1"
    using prints_error [OF assms(2)] by (auto simp: prints_def)
  show ?thesis
  proof (cases "length argv \<le> n")
    case True
    then show ?thesis using m1 by (simp add: arg_at_def console_arg_def)
  next
    case False
    then have "good_path (argv ! n)" using assms(3) by (simp add: good_words_def)
    moreover have "dir_ok ws" "cwd m = render ws" using assms(1) by (simp_all add: fs_at_def)
    ultimately show ?thesis
      using normalize_at [of ws "argv ! n"] m1 False
      by (auto simp: arg_at_def console_arg_def console_path_def split: option.splits)
  qed
qed

text \<open>A command that looks up a path: printing when there is none.\<close>

lemma acts_with_arg:
  assumes "fs_at ws T m" "screen_ok m" "good_words argv"
    and none: "\<And>m1. arg_at argv n ws = None \<Longrightarrow> shown m m1 \<Longrightarrow> fs_at ws T m1 \<Longrightarrow> screen_ok m1 \<Longrightarrow> acts m1 (f None m1) g"
    and some: "\<And>ps. arg_at argv n ws = Some ps \<Longrightarrow> dir_ok ps \<Longrightarrow> acts m (f (Some (render ps)) m) g"
  shows "acts m (console_arg argv n m \<bind> (\<lambda>(p, m1). f p m1)) g"
proof (cases "arg_at argv n ws")
  case None
  then obtain m1 where m1: "console_arg argv n m = Some (None, m1)" "shown m m1"
    using console_arg_at [OF assms(1-3), of n] by auto
  then have "acts m1 (f None m1) g"
    using none [OF None m1(2)] assms(1) shown_fs_at [OF m1(2)] by simp
  then show ?thesis using acts_after [OF shown_acted [OF m1(2)]] m1(1) by simp
next
  case (Some ps)
  then show ?thesis using console_arg_at [OF assms(1-3), of n] some by auto
qed

lemma cd_acts:
  assumes "fs_at ws T m" "screen_ok m" "good_words argv"
  shows "acts m (cmd_cd argv m)
    (case arg_at argv (path_arg argv) ws of Some ps \<Rightarrow> if tree_dir T ps then ps else ws | None \<Rightarrow> ws, T)"
  unfolding cmd_cd_def
proof (rule acts_with_arg [OF assms])
  fix ps assume ps: "arg_at argv (path_arg argv) ws = Some ps" "dir_ok ps"
  have r: "represents (records m) T" using assms(1) by (simp add: fs_at_def)
  note g = good_render [of ps]
  have d: "vfs_is_directory (records m) (Some (render ps)) = Some (tree_dir T ps)"
    using stat_path_tree [OF r, of "render ps"] g ps(2)
    by (auto simp: vfs_is_directory_def dir_ok_def tree_dir_def split: option.splits prod.splits)
  have len: "length (render ps) \<le> 127" using ps(2) by (simp add: dir_ok_def VFS_PATH_MAX_def)
  show "acts m (case Some (render ps) of None \<Rightarrow> console_error m
      | Some path \<Rightarrow> do {
          d \<leftarrow> vfs_is_directory (records m) (Some path);
          (if \<not> d then console_error m else if VFS_PATH_MAX < length path then None else Some (m\<lparr>cwd := path\<rparr>))
        }) (case arg_at argv (path_arg argv) ws of Some ps \<Rightarrow> if tree_dir T ps then ps else ws | None \<Rightarrow> ws, T)"
  proof (cases "tree_dir T ps")
    case True
    have "screen_ok (m\<lparr>cwd := render ps\<rparr>)" using assms(2) len by (simp add: screen_ok_def)
    moreover from this have "acted m (m\<lparr>cwd := render ps\<rparr>)"
      by (rule actedI [where s = "screen m" and c = "cursor_column m" and r = "cursor_row m" and k = "klog m" and rs = "records m"
          and cs = "contents m" and w = "render ps"]) simp
    ultimately show ?thesis
      using True d len ps assms(1) by (simp add: acts_def fs_at_def VFS_PATH_MAX_def)
  next
    case False
    then show ?thesis using d ps(1) assms by (auto intro: acts_prints prints_error)
  qed
qed (use assms in \<open>auto intro: acts_prints prints_error shown_ok\<close>)

text \<open>An operation of the file system followed by a message when it fails.\<close>

lemma op_acts:
  assumes "fs_at ws T m" "screen_ok m" "dir_ok ps" "fs_path c = render ps"
  shows "acts m (fs_step hw c m \<bind> (\<lambda>(rc, m2). if rc \<noteq> 0 then console_error m2 else Some m2)) (ws, or_same T (tree_step c ps T))"
proof -
  obtain rc m' where m': "fs_step hw c m = Some (rc, m')" "acted m m'" "fs_at ws (or_same T (tree_step c ps T)) m'" "screen_ok m'"
    using fs_step_acts [OF assms] by blast
  have "acts m' (if rc \<noteq> 0 then console_error m' else Some m') (ws, or_same T (tree_step c ps T))"
    by (intro acts_prints m'(3) prints_if prints_error prints_Some m'(4))
  then show ?thesis using acts_after [OF m'(2)] m'(1) by simp
qed

text \<open>\<^verbatim>\<open>mkdir\<close>, \<^verbatim>\<open>rmdir\<close>, \<^verbatim>\<open>touch\<close> and \<^verbatim>\<open>rm\<close> on the tree.\<close>

definition file_tree :: "string \<Rightarrow> string list \<Rightarrow> tree \<Rightarrow> tree option" where
  "file_tree name ps T =
     (if console_streq name ''mkdir'' then tree_create VFS_DIRECTORY ps T
      else if console_streq name ''rmdir'' then tree_rmdir ps T
      else if console_streq name ''touch'' then tree_touch ps T
      else tree_remove ps T)"

lemma file_acts:
  assumes "fs_at ws T m" "screen_ok m" "good_words argv"
  shows "acts m (cmd_file hw argv m) (ws, or_same T (arg_at argv 1 ws \<bind> (\<lambda>ps. file_tree (argv ! 0) ps T)))"
  unfolding cmd_file_def
proof (rule acts_with_arg [OF assms])
  fix ps assume ps: "arg_at argv 1 ws = Some ps" "dir_ok ps"
  define c where "c = (if console_streq (argv ! 0) ''mkdir'' then Mkdir (render ps) else if console_streq (argv ! 0) ''rmdir'' then Rmdir (render ps)
      else if console_streq (argv ! 0) ''touch'' then Touch (render ps) else Remove (render ps))"
  have "file_op hw (argv ! 0) (render ps) m = fs_step hw c m" "file_tree (argv ! 0) ps T = tree_step c ps T" "fs_path c = render ps"
    by (simp_all add: file_op_def file_tree_def c_def)
  then show "acts m (case Some (render ps) of None \<Rightarrow> Some m
      | Some path \<Rightarrow> do {
          (rc, m2) \<leftarrow> file_op hw (argv ! 0) path m;
          (if rc \<noteq> 0 then console_error m2 else Some m2)
        }) (ws, or_same T (arg_at argv 1 ws \<bind> (\<lambda>ps. file_tree (argv ! 0) ps T)))"
    using op_acts [OF assms(1,2) ps(2), of c hw] ps(1) by simp
qed (use assms in \<open>auto intro: acts_prints prints_Some shown_ok\<close>)

definition write_tree :: "string list \<Rightarrow> string list \<Rightarrow> tree \<Rightarrow> tree option" where
  "write_tree argv ps T =
     tree_write (of_nat (length (write_text (drop 2 argv)))) (console_streq (argv ! 0) ''append'') ps T"

lemma write_acts:
  assumes "fs_at ws T m" "screen_ok m" "good_words argv"
  shows "acts m (cmd_write hw argv m)
    (ws, if length argv < 3 then T else or_same T (arg_at argv 1 ws \<bind> (\<lambda>ps. write_tree argv ps T)))"
proof (cases "length argv < 3")
  case True
  then show ?thesis using assms by (auto simp: cmd_write_def intro: acts_prints prints_error)
next
  case False
  have "acts m (console_arg argv 1 m \<bind> (\<lambda>(p, m1). case p of
           None \<Rightarrow> console_error m1
         | Some path \<Rightarrow>
             let data = write_text (drop 2 argv) in do {
               (rc, m2) \<leftarrow> vfs_write hw (Some path) (Some data) (of_nat (length data)) (console_streq (argv ! 0) ''append'') m1;
               (if rc \<noteq> 0 then console_error m2 else Some m2)
             })) (ws, or_same T (arg_at argv 1 ws \<bind> (\<lambda>ps. write_tree argv ps T)))"
  proof (rule acts_with_arg [OF assms])
    fix ps assume ps: "arg_at argv 1 ws = Some ps" "dir_ok ps"
    show "acts m (case Some (render ps) of
           None \<Rightarrow> console_error m
         | Some path \<Rightarrow>
             let data = write_text (drop 2 argv) in do {
               (rc, m2) \<leftarrow> vfs_write hw (Some path) (Some data) (of_nat (length data)) (console_streq (argv ! 0) ''append'') m;
               (if rc \<noteq> 0 then console_error m2 else Some m2)
             }) (ws, or_same T (arg_at argv 1 ws \<bind> (\<lambda>ps. write_tree argv ps T)))"
      using op_acts [OF assms(1,2) ps(2), of "Put (render ps) (write_text (drop 2 argv)) (console_streq (argv ! 0) ''append'')" hw] ps(1)
      by (simp add: Let_def write_tree_def)
  qed (use assms in \<open>auto intro: acts_prints prints_error shown_ok\<close>)
  then show ?thesis using False by (simp add: cmd_write_def)
qed

section \<open>Reading and copying\<close>

lemma read_tree:
  assumes "fs_at ws T m" "dir_ok ps" "unat cap \<le> length b"
  shows "\<exists>d. vfs_read hw (Some (render ps)) (Some b) cap (Some 0) m =
      Some ((if tree_file T ps then (0, Some d, Some (min (snd (the (T ps))) cap)) else (-1, Some b, Some 0)), m)
    \<and> length d = length b"
proof -
  obtain P where P: "tree_ok (records m) P" "T = tree_of (records m) P"
    using assms(1) by (auto simp: fs_at_def represents_def)
  have nd: "\<not> disk_backed m" "stores (contents m)" "small_files T" using assms(1) by (simp_all add: fs_at_def)
  note g = good_render [of ps]
  have f: "find_path (records m) (Some (render ps)) = Some (index_of (slot_of (records m) P ps))"
    using find_path_slot [OF P(1), of "render ps"] g assms(2) by (simp add: dir_ok_def)
  show ?thesis
  proof (cases "tree_file T ps")
    case False
    then show ?thesis
      using f tree_file_slot [OF P(1), of ps] P(2) by (cases "slot_of (records m) P ps") (auto simp: vfs_read_def)
  next
    case True
    then obtain i where i: "slot_of (records m) P ps = Some i" "v_type (records m ! i) = VFS_FILE"
      using tree_file_slot [OF P(1), of ps] P(2) by auto
    have "live (records m) i" using i(1) slot_of_Some_iff [OF P(1)] by simp
    then have "i < 64" by (rule live_less)
    then have len: "length (contents m ! i) = 4096" using nd(2) by (simp add: stores_def)
    have sz: "T ps = Some (VFS_FILE, v_size (records m ! i))" using i P(2) by (simp add: tree_of_def)
    then have "v_size (records m ! i) \<le> VFS_CONTENT_MAX" using nd(3) by (auto simp: small_files_def)
    then have small: "unat (v_size (records m ! i)) \<le> 4096" by (simp add: vfs_lbas word_le_nat_alt)
    define n where "n = min (v_size (records m ! i)) cap"
    define d where "d = overwrite 0 (map char_of_byte (take (unat n) (contents m ! i))) b"
    have n: "unat n \<le> 4096" "unat n \<le> length b"
      using small assms(3) by (auto simp: n_def min_def word_le_nat_alt not_le)
    have "(if v_size (records m ! i) < cap then v_size (records m ! i) else cap) = n"
      by (auto simp: n_def min_def)
    then have "vfs_read hw (Some (render ps)) (Some b) cap (Some 0) m = Some ((0, Some d, Some n), m)"
      using f i nd(1) n len by (auto simp: vfs_read_def d_def Let_def split del: if_split)
    moreover have "length d = length b" using n len by (simp add: d_def overwrite_def)
    ultimately show ?thesis using True sz by (auto simp: n_def)
  qed
qed

lemma con_log_acted:
  assumes "screen_ok m" "fs_at ws T m"
  shows "acted m (con_log t m)" "fs_at ws T (con_log t m)" "screen_ok (con_log t m)"
proof -
  show ok: "screen_ok (con_log t m)" using assms(1) by (simp add: con_log_eq screen_ok_def)
  then show "acted m (con_log t m)"
    by (rule actedI [where s = "screen m" and c = "cursor_column m" and r = "cursor_row m" and k = "klog m @ t" and rs = "records m"
        and cs = "contents m" and w = "cwd m"]) (simp add: con_log_eq)
  show "fs_at ws T (con_log t m)" using assms(2) by (simp add: fs_at_def con_log_eq)
qed

lemma cat_acts:
  assumes "fs_at ws T m" "screen_ok m" "good_words argv"
  shows "acts m (cmd_cat hw argv m) (ws, T)"
  unfolding cmd_cat_def
proof (rule acts_with_arg [OF assms])
  fix ps assume ps: "arg_at argv 1 ws = Some ps" "dir_ok ps"
  have cap: "unat COMMAND_MAX \<le> length (replicate 128 (CHR 0x00))" by (simp add: COMMAND_MAX_def)
  obtain d where d: "vfs_read hw (Some (render ps)) (Some (replicate 128 (CHR 0x00))) COMMAND_MAX (Some 0) m =
      Some ((if tree_file T ps then (0, Some d, Some (min (snd (the (T ps))) COMMAND_MAX)) else (-1, Some (replicate 128 (CHR 0x00)), Some 0)), m)"
      "length d = 128"
    using read_tree [OF assms(1) ps(2) cap, of hw] by auto
  define n where "n = min (snd (the (T ps))) COMMAND_MAX"
  have "n \<le> COMMAND_MAX" by (simp add: n_def)
  then have n: "unat n < 128" by (simp add: COMMAND_MAX_def word_le_nat_alt)
  then have "CHR 0x00 \<in> set (d[unat n := CHR 0x00])" using d(2) by (simp add: set_update_memI)
  then obtain t where t: "cstr (d[unat n := CHR 0x00]) = Some t" by (simp add: cstr_def)
  have put: "acts m (console_line t m \<bind> (\<lambda>m3. Some (con_log l m3))) (ws, T)" for l
    by (rule acts_bind [OF acts_prints [OF assms(1) prints_line [OF assms(2)]]]) (use con_log_acted in \<open>auto simp: acts_def\<close>)
  have fail: "acts m (console_error (con_log l m)) (ws, T)" for l
    using acts_after [OF con_log_acted(1) [OF assms(2,1)]] acts_prints prints_error con_log_acted(2,3) [OF assms(2,1)] by blast
  show "acts m (case Some (render ps) of
        None \<Rightarrow> Some m
      | Some path \<Rightarrow> do {
          ((rc, data, n), m2) \<leftarrow> vfs_read hw (Some path) (Some (replicate 128 (CHR 0x00))) COMMAND_MAX (Some 0) m;
          (if rc = 0 then
             if length (the data) \<le> unat (the n) then None
             else do {
               t \<leftarrow> cstr ((the data)[unat (the n) := CHR 0x00]);
               m3 \<leftarrow> console_line t m2;
               Some (con_log (''[MinOS Console] cat output: '' @ t @ [CHR 0x0A]) m3)
             }
           else console_error (con_log (''[MinOS Console] cat failed'' @ [CHR 0x0A]) m2))
        }) (ws, T)"
    using d n t put fail n_def by simp
qed (use assms in \<open>auto intro: acts_prints prints_Some shown_ok\<close>)

text \<open>
  Copying: the target is created if it is missing and gets the size of the source.  A copy to a directory
  fails after \<^verbatim>\<open>vfs_touch\<close> has found it in order.
\<close>

definition tree_copy :: "string list \<Rightarrow> string list \<Rightarrow> tree \<Rightarrow> bool \<times> tree" where
  "tree_copy s d T =
     (if \<not> tree_file T s then (False, T)
      else case tree_touch d T of
             None \<Rightarrow> (False, T)
           | Some T1 \<Rightarrow> (case tree_write (snd (the (T s))) False d T1 of None \<Rightarrow> (False, T1) | Some T2 \<Rightarrow> (True, T2)))"

definition tree_move :: "string list \<Rightarrow> string list \<Rightarrow> tree \<Rightarrow> bool \<times> tree" where
  "tree_move s d T =
     (case tree_copy s d T of
        (ok, T1) \<Rightarrow> if \<not> ok then (False, T1) else case tree_remove s T1 of None \<Rightarrow> (False, T1) | Some T2 \<Rightarrow> (True, T2))"

lemma write_prefix:
  assumes "unat sz \<le> length d"
  shows "vfs_write hw p (Some d) sz app m = vfs_write hw p (Some (take (unat sz) d)) (of_nat (length (take (unat sz) d))) app m"
proof -
  have "of_nat (length (take (unat sz) d)) = sz" using assms by simp
  moreover have "take (unat s) (take (unat sz) d) = take (unat s) d \<and> (length (take (unat sz) d) < unat s) = (length d < unat s)"
    if "s = (if VFS_CONTENT_MAX - pos < sz then VFS_CONTENT_MAX - pos else sz)" for s pos
  proof -
    have "unat s \<le> unat sz" using that by (auto simp: word_less_nat_alt)
    then show ?thesis using assms by (simp add: min_def)
  qed
  note pre = this [OF refl]
  ultimately show ?thesis
    unfolding vfs_write_def option.sel by (simp only: Let_def pre option.distinct)
qed

lemma copy_acts:
  assumes "fs_at ws T m" "screen_ok m" "dir_ok s" "dir_ok d"
  shows "\<exists>rc m'. vfs_copy hw (Some (render s)) (Some (render d)) m = Some (rc, m') \<and> acted m m'
    \<and> fs_at ws (snd (tree_copy s d T)) m' \<and> screen_ok m' \<and> (rc = 0 \<longleftrightarrow> fst (tree_copy s d T))"
proof -
  let ?b = "replicate 4096 (CHR 0x00)"
  have cap: "unat VFS_CONTENT_MAX \<le> length ?b" by (simp add: vfs_lbas)
  obtain b where b: "vfs_read hw (Some (render s)) (Some ?b) VFS_CONTENT_MAX (Some 0) m =
      Some ((if tree_file T s then (0, Some b, Some (min (snd (the (T s))) VFS_CONTENT_MAX)) else (-1, Some ?b, Some 0)), m)" "length b = 4096"
    using read_tree [OF assms(1,3) cap, of hw] by auto
  have here: "acted m m" using shown_acted shown_refl assms(2) by blast
  show ?thesis
  proof (cases "tree_file T s")
    case False
    then show ?thesis using b assms here by (auto simp: vfs_copy_def tree_copy_def)
  next
    case True
    define n where "n = snd (the (T s))"
    obtain ty where "T s = Some (ty, n)" using True by (auto simp: tree_file_def n_def split: option.splits)
    then have n: "n \<le> VFS_CONTENT_MAX" using assms(1) by (auto simp: fs_at_def small_files_def)
    then have nb: "unat n \<le> length b" using b(2) by (simp add: vfs_lbas word_le_nat_alt)
    obtain rc m1 where m1: "vfs_touch hw (Some (render d)) m = Some (rc, m1)" "acted m m1"
        "fs_at ws (or_same T (tree_touch d T)) m1" "screen_ok m1" "rc = 0 \<longleftrightarrow> tree_touch d T \<noteq> None"
      using fs_step_acts [OF assms(1,2,4), of "Touch (render d)" hw] by auto
    show ?thesis
    proof (cases "tree_touch d T")
      case None
      then show ?thesis using b True m1 n by (auto simp: vfs_copy_def tree_copy_def min_def)
    next
      case (Some T1)
      define c where "c = Put (render d) (take (unat n) b) False"
      have "fs_step hw c m1 = vfs_write hw (Some (render d)) (Some b) n False m1"
        unfolding c_def fs_step.simps by (rule write_prefix [OF nb, symmetric])
      moreover have "tree_step c d T1 = tree_write n False d T1" using nb by (simp add: c_def)
      moreover have f1: "fs_at ws T1 m1" using m1(3) Some by simp
      ultimately obtain rc2 m2 where m2: "vfs_write hw (Some (render d)) (Some b) n False m1 = Some (rc2, m2)" "acted m1 m2"
          "fs_at ws (or_same T1 (tree_write n False d T1)) m2" "screen_ok m2" "rc2 = 0 \<longleftrightarrow> tree_write n False d T1 \<noteq> None"
        using fs_step_acts [OF f1 m1(4) assms(4), of c hw] by (auto simp: c_def)
      have "vfs_copy hw (Some (render s)) (Some (render d)) m = Some (if rc2 \<noteq> 0 then -1 else 0, m2)"
        using b True m1 m2(1) n Some by (simp add: vfs_copy_def min_def n_def)
      moreover have "tree_copy s d T = (tree_write n False d T1 \<noteq> None, or_same T1 (tree_write n False d T1))"
        using True Some by (auto simp: tree_copy_def n_def split: option.splits)
      ultimately show ?thesis using m2 acted_trans [OF m1(2) m2(2)] by auto
    qed
  qed
qed

lemma move_acts:
  assumes "fs_at ws T m" "screen_ok m" "dir_ok s" "dir_ok d"
  shows "\<exists>rc m'. vfs_move hw (Some (render s)) (Some (render d)) m = Some (rc, m') \<and> acted m m'
    \<and> fs_at ws (snd (tree_move s d T)) m' \<and> screen_ok m' \<and> (rc = 0 \<longleftrightarrow> fst (tree_move s d T))"
proof -
  obtain ok T1 where T1: "tree_copy s d T = (ok, T1)" by fastforce
  obtain rc m1 where m1: "vfs_copy hw (Some (render s)) (Some (render d)) m = Some (rc, m1)" "acted m m1" "fs_at ws T1 m1"
      "screen_ok m1" "rc = 0 \<longleftrightarrow> ok"
    using copy_acts [OF assms, of hw] T1 by auto
  obtain rc2 m2 where m2: "vfs_remove hw (Some (render s)) m1 = Some (rc2, m2)" "acted m1 m2"
      "fs_at ws (or_same T1 (tree_remove s T1)) m2" "screen_ok m2" "rc2 = 0 \<longleftrightarrow> tree_remove s T1 \<noteq> None"
    using fs_step_acts [OF m1(3,4) assms(3), of "Remove (render s)" hw] by auto
  show ?thesis
  proof (cases ok)
    case True
    then have "tree_move s d T = (tree_remove s T1 \<noteq> None, or_same T1 (tree_remove s T1))"
      using T1 by (auto simp: tree_move_def split: option.splits)
    then show ?thesis using True m1 m2 acted_trans [OF m1(2) m2(2)] by (auto simp: vfs_move_def)
  next
    case False
    then show ?thesis using m1 T1 by (auto simp: vfs_move_def tree_move_def)
  qed
qed

text \<open>\<^verbatim>\<open>cp\<close> and \<^verbatim>\<open>mv\<close>.\<close>

definition copy_tree :: "string list \<Rightarrow> string list \<Rightarrow> tree \<Rightarrow> tree" where
  "copy_tree argv ws T =
     (if length argv < 3 then T
      else case (arg_at argv 1 ws, arg_at argv 2 ws) of
             (Some s, Some d) \<Rightarrow> snd ((if console_streq (argv ! 0) ''cp'' then tree_copy else tree_move) s d T)
           | _ \<Rightarrow> T)"

lemma copy_cmd_acts:
  fixes m :: "('d, 'm) con"
  assumes "fs_at ws T m" "screen_ok m" "good_words argv"
  shows "acts m (cmd_copy hw argv m) (ws, copy_tree argv ws T)"
proof (cases "length argv < 3")
  case True
  then show ?thesis using assms by (auto simp: cmd_copy_def copy_tree_def intro: acts_prints prints_Some)
next
  case False
  define cp where "cp a b x = (if console_streq (argv ! 0) ''cp'' then vfs_copy hw a b x else vfs_move hw a b x)"
    for a b and x :: "('d, 'm) con"
  have step: "acts m (do { (rc, m3) \<leftarrow> cp (Some (render s)) (Some (render d)) m; (if rc \<noteq> 0 then console_error m3 else Some m3) })
      (ws, snd ((if console_streq (argv ! 0) ''cp'' then tree_copy else tree_move) s d T))" if "dir_ok s" "dir_ok d" for s d
  proof -
    note sd = that
    let ?T = "snd ((if console_streq (argv ! 0) ''cp'' then tree_copy else tree_move) s d T)"
    obtain rc m3 where m3: "cp (Some (render s)) (Some (render d)) m = Some (rc, m3)" "acted m m3" "fs_at ws ?T m3" "screen_ok m3"
      using copy_acts [OF assms(1,2) sd, of hw] move_acts [OF assms(1,2) sd, of hw]
      by (cases "console_streq (argv ! 0) ''cp''") (auto simp: cp_def)
    have "acts m3 (if rc \<noteq> 0 then console_error m3 else Some m3) (ws, ?T)"
      by (intro acts_prints m3(3) prints_if prints_error prints_Some m3(4))
    then show ?thesis using acts_after [OF m3(2)] m3(1) by simp
  qed
  have second: "acts m (console_arg argv 2 m \<bind> (\<lambda>(p2, m2). case p2 of
                None \<Rightarrow> Some m2
              | Some path2 \<Rightarrow> do {
                  (rc, m3) \<leftarrow> cp (Some (render s)) (Some path2) m2;
                  (if rc \<noteq> 0 then console_error m3 else Some m3)
                })) (ws, case arg_at argv 2 ws of None \<Rightarrow> T
                    | Some d \<Rightarrow> snd ((if console_streq (argv ! 0) ''cp'' then tree_copy else tree_move) s d T))" if "dir_ok s" for s
    by (rule acts_with_arg [OF assms]) (use step [OF that] in \<open>auto intro: acts_prints prints_Some shown_ok\<close>)
  have "acts m (console_arg argv 1 m \<bind> (\<lambda>(p, m1). case p of
           None \<Rightarrow> Some m1
         | Some path \<Rightarrow> console_arg argv 2 m1 \<bind> (\<lambda>(p2, m2). case p2 of
                None \<Rightarrow> Some m2
              | Some path2 \<Rightarrow> do {
                  (rc, m3) \<leftarrow> cp (Some path) (Some path2) m2;
                  (if rc \<noteq> 0 then console_error m3 else Some m3)
                }))) (ws, copy_tree argv ws T)"
    by (rule acts_with_arg [OF assms])
      (use second False in \<open>auto simp: copy_tree_def intro: acts_prints prints_Some shown_ok split: option.splits\<close>)
  then show ?thesis using False unfolding cmd_copy_def cp_def by (simp split del: if_split)
qed

section \<open>Listing\<close>

lemma tree_paths: "represents recs T \<Longrightarrow> T ps = Some v \<Longrightarrow> dir_ok ps"
  using live_proper by (fastforce simp: represents_def tree_of_def slot_of_Some_iff dir_ok_def)

text \<open>An entry of a listing of \<open>ps\<close>: a name of the tree.\<close>

definition entry_at :: "tree \<Rightarrow> string list \<Rightarrow> vfs_dirent \<Rightarrow> bool" where
  "entry_at T ps e \<longleftrightarrow> (\<exists>x. cstr (de_name e) = Some x \<and> T (ps @ [x]) \<noteq> None)"

lemma list_entries_tree:
  assumes "fs_at ws T m" "dir_ok ps"
  shows "\<exists>rc es. list_entries (render ps) m = Some (rc, es) \<and> (rc = 0 \<longrightarrow> (\<forall>e \<in> set es. entry_at T ps e))"
proof -
  have r: "represents (records m) T" using assms(1) by (simp add: fs_at_def)
  note g = good_render [of ps]
  show ?thesis
  proof (cases "tree_dir T ps")
    case True
    have arr: "64 \<le> unat (64 :: u32)" "unat (64 :: u32) \<le> length dirent_array" "terminated dirent_array"
      by (simp_all add: dirent_array_def terminated_def)
    obtain e n where e: "vfs_list (records m) (Some (render ps)) (Some dirent_array) 64 (Some 0) = Some (0, Some e, Some n)"
        "set (map entry_of (take (unat n) e)) = {(x, ty, sz). T (ps @ [x]) = Some (ty, sz)}"
      using list_children [OF r g _ arr(1,2), of 0] True assms(2) by (auto simp: dir_ok_def)
    have "entry_at T ps d" if "d \<in> set (take (unat n) e)" for d
    proof -
      have "entry_of d \<in> {(x, ty, sz). T (ps @ [x]) = Some (ty, sz)}" unfolding e(2) [symmetric] using that by simp
      moreover have "CHR 0x00 \<in> set (de_name d)"
        using vfs_list_terminated [OF e(1) arr(3)] that by (auto simp: terminated_def dest: in_set_takeD)
      ultimately show ?thesis by (auto simp: entry_at_def entry_of_def cstr_def)
    qed
    then show ?thesis using e(1) by (simp add: list_entries_def)
  next
    case False
    obtain P where P: "tree_ok (records m) P" "T = tree_of (records m) P" using r by (auto simp: represents_def)
    have "vfs_list (records m) (Some (render ps)) (Some dirent_array) 64 (Some 0) = Some (-1, Some dirent_array, Some 0)"
      using find_path_slot [OF P(1), of "render ps"] g assms(2) False tree_dir_slot [OF P(1), of ps] P(2)
      by (cases "slot_of (records m) P ps") (auto simp: vfs_list_def dir_ok_def)
    then show ?thesis by (simp add: list_entries_def)
  qed
qed

lemma prints_entry: "entry_at T ps e \<Longrightarrow> screen_ok m \<Longrightarrow> prints m (put_entry e m)"
  unfolding put_entry_def by (auto simp: entry_at_def intro!: prints_intros)

lemma stat_of_tree:
  assumes "fs_at ws T m" "dir_ok ps"
  shows "\<exists>rc ty. stat_of (render ps) m = Some (rc, ty)"
proof -
  have "represents (records m) T" using assms(1) by (simp add: fs_at_def)
  then show ?thesis
    using stat_path_tree [of "records m" T "render ps"] good_render [of ps] assms(2)
    by (auto simp: stat_of_def dir_ok_def split: option.splits)
qed

lemma list_prints:
  assumes "fs_at ws T m" "screen_ok m" "dir_ok ps"
  shows "prints m (console_list (render ps) m)"
proof -
  obtain rc ty where "stat_of (render ps) m = Some (rc, ty)" using stat_of_tree [OF assms(1,3)] by blast
  moreover obtain rc2 es where "list_entries (render ps) m = Some (rc2, es)" "rc2 = 0 \<longrightarrow> (\<forall>e \<in> set es. entry_at T ps e)"
    using list_entries_tree [OF assms(1,3)] by blast
  ultimately show ?thesis
    using assms(2) by (auto simp: console_list_def intro!: prints_error prints_line prints_for_each prints_entry)
qed

lemma child_path:
  "console_append_path (render ps) x 128 = None \<or> console_append_path (render ps) x 128 = Some (render (ps @ [x]))"
  by (auto simp: console_append_path_def render_snoc append_part_def Let_def)

lemma entry_walks:
  assumes "fs_at ws T m" "dir_ok ps" "entry_at T ps e"
    and "\<And>qs. dir_ok qs \<Longrightarrow> prints m (f (render qs))" "prints m k"
  shows "prints m (cstr (de_name e) \<bind> (\<lambda>name. case console_append_path (render ps) name 128 of None \<Rightarrow> k | Some child \<Rightarrow> f child))"
proof -
  obtain x where x: "cstr (de_name e) = Some x" "T (ps @ [x]) \<noteq> None" using assms(3) by (auto simp: entry_at_def)
  then have "dir_ok (ps @ [x])" using tree_paths [of "records m" T] assms(1) by (auto simp: fs_at_def)
  then show ?thesis using x child_path [of ps x] assms(4,5) by auto
qed

lemma tree_walk_prints:
  "fs_at ws T m \<Longrightarrow> screen_ok m \<Longrightarrow> dir_ok ps \<Longrightarrow> prints m (console_tree_walk k (render ps) m)"
proof (induction k arbitrary: ps m)
  case 0
  then show ?case by (simp add: prints_Some)
next
  case (Suc k)
  obtain rc es where es: "list_entries (render ps) m = Some (rc, es)" "rc = 0 \<longrightarrow> (\<forall>e \<in> set es. entry_at T ps e)"
    using list_entries_tree [OF Suc.prems(1,3)] by blast
  have body: "prints m' (do {
             m1 \<leftarrow> console_puts (concat (replicate (15 - k) ''  '')) m';
             m2 \<leftarrow> put_entry e m1;
             (if de_type e = VFS_DIRECTORY then do {
                name \<leftarrow> cstr (de_name e);
                (case console_append_path (render ps) name 128 of
                   None \<Rightarrow> Some m2
                 | Some child \<Rightarrow> console_tree_walk k child m2)
              } else Some m2)
           })" if e: "entry_at T ps e" and m': "shown m m'" "screen_ok m'" for e m'
  proof (intro prints_bind prints_puts prints_entry [OF e] prints_if prints_Some m'(2))
    fix m1 m2 assume m: "shown m' m1" "shown m1 m2" "screen_ok m2"
    have f: "fs_at ws T m2" using Suc.prems(1) shown_fs_at m'(1) m(1,2) by metis
    show "prints m2 (cstr (de_name e) \<bind> (\<lambda>name. case console_append_path (render ps) name 128 of None \<Rightarrow> Some m2
        | Some child \<Rightarrow> console_tree_walk k child m2))"
      by (rule entry_walks [OF f Suc.prems(3) e]) (use f m(3) Suc.IH in \<open>auto intro: prints_Some\<close>)
  qed
  show ?case using es body Suc.prems(2) by (auto intro!: prints_Some prints_for_each)
qed

lemma find_walk_prints:
  "fs_at ws T m \<Longrightarrow> screen_ok m \<Longrightarrow> dir_ok ps \<Longrightarrow> prints m (console_find_walk k (render ps) needle m)"
proof (induction k arbitrary: ps m)
  case 0
  then show ?case by (simp add: prints_Some)
next
  case (Suc k)
  obtain rc es where es: "list_entries (render ps) m = Some (rc, es)" "rc = 0 \<longrightarrow> (\<forall>e \<in> set es. entry_at T ps e)"
    using list_entries_tree [OF Suc.prems(1,3)] by blast
  have body: "prints m' (do {
             name \<leftarrow> cstr (de_name e);
             (case console_append_path (render ps) name 128 of
                None \<Rightarrow> Some m'
              | Some child \<Rightarrow> do {
                  m1 \<leftarrow> (if console_name_matches name needle then console_line child m' else Some m');
                  (if de_type e = VFS_DIRECTORY then console_find_walk k child needle m1 else Some m1)
                })
           })" if e: "entry_at T ps e" and m': "shown m m'" "screen_ok m'" for e m'
  proof -
    have f: "fs_at ws T m'" using Suc.prems(1) shown_fs_at m'(1) by metis
    obtain x where x: "cstr (de_name e) = Some x" "T (ps @ [x]) \<noteq> None" using e by (auto simp: entry_at_def)
    then have d: "dir_ok (ps @ [x])" using tree_paths [of "records m'" T] f by (auto simp: fs_at_def)
    have "prints m' (do {
        m1 \<leftarrow> (if console_name_matches x needle then console_line (render (ps @ [x])) m' else Some m');
        (if de_type e = VFS_DIRECTORY then console_find_walk k (render (ps @ [x])) needle m1 else Some m1) })"
    proof (intro prints_bind prints_if prints_line prints_Some m'(2))
      fix m1 assume "shown m' m1" "screen_ok m1"
      then show "prints m1 (console_find_walk k (render (ps @ [x])) needle m1)"
        using Suc.IH d f shown_fs_at by metis
    qed
    then show ?thesis using x child_path [of ps x] m'(2) by (auto intro: prints_Some)
  qed
  show ?case using es body Suc.prems(2) by (auto intro!: prints_Some prints_for_each)
qed

lemma with_arg_prints:
  assumes "fs_at ws T m" "screen_ok m" "good_words argv"
    and "\<And>ps. dir_ok ps \<Longrightarrow> prints m (f (render ps) m)"
  shows "acts m (console_arg argv n m \<bind> (\<lambda>(p, m1). case p of None \<Rightarrow> Some m1 | Some path \<Rightarrow> f path m1)) (ws, T)"
  by (rule acts_with_arg [OF assms(1-3)]) (use assms in \<open>auto intro: acts_prints prints_Some shown_ok\<close>)

lemma ls_acts:
  assumes "fs_at ws T m" "screen_ok m" "good_words argv"
  shows "acts m (cmd_ls argv m) (ws, T)"
  unfolding cmd_ls_def by (rule with_arg_prints [OF assms]) (rule list_prints [OF assms(1,2)])

lemma tree_acts:
  assumes "fs_at ws T m" "screen_ok m" "good_words argv"
  shows "acts m (cmd_tree argv m) (ws, T)"
  unfolding cmd_tree_def
proof (rule with_arg_prints [OF assms])
  fix ps assume ps: "dir_ok ps"
  obtain rc ty where st: "stat_of (render ps) m = Some (rc, ty)" using stat_of_tree [OF assms(1) ps] by blast
  have "prints m (if rc \<noteq> 0 then console_error m else console_line (render ps) m \<bind>
      (\<lambda>m2. if ty = VFS_DIRECTORY then console_tree_walk 16 (render ps) m2 else Some m2))"
  proof (intro prints_if prints_bind prints_error prints_line prints_Some assms(2))
    fix m2 assume "shown m m2" "screen_ok m2"
    then show "prints m2 (console_tree_walk 16 (render ps) m2)"
      using tree_walk_prints ps assms(1) shown_fs_at by metis
  qed
  then show "prints m (stat_of (render ps) m \<bind> (\<lambda>(rc, ty). if rc \<noteq> 0 then console_error m else console_line (render ps) m \<bind>
      (\<lambda>m2. if ty = VFS_DIRECTORY then console_tree_walk 16 (render ps) m2 else Some m2)))"
    using st by simp
qed

lemma find_acts:
  assumes "fs_at ws T m" "screen_ok m" "good_words argv"
  shows "acts m (cmd_find argv m) (ws, T)"
  unfolding cmd_find_def Let_def
proof (rule with_arg_prints [OF assms])
  fix ps assume ps: "dir_ok ps"
  obtain rc ty where st: "stat_of (render ps) m = Some (rc, ty)" using stat_of_tree [OF assms(1) ps] by blast
  show "prints m (stat_of (render ps) m \<bind> (\<lambda>(rc, ty). if rc \<noteq> 0 then console_error m
      else if ty = VFS_FILE then
        (if console_name_matches (render ps) (if 2 < length argv then argv ! 2 else []) then console_line (render ps) m else Some m)
      else console_find_walk 16 (render ps) (if 2 < length argv then argv ! 2 else []) m))"
    using st assms(2) find_walk_prints [OF assms(1,2) ps]
    by (auto intro: prints_error prints_line prints_Some)
qed

section \<open>Every command\<close>

lemma streq_iff: "console_streq a b \<longleftrightarrow> map lower a = map lower b"
  by (induction a b rule: console_streq.induct) auto

text \<open>What the words of a line make of the working directory and the tree.\<close>

definition shell_files :: "string list \<Rightarrow> string list \<times> tree \<Rightarrow> string list \<times> tree" where
  "shell_files argv f =
     (let is_word = console_streq (argv ! 0); ws = fst f; T = snd f in
      if is_word ''cd'' then
        (case arg_at argv (path_arg argv) ws of Some ps \<Rightarrow> if tree_dir T ps then ps else ws | None \<Rightarrow> ws, T)
      else if is_word ''mkdir'' \<or> is_word ''rmdir'' \<or> is_word ''touch'' \<or> is_word ''rm'' then
        (ws, or_same T (arg_at argv 1 ws \<bind> (\<lambda>ps. file_tree (argv ! 0) ps T)))
      else if is_word ''write'' \<or> is_word ''append'' then
        (ws, if length argv < 3 then T else or_same T (arg_at argv 1 ws \<bind> (\<lambda>ps. write_tree argv ps T)))
      else if is_word ''cp'' \<or> is_word ''mv'' then (ws, copy_tree argv ws T)
      else f)"

text \<open>The two commands that end the session.\<close>

definition stops :: "string \<Rightarrow> bool" where
  "stops w \<longleftrightarrow> console_streq w ''reboot'' \<or> console_streq w ''shutdown''"

lemma run_command_acts:
  assumes f: "fs_at ws T m" "screen_ok m" "good_words argv" and "history_ok m" "\<not> stops (argv ! 0)"
  shows "acts m (run_command hw argv m) (shell_files argv (ws, T))"
proof (cases "list_ex (console_streq (argv ! 0)) acting")
  case False
  then have "shell_files argv (ws, T) = (ws, T)" by (simp add: acting_def shell_files_def)
  then show ?thesis using acts_prints [OF f(1) run_command_shows [OF f(2) assms(4) False]] by simp
next
  case True
  note acts = cd_acts [OF f] file_acts [OF f, of hw] write_acts [OF f, of hw] cat_acts [OF f, of hw] copy_cmd_acts [OF f, of hw]
    ls_acts [OF f] tree_acts [OF f] find_acts [OF f]
  define w where "w = map lower (argv ! 0)"
  have words: "console_streq (argv ! 0) x \<longleftrightarrow> w = map lower x" for x by (simp add: w_def streq_iff)
  consider "console_streq (argv ! 0) ''ls''" | "console_streq (argv ! 0) ''cd''"
    | "console_streq (argv ! 0) ''mkdir'' \<or> console_streq (argv ! 0) ''rmdir'' \<or> console_streq (argv ! 0) ''touch'' \<or> console_streq (argv ! 0) ''rm''"
    | "console_streq (argv ! 0) ''cat''" | "console_streq (argv ! 0) ''write'' \<or> console_streq (argv ! 0) ''append''"
    | "console_streq (argv ! 0) ''cp'' \<or> console_streq (argv ! 0) ''mv''"
    | "console_streq (argv ! 0) ''tree''" | "console_streq (argv ! 0) ''find''"
    using True assms(5) by (auto simp: acting_def stops_def)
  then show ?thesis
    using acts unfolding run_command_def shell_files_def Let_def fst_conv snd_conv words
    by (cases; (elim disjE)?; simp add: lower_def)
qed

section \<open>Submitting a line\<close>

definition submit :: "string \<Rightarrow> string list \<times> tree \<Rightarrow> string list \<times> tree" where
  "submit line f = (let argv = console_words line 8 in if argv = [] then f else shell_files argv f)"

definition stays :: "string \<Rightarrow> bool" where
  "stays line \<longleftrightarrow> (case words_spec line of [] \<Rightarrow> True | w # _ \<Rightarrow> \<not> stops w)"

lemma acted_fields:
  assumes "acted m m'"
  shows "past m' = past m" "halted m' = halted m" "command m' = command m" "history_ok m' = history_ok m"
    "history_index m' = history_index m" "keys m' = keys m" "dev m' = dev m" "tick_rate m' = tick_rate m"
    "console_machine.more m' = console_machine.more m"
  using assms by (rule actedE, simp add: past_def history_ok_def)+

lemma unmoved_fs_at: "unmoved m m' \<Longrightarrow> cwd m' = cwd m \<Longrightarrow> fs_at ws T m' = fs_at ws T m"
  by (simp add: unmoved_def fs_at_def)

text \<open>What running commands leaves: the queue, the devices, the clock and the rest of the machine.\<close>

definition outside :: "('d, 'm) con \<Rightarrow> ('d, 'm) con \<Rightarrow> bool" where
  "outside m m' \<longleftrightarrow> keys m' = keys m \<and> dev m' = dev m \<and> tick_rate m' = tick_rate m
     \<and> console_machine.more m' = console_machine.more m"

lemma unmoved_outside: "unmoved m m' \<Longrightarrow> outside m m'"
  by (simp add: unmoved_def outside_def)

lemma console_command_acts:
  assumes ed: "editing l r m" "screen_ok m" "history_ok m" "\<not> halted m" and f: "fs_at ws T m" and "stays (l @ r)"
  shows "\<exists>m'. console_command hw m = Some m' \<and> at_line [] [] m' \<and> history_ok m' \<and> history_index m' = 0 \<and> \<not> halted m'
    \<and> outside m m' \<and> past m' = add_line (l @ r) (past m)
    \<and> fs_at (fst (submit (l @ r) (ws, T))) (snd (submit (l @ r) (ws, T))) m'"
proof -
  obtain m4 where eq: "console_command hw m = do {
      m5 \<leftarrow> (if console_words (l @ r) 8 = [] then Some m4 else run_command hw (console_words (l @ r) 8) m4);
      (if halted m5 then Some m5 else console_prompt m5) }"
    and m4: "history_ok m4" "past m4 = add_line (l @ r) (past m)" "screen_ok m4" "\<not> halted m4" "cwd m4 = cwd m" "unmoved m m4"
      "command m4 = command m" "history_index m4 = 0"
    using console_command_line [OF ed, of hw] by blast
  have f4: "fs_at ws T m4" using f unmoved_fs_at [OF m4(6,5)] by simp
  have "length (l @ r) \<le> 127" "CHR 0x00 \<notin> set (l @ r)" using editing_bounds(1) [OF ed(1)] ed(1) by (simp_all add: editing_def)
  note good = good_words_line [OF this, of 8]
  have "\<not> stops (console_words (l @ r) 8 ! 0)" if "console_words (l @ r) 8 \<noteq> []"
    using assms(6) that by (cases "words_spec (l @ r)") (auto simp: stays_def console_words_splits)
  then have "acts m4 (if console_words (l @ r) 8 = [] then Some m4 else run_command hw (console_words (l @ r) 8) m4) (submit (l @ r) (ws, T))"
    using run_command_acts [OF f4 m4(3) good m4(1)] acts_prints [OF f4 prints_Some [OF m4(3)]] by (simp add: submit_def Let_def)
  then obtain m5 where m5: "(if console_words (l @ r) 8 = [] then Some m4 else run_command hw (console_words (l @ r) 8) m4) = Some m5"
      "acted m4 m5" "fs_at (fst (submit (l @ r) (ws, T))) (snd (submit (l @ r) (ws, T))) m5"
    by (auto simp: acts_def)
  note k = acted_fields [OF m5(2)]
  have "length (command m5) = 128" using k(3) m4(7) ed(1) by (simp add: editing_def)
  then obtain m' where m': "console_prompt m5 = Some m'" "at_line [] [] m'" "cwd m' = cwd m5" "past m' = past m5" "halted m' = halted m5"
      "unmoved m5 m'" "history_ok m' = history_ok m5" "history_index m' = history_index m5"
    using console_prompt_fresh [OF acted_ok [OF m5(2)]] by blast
  show ?thesis
    unfolding eq m5(1) using m' m4 m5(3) k unmoved_fs_at [OF m'(6,3)] by (simp add: outside_def unmoved_def)
qed

section \<open>The console refines the shell with files\<close>

type_synonym file_shell = "shell \<times> string list \<times> tree"

definition files_step :: "input_event \<Rightarrow> file_shell \<Rightarrow> file_shell" where
  "files_step e x = (shell_step (length (render (fst (snd x)))) e (fst x),
     if enters e then submit (shell_line (fst x)) (snd x) else snd x)"

text \<open>No submitted line stops the machine.\<close>

fun staying :: "input_event list \<Rightarrow> file_shell \<Rightarrow> bool" where
  "staying [] x \<longleftrightarrow> True"
| "staying (e # es) x \<longleftrightarrow> (enters e \<longrightarrow> stays (shell_line (fst x))) \<and> staying es (files_step e x)"

definition console_files :: "file_shell \<Rightarrow> ('d, 'm) con \<Rightarrow> bool" where
  "console_files x m \<longleftrightarrow> console_shell (fst x) m \<and> fs_at (fst (snd x)) (snd (snd x)) m"

lemma console_files_more [simp]:
  "console_files x (m\<lparr>cursor_visible := v\<rparr>) = console_files x m" "console_files x (m\<lparr>cursor_tick := k\<rparr>) = console_files x m"
  "console_files x (m\<lparr>keys := q\<rparr>) = console_files x m"
  by (simp_all add: console_files_def console_shell_def fs_at_def)

lemma console_cursor_files:
  assumes "console_files x m"
  shows "\<exists>m'. console_cursor m = Some m' \<and> console_files x m' \<and> outside m m'"
proof -
  obtain m' where "console_cursor m = Some m'" "console_shell (fst x) m'" "unmoved m m'" "cwd m' = cwd m"
    using console_cursor_shell [of "fst x" m] assms by (auto simp: console_files_def)
  then show ?thesis using assms unmoved_fs_at unmoved_outside by (auto simp: console_files_def)
qed

lemma console_enter_files:
  assumes "console_files x m" "stays (shell_line (fst x))" "ev_key e = INPUT_KEY_ENTER" "ev_pressed e \<noteq> 0"
  shows "\<exists>m'. handle_key hw e m = Some m' \<and> console_files (files_step e x) m' \<and> outside m m'"
proof -
  obtain l r i H ws T where x: "x = (((l, r, i), H), ws, T)" by (metis surj_pair)
  have "console_files x (m\<lparr>cursor_visible := False\<rparr>)" using assms(1) by simp
  then obtain m1 where m1: "console_cursor (m\<lparr>cursor_visible := False\<rparr>) = Some m1" "console_files x m1" "outside m m1"
    using console_cursor_files [of x "m\<lparr>cursor_visible := False\<rparr>"] by (auto simp: outside_def)
  then have "editing l r m1" "screen_ok m1" "history_ok m1" "\<not> halted m1" "past m1 = H" "fs_at ws T m1"
    by (simp_all add: x console_files_def console_shell_def represents_line_def at_line_def)
  then show ?thesis
    using console_command_acts [of l r m1 ws T hw] m1 assms(2,3,4)
    by (auto simp: x handle_key_def console_files_def console_shell_def represents_line_def outside_def files_step_def
        shell_step_def enters_def)
qed

lemma console_event_files:
  assumes "console_files x m" "enters e \<longrightarrow> stays (shell_line (fst x))"
  shows "\<exists>m'. console_event hw now e m = Some m' \<and> console_files (files_step e x) m' \<and> outside m m'"
proof (cases "enters e")
  case False
  have f: "fs_at (fst (snd x)) (snd (snd x)) m" and len: "length (render (fst (snd x))) = length (cwd m)"
    using assms(1) by (simp_all add: console_files_def fs_at_def)
  obtain m' where "console_event hw now e m = Some m'" "console_shell (shell_step (length (cwd m)) e (fst x)) m'"
      "unmoved m m'" "cwd m' = cwd m"
    using console_event_shell [of "fst x" m e hw now] assms(1) False by (auto simp: console_files_def)
  then show ?thesis
    using f len False unmoved_fs_at unmoved_outside by (auto simp: console_files_def files_step_def)
next
  case True
  then have e: "ev_key e = INPUT_KEY_ENTER" "ev_pressed e \<noteq> 0" by (simp_all add: enters_def)
  obtain m' where "handle_key hw e m = Some m'" "console_files (files_step e x) m'" "outside m m'"
    using console_enter_files [OF assms(1) _ e] assms(2) True by blast
  then show ?thesis
    using e by (auto simp: console_event_def console_files_def console_shell_def outside_def fs_at_def)
qed

text \<open>What draining the queue leaves: the devices, the clock, a valid queue and the rest of the machine.\<close>

definition beyond :: "('d, 'm) con \<Rightarrow> ('d, 'm) con \<Rightarrow> bool" where
  "beyond m m' \<longleftrightarrow> dev m' = dev m \<and> tick_rate m' = tick_rate m \<and> console_machine.more m' = console_machine.more m
     \<and> (input_inv (keys m) \<longrightarrow> input_inv (keys m'))"

lemma console_events_files:
  assumes "console_files x m" "input_inv (keys m)" "staying (input_pending (keys m)) x"
  shows "\<exists>m'. console_events hw now m = Some m' \<and> input_pending (keys m') = [] \<and> beyond m m'
    \<and> console_files (fold files_step (input_pending (keys m)) x) m'"
  using assms
proof (induction "input_pending (keys m)" arbitrary: m x)
  case Nil
  then have "read_index (keys m) = write_index (keys m)"
    using input_count_zero_iff [of "keys m"] input_pending_length [of "keys m"] by simp
  then have "console_events hw now m = Some m" by (subst console_events.simps) (simp add: input_pop_def)
  then show ?case using Nil by (simp add: beyond_def)
next
  case (Cons e es)
  let ?q = "(keys m)\<lparr>read_index := (read_index (keys m) + 1) mod 64\<rparr>"
  have ne: "read_index (keys m) \<noteq> write_index (keys m)"
    using input_count_zero_iff [of "keys m"] input_pending_length [of "keys m"] Cons.hyps(2) Cons.prems(2) by auto
  have q: "queue (keys m) ! unat (read_index (keys m)) = e" "input_pending ?q = es"
    using input_pending_pop [OF Cons.prems(2) ne] Cons.hyps(2) by simp_all
  have inv: "input_inv ?q"
    using input_inv_pop [OF Cons.prems(2), of "Some no_event"] ne by (simp add: input_pop_def)
  have ok: "enters e \<longrightarrow> stays (shell_line (fst x))" "staying es (files_step e x)"
    using Cons.prems(3) Cons.hyps(2) [symmetric] by simp_all
  have "console_files x (m\<lparr>keys := ?q\<rparr>)" using Cons.prems(1) by simp
  then obtain m1 where m1: "console_event hw now e (m\<lparr>keys := ?q\<rparr>) = Some m1" "keys m1 = ?q" "beyond m m1"
      "console_files (files_step e x) m1"
    using console_event_files [OF _ ok(1)] inv by (fastforce simp: outside_def beyond_def)
  have "\<exists>m'. console_events hw now m1 = Some m' \<and> input_pending (keys m') = [] \<and> beyond m1 m'
    \<and> console_files (fold files_step (input_pending (keys m1)) (files_step e x)) m'"
    by (rule Cons.hyps(1)) (use m1 q inv ok in \<open>simp_all add: beyond_def\<close>)
  moreover have "console_events hw now m = console_events hw now m1"
    using ne q(1) m1(1,4) by (subst console_events.simps) (simp add: input_pop_def console_files_def console_shell_def)
  ultimately show ?case using m1(2,3) q(2) Cons.hyps(2) [symmetric] by (auto simp: beyond_def)
qed

lemma console_poll_files:
  assumes "console_files x m" "input_inv (keys m)" "staying (input_pending (keys m)) x"
  shows "\<exists>m'. console_poll hw m = Some m' \<and> input_pending (keys m') = [] \<and> beyond m m'
    \<and> console_files (fold files_step (input_pending (keys m)) x) m'"
proof -
  obtain m1 where m1: "console_events hw (tick_now m) m = Some m1" "input_pending (keys m1) = []" "beyond m m1"
      "console_files (fold files_step (input_pending (keys m)) x) m1"
    using console_events_files [OF assms] by blast
  let ?m = "m1\<lparr>cursor_visible := \<not> cursor_visible m1, cursor_tick := tick_now m\<rparr>"
  have "console_files (fold files_step (input_pending (keys m)) x) ?m" using m1(4) by simp
  then show ?thesis
    using console_cursor_files m1
    by (fastforce simp: console_poll_def Let_def console_files_def console_shell_def beyond_def outside_def)
qed

lemma console_shell_files: "console_shell s (m\<lparr>records := rs, contents := cs\<rparr>) = console_shell s m"
  by (cases s; cases "fst s")
    (simp add: console_shell_def represents_line_def at_line_def editing_def screen_ok_def history_ok_def past_def)


text \<open>A console on an empty file system, with the keys of \<^verbatim>\<open>touch a\<close> and Enter waiting.\<close>

definition touch_keys :: "input_event list" where
  "touch_keys = [press INPUT_KEY_T (CHR ''t''), press INPUT_KEY_O (CHR ''o''), press INPUT_KEY_U (CHR ''u''), press INPUT_KEY_C (CHR ''c''),
     press INPUT_KEY_H (CHR ''h''), press INPUT_KEY_SPACE (CHR '' ''), press INPUT_KEY_A (CHR ''a''), press INPUT_KEY_ENTER (CHR 0x0A)]"

definition files_console :: "unit console_machine" where
  "files_console = (sample_at () \<lparr>queue = touch_keys @ replicate 56 no_event, read_index = 0, write_index = 8\<rparr> ())
     \<lparr>records := fresh_records, contents := replicate 64 (replicate 4096 0)\<rparr>"

lemma fresh_fs_at:
  "fs_at [] empty_tree ((sample_at d q x)\<lparr>records := fresh_records, contents := replicate 64 (replicate 4096 0)\<rparr>)"
proof -
  have "small_files empty_tree" by (simp add: small_files_def empty_tree_def)
  then show ?thesis by (simp add: sample_at_def fs_at_def fresh_represents stores_def dir_ok_def render_def VFS_PATH_MAX_def)
qed

lemma files_console_at:
  "console_files ((([], [], 0), []), [], empty_tree) files_console" "input_inv (keys files_console)"
  "input_pending (keys files_console) = touch_keys"
  by (simp add: console_files_def files_console_def console_shell_files sample_at_shell fresh_fs_at)
    (simp_all add: files_console_def sample_at_def input_inv_def INPUT_QUEUE_SIZE_def touch_keys_def input_pending_def input_count_def upt_rec)

lemma touch_submits: "submit ''touch a'' ([], empty_tree) = ([], empty_tree([''a''] \<mapsto> (VFS_FILE, 0)))"
proof -
  have "console_words ''touch a'' 8 = [''touch'', ''a'']" by (simp add: console_words_splits words_spec_def)
  moreover have "resolve_at [] ''a'' = Some [''a'']"
    by (simp add: resolve_at_def is_absolute_def render_def VFS_PATH_MAX_def VFS_NAME_MAX_def)
  ultimately show ?thesis
    by (simp add: submit_def shell_files_def arg_at_def file_tree_def tree_touch_def tree_create_def tree_dir_def empty_tree_def
        VFS_FILE_MAX_def lower_def Let_def)
qed

lemma touch_steps:
  "fold files_step touch_keys ((([], [], 0), []), [], empty_tree)
     = ((([], [], 0), [''touch a'']), [], empty_tree([''a''] \<mapsto> (VFS_FILE, 0)))"
  "staying touch_keys ((([], [], 0), []), [], empty_tree)"
  by (simp_all add: touch_keys_def files_step_def shell_step_def enters_def press_def ctrl_def is_printable_def add_line_def touch_submits
      stays_def words_spec_def stops_def lower_def Let_def)


text \<open>
  Moving a file onto itself: \<^verbatim>\<open>vfs_move\<close> copies the file over itself and then removes it, so that \<^verbatim>\<open>mv\<close> with the same
  path twice deletes the file.
\<close>

lemma move_onto_itself_deletes:
  assumes "tree_file T s" "small_files T"
  shows "tree_move s s T = (True, T(s := None))"
proof -
  obtain n where n: "T s = Some (VFS_FILE, n)" using assms(1) by (auto simp: tree_file_def split: option.splits)
  then have "n \<le> VFS_CONTENT_MAX" using assms(2) by (auto simp: small_files_def)
  then have "tree_copy s s T = (True, T)"
    using n assms(1) by (auto simp: tree_copy_def tree_touch_def tree_write_def min_def Let_def fun_upd_idem)
  then show ?thesis using assms(1) by (simp add: tree_move_def tree_remove_def)
qed

end
