(* ===== verification/Minos_Vmm.thy ===== *)
theory Minos_Vmm
  imports Minos_Pmm
begin

text \<open>
  The page tables of \<^verbatim>\<open>kernel/vmm.c\<close>.  Kernel pointers are 64-bit addresses, \<^verbatim>\<open>NULL\<close> is 0, and the
  64-bit words the code reads and writes through them are the function \<open>words\<close>.  The code reaches
  physical memory at \<^verbatim>\<open>MINOS_HHDM_BASE\<close> plus the physical address; that this map is in
  place is an assumption of the code that is not modelled.  The processor's own walk through the
  tables is \<open>mmu_walk\<close>, with which the theory shows what \<^verbatim>\<open>vmm_init\<close> maps.
\<close>

section \<open>Constants\<close>

definition PAGE_PRESENT :: u64 where "PAGE_PRESENT = 1"
definition PAGE_WRITE :: u64 where "PAGE_WRITE = 2"
definition PAGE_HUGE :: u64 where "PAGE_HUGE = 0x80"
definition MINOS_HHDM_BASE :: u64 where "MINOS_HHDM_BASE = 0xFFFF800000000000"
definition MINOS_HHDM_PML4_INDEX :: u64 where "MINOS_HHDM_PML4_INDEX = 256"
definition MINOS_VMM_BOOTSTRAP_PAGE_SIZE :: u64 where "MINOS_VMM_BOOTSTRAP_PAGE_SIZE = 2 * 1024 * 1024"
definition MINOS_VMM_BOOTSTRAP_MAP_LIMIT :: u64 where "MINOS_VMM_BOOTSTRAP_MAP_LIMIT = 64 * 1024 * 1024 * 1024"
definition MINOS_VMM_BOOTSTRAP_MAX_PAGES :: u64 where
  "MINOS_VMM_BOOTSTRAP_MAX_PAGES = MINOS_VMM_BOOTSTRAP_MAP_LIMIT div MINOS_VMM_BOOTSTRAP_PAGE_SIZE"

lemma vmm_sizes: "MINOS_VMM_BOOTSTRAP_PAGE_SIZE = 2097152" "MINOS_VMM_BOOTSTRAP_MAP_LIMIT = 68719476736"
  "MINOS_VMM_BOOTSTRAP_MAX_PAGES = 32768"
  by (simp_all add: MINOS_VMM_BOOTSTRAP_PAGE_SIZE_def MINOS_VMM_BOOTSTRAP_MAP_LIMIT_def MINOS_VMM_BOOTSTRAP_MAX_PAGES_def)

section \<open>State\<close>

text \<open>\<open>cr3\<close> is the processor register, \<open>flushed\<close> the addresses given to \<^verbatim>\<open>invlpg\<close>.\<close>

record vmm_state =
  pmm :: pmm_state
  words :: "u64 \<Rightarrow> u64"
  kernel_pml4 :: u64
  mapped_2mb_pages :: u64
  cr3 :: u64
  flushed :: "u64 list"
  vmm_log :: string

definition set_word :: "u64 \<Rightarrow> u64 \<Rightarrow> ('m vmm_state_scheme) \<Rightarrow> 'm vmm_state_scheme" where
  "set_word a v s = s\<lparr>words := (words s)(a := v)\<rparr>"

definition elem :: "u64 \<Rightarrow> u64 \<Rightarrow> u64" where
  "elem table i = table + 8 * i"

section \<open>Operations\<close>

definition table_alloc :: "'m vmm_state_scheme \<Rightarrow> (u64 \<times> 'm vmm_state_scheme) c_result" where
  "table_alloc s = do {
     (phys, p) \<leftarrow> pmm_alloc_frame (pmm s);
     Some (if phys = 0 then 0 else phys + MINOS_HHDM_BASE, s\<lparr>pmm := p\<rparr>)
   }"

definition table_free :: "u64 \<Rightarrow> 'm vmm_state_scheme \<Rightarrow> 'm vmm_state_scheme c_result" where
  "table_free table s =
     (if table = 0 then Some s
      else do {
        p \<leftarrow> pmm_free_frame (table - MINOS_HHDM_BASE) (pmm s);
        Some (s\<lparr>pmm := p\<rparr>)
      })"

text \<open>One level: the table an entry refers to, created when the pointer is null and \<open>cr\<close> is set.\<close>

definition next_table :: "u64 \<Rightarrow> u64 \<Rightarrow> bool \<Rightarrow> 'm vmm_state_scheme \<Rightarrow> (u64 \<times> 'm vmm_state_scheme) c_result" where
  "next_table table i cr s =
     (let t = (words s (elem table i) AND NOT 0xFFF) + MINOS_HHDM_BASE in
      if t \<noteq> 0 then Some (t, s)
      else if \<not> cr then Some (0, s)
      else do {
        (t', s1) \<leftarrow> table_alloc s;
        Some (if t' = 0 then (0, s1)
              else (t', set_word (elem table i) ((t' - MINOS_HHDM_BASE) OR PAGE_PRESENT OR PAGE_WRITE) s1))
      })"

definition table_index :: "u64 \<Rightarrow> nat \<Rightarrow> u64" where
  "table_index vaddr n = drop_bit n vaddr AND 0x1FF"

definition walk_pml4 :: "u64 \<Rightarrow> u64 \<Rightarrow> bool \<Rightarrow> u64 option \<Rightarrow> 'm vmm_state_scheme \<Rightarrow> (u64 \<times> 'm vmm_state_scheme) c_result" where
  "walk_pml4 pml4 vaddr cr out_pd s = do {
     (pdpt_table, s1) \<leftarrow> next_table pml4 (table_index vaddr 39) cr s;
     (if pdpt_table = 0 then Some (0, s1)
      else do {
        (pd_table, s2) \<leftarrow> next_table pdpt_table (table_index vaddr 30) cr s1;
        Some (if pd_table = 0 then (0, s2)
              else (elem pd_table (table_index vaddr 21),
                    case out_pd of None \<Rightarrow> s2 | Some a \<Rightarrow> set_word a pd_table s2))
      })
   }"

definition clear_table :: "u64 \<Rightarrow> 'm vmm_state_scheme \<Rightarrow> 'm vmm_state_scheme" where
  "clear_table table s = fold (\<lambda>i. set_word (elem table (of_nat i)) 0) [0..<512] s"

definition bootstrap_bytes :: "boot_info option \<Rightarrow> u64" where
  "bootstrap_bytes info =
     (let max_phys = (case info of None \<Rightarrow> 0 | Some b \<Rightarrow> total_memory_bytes b);
          map_bytes = (if max_phys = 0 then 2 * 1024 * 1024 else max_phys);
          map_bytes = (if MINOS_VMM_BOOTSTRAP_MAP_LIMIT < map_bytes then MINOS_VMM_BOOTSTRAP_MAP_LIMIT else map_bytes);
          kernel_end = (case info of None \<Rightarrow> 0 | Some b \<Rightarrow> kernel_image_base b + kernel_image_size b);
          fb_end = (case info of None \<Rightarrow> 0 | Some b \<Rightarrow> fb_base b + fb_size b);
          map_bytes = (if map_bytes < kernel_end then kernel_end else map_bytes);
          map_bytes = (if map_bytes < fb_end then fb_end else map_bytes)
      in if MINOS_VMM_BOOTSTRAP_MAP_LIMIT < map_bytes then MINOS_VMM_BOOTSTRAP_MAP_LIMIT else map_bytes)"

definition bootstrap_pages :: "boot_info option \<Rightarrow> u64" where
  "bootstrap_pages info =
     (let n = (bootstrap_bytes info + MINOS_VMM_BOOTSTRAP_PAGE_SIZE - 1) div MINOS_VMM_BOOTSTRAP_PAGE_SIZE
      in if MINOS_VMM_BOOTSTRAP_MAX_PAGES < n then MINOS_VMM_BOOTSTRAP_MAX_PAGES else n)"

text \<open>One iteration of the mapping loop; \<open>map_at\<close> is the walk and the store through its result.\<close>

definition map_at :: "u64 \<Rightarrow> u64 \<Rightarrow> 'm vmm_state_scheme \<Rightarrow> (bool \<times> 'm vmm_state_scheme) c_result" where
  "map_at vaddr phys s = do {
     (pd, s1) \<leftarrow> walk_pml4 (kernel_pml4 s) vaddr True None s;
     Some (if pd = 0 then (False, s1)
           else (True, set_word (elem pd (table_index vaddr 21)) (phys OR PAGE_PRESENT OR PAGE_WRITE OR PAGE_HUGE) s1))
   }"

definition map_page :: "u64 \<Rightarrow> 'm vmm_state_scheme \<Rightarrow> 'm vmm_state_scheme c_result" where
  "map_page i s =
     (let vaddr = i * MINOS_VMM_BOOTSTRAP_PAGE_SIZE in do {
        (ok, s1) \<leftarrow> map_at vaddr vaddr s;
        (if \<not> ok then Some s1
         else do {
           (ok2, s2) \<leftarrow> map_at (MINOS_HHDM_BASE + vaddr) vaddr s1;
           Some s2
         })
      })"

definition vmm_init :: "boot_info option \<Rightarrow> 'm vmm_state_scheme \<Rightarrow> 'm vmm_state_scheme c_result" where
  "vmm_init info s0 = do {
     (k, s1) \<leftarrow> table_alloc s0;
     (let s1 = s1\<lparr>kernel_pml4 := k\<rparr> in
      if k = 0 then Some (s1\<lparr>vmm_log := vmm_log s1 @ ''[MinOS VMM] FATAL: PML4 allocation failed'' @ [CHR 0x0A]\<rparr>)
      else do {
        (p, s2) \<leftarrow> table_alloc (clear_table k s1);
        (if p = 0 then Some (s2\<lparr>vmm_log := vmm_log s2 @ ''[MinOS VMM] FATAL: PDPT allocation failed'' @ [CHR 0x0A]\<rparr>)
         else
           let e = (p - MINOS_HHDM_BASE) OR PAGE_PRESENT OR PAGE_WRITE;
               s3 = set_word (elem k MINOS_HHDM_PML4_INDEX) e (set_word (elem k 0) e (clear_table p s2));
               n = bootstrap_pages info;
               s4 = s3\<lparr>mapped_2mb_pages := n\<rparr>
           in do {
             s5 \<leftarrow> for_each (\<lambda>i. map_page (of_nat i)) [0..<unat n] s4;
             (let s6 = s5\<lparr>cr3 := k - MINOS_HHDM_BASE\<rparr> in
              Some (s6\<lparr>vmm_log := vmm_log s6 @
                the (format_text (''[MinOS VMM] CR3=%p, HHDM=%p, 2 MiB pages=%u (%u GiB)'' @ [CHR 0x0A])
                  [Num (k - MINOS_HHDM_BASE), Num MINOS_HHDM_BASE, Num (ucast (ucast n :: u32)),
                   Num (ucast (ucast (n * 2 div 1024) :: u32))])\<rparr>))
           })
      })
   }"

definition vmm_map_user_page :: "u64 \<Rightarrow> u64 \<Rightarrow> 'm vmm_state_scheme \<Rightarrow> (int \<times> 'm vmm_state_scheme) c_result" where
  "vmm_map_user_page physical virtual_address s =
     (if physical = 0 \<or> physical AND 4095 \<noteq> 0 then Some (-1, s)
      else if virtual_address = 0 \<or> virtual_address AND 4095 \<noteq> 0 then Some (-1, s)
      else if MINOS_HHDM_BASE \<le> virtual_address then Some (-1, s)
      else do {
        (pte, s1) \<leftarrow> walk_pml4 (kernel_pml4 s) virtual_address True None s;
        Some (if pte = 0 then (-1, s1)
              else (0, set_word pte (physical OR PAGE_PRESENT OR PAGE_WRITE OR 4) s1))
      })"

definition vmm_unmap_user_page :: "u64 \<Rightarrow> 'm vmm_state_scheme \<Rightarrow> (int \<times> 'm vmm_state_scheme) c_result" where
  "vmm_unmap_user_page virtual_address s =
     (if virtual_address = 0 \<or> virtual_address AND 4095 \<noteq> 0 then Some (-1, s)
      else if MINOS_HHDM_BASE \<le> virtual_address then Some (-1, s)
      else do {
        (pte, s1) \<leftarrow> walk_pml4 (kernel_pml4 s) virtual_address False None s;
        Some (if pte = 0 then (-1, s1)
              else let s2 = set_word pte 0 s1 in (0, s2\<lparr>flushed := flushed s2 @ [virtual_address]\<rparr>))
      })"

definition vmm_physical_to_virtual :: "u64 \<Rightarrow> u64" where
  "vmm_physical_to_virtual physical = MINOS_HHDM_BASE + physical"

definition vmm_mapped_bytes :: "'m vmm_state_scheme \<Rightarrow> u64" where
  "vmm_mapped_bytes s = mapped_2mb_pages s * MINOS_VMM_BOOTSTRAP_PAGE_SIZE"


section \<open>The processor's view\<close>

text \<open>
  The translation of a virtual address by the processor: four levels, a 1 GiB page at the second and
  a 2 MiB page at the third when the entry has the bit \<open>PAGE_HUGE\<close>; \<^term>\<open>None\<close> is a page
  fault.  Physical memory is read where the kernel reaches it.
\<close>

definition mmu_entry :: "(u64 \<Rightarrow> u64) \<Rightarrow> u64 \<Rightarrow> u64 \<Rightarrow> u64 option" where
  "mmu_entry w table i =
     (let e = w (elem (MINOS_HHDM_BASE + table) i) in if e AND PAGE_PRESENT = 0 then None else Some e)"

definition frame_bits :: "u64 \<Rightarrow> u64" where
  "frame_bits e = e AND 0xFFFFFFFFFF000"

definition mmu_walk :: "(u64 \<Rightarrow> u64) \<Rightarrow> u64 \<Rightarrow> u64 \<Rightarrow> u64 option" where
  "mmu_walk w root va = do {
     pml4e \<leftarrow> mmu_entry w (frame_bits root) (table_index va 39);
     pdpte \<leftarrow> mmu_entry w (frame_bits pml4e) (table_index va 30);
     (if pdpte AND PAGE_HUGE \<noteq> 0 then Some ((frame_bits pdpte AND NOT (mask 30)) OR (va AND mask 30))
      else do {
        pde \<leftarrow> mmu_entry w (frame_bits pdpte) (table_index va 21);
        (if pde AND PAGE_HUGE \<noteq> 0 then Some ((frame_bits pde AND NOT (mask 21)) OR (va AND mask 21))
         else do {
           pte \<leftarrow> mmu_entry w (frame_bits pde) (table_index va 12);
           Some (frame_bits pte OR (va AND mask 12))
         })
      })
   }"

section \<open>Addresses\<close>

lemma hhdm_null_iff: "x + MINOS_HHDM_BASE = 0 \<longleftrightarrow> x = 0x800000000000"
proof -
  have "0x800000000000 + MINOS_HHDM_BASE = 0" by (simp add: MINOS_HHDM_BASE_def)
  then show ?thesis by (metis add_right_cancel)
qed

lemma entry_frame:
  assumes "n < 2 ^ 24"
  shows "(frame_addr n OR PAGE_PRESENT OR PAGE_WRITE) AND NOT 0xFFF = frame_addr n"
    and "frame_bits (frame_addr n OR PAGE_PRESENT OR PAGE_WRITE) = frame_addr n"
    and "frame_bits (frame_addr n) = frame_addr n"
    and "(frame_addr n OR PAGE_PRESENT OR PAGE_WRITE) AND PAGE_PRESENT \<noteq> 0"
    and "frame_addr n \<noteq> 0x800000000000"
proof -
  have f: "frame_addr n = push_bit 12 (of_nat n)" by (simp add: frame_addr_def push_bit_eq_mult)
  have m: "(0xFFF :: u64) = mask 12" "(0xFFFFFFFFFF000 :: u64) = push_bit 12 (mask 40)"
    by (simp_all add: mask_eq_exp_minus_1)
  have p: "PAGE_PRESENT OR PAGE_WRITE = mask 2" by (simp add: PAGE_PRESENT_def PAGE_WRITE_def mask_eq_exp_minus_1)
  have hi: "j < 40" if "bit n j" for j
  proof -
    have "bit (take_bit 24 n) j" using assms that by (simp only: take_bit_nat_eq_self)
    then show ?thesis by (simp add: bit_take_bit_iff)
  qed
  show "(frame_addr n OR PAGE_PRESENT OR PAGE_WRITE) AND NOT 0xFFF = frame_addr n"
    unfolding f m p
    by (rule bit_word_eqI) (auto simp: bit_simps)
  show "frame_bits (frame_addr n OR PAGE_PRESENT OR PAGE_WRITE) = frame_addr n"
    unfolding f m p frame_bits_def by (rule bit_word_eqI) (auto simp: bit_simps dest: hi)
  show "frame_bits (frame_addr n) = frame_addr n"
    unfolding f m frame_bits_def by (rule bit_word_eqI) (auto simp: bit_simps dest: hi)
  have "bit ((frame_addr n OR PAGE_PRESENT OR PAGE_WRITE) AND PAGE_PRESENT) 0"
    by (simp add: PAGE_PRESENT_def bit_simps)
  then show "(frame_addr n OR PAGE_PRESENT OR PAGE_WRITE) AND PAGE_PRESENT \<noteq> 0" by auto
  show "frame_addr n \<noteq> 0x800000000000"
    using assms unat_frame_addr [of n] by auto
qed

lemma table_index_bound: "unat (table_index va n) < 512"
  using and_mask_mod [of "drop_bit n va" 9] by (simp add: table_index_def mask_eq_exp_minus_1 unat_mod)

lemma unat_table_index: "unat (table_index va n) = unat va div 2 ^ n mod 512"
proof -
  have "table_index va n = drop_bit n va mod 512"
    using and_mask_mod [of "drop_bit n va" 9] by (simp add: table_index_def mask_eq_exp_minus_1)
  moreover have "unat (drop_bit n va) = unat va div 2 ^ n"
    by (simp only: unat_drop_bit_eq) (simp only: drop_bit_eq_div)
  ultimately show ?thesis by (simp only: unat_mod) simp
qed

lemma table_elem: "elem (MINOS_HHDM_BASE + frame_addr n) (of_nat i) = MINOS_HHDM_BASE + of_nat (4096 * n + 8 * i)"
  by (simp add: elem_def frame_addr_def algebra_simps)

lemma hhdm_inj:
  assumes "d < 2 ^ 40" "e < 2 ^ 40"
  shows "MINOS_HHDM_BASE + of_nat d = MINOS_HHDM_BASE + of_nat e \<longleftrightarrow> d = e"
proof -
  have "d = e" if "(of_nat d :: u64) = of_nat e"
  proof -
    have "unat (of_nat d :: u64) = unat (of_nat e :: u64)" using that by simp
    then show ?thesis using assms by (simp add: unat_of_nat_small)
  qed
  then show ?thesis by auto
qed

lemma table_elem_inj:
  assumes "a < 2 ^ 24" "i < 512" "d < 2 ^ 40"
  shows "elem (MINOS_HHDM_BASE + frame_addr a) (of_nat i) = MINOS_HHDM_BASE + of_nat d \<longleftrightarrow> 4096 * a + 8 * i = d"
  unfolding table_elem using assms by (intro hhdm_inj) auto

lemma table_elem_eq_iff:
  assumes "a < 2 ^ 24" "b < 2 ^ 24" "i < 512" "j < 512"
  shows "elem (MINOS_HHDM_BASE + frame_addr a) (of_nat i) = elem (MINOS_HHDM_BASE + frame_addr b) (of_nat j)
    \<longleftrightarrow> a = b \<and> i = j"
proof -
  have "(512 * a + i) div 512 = a" "(512 * b + j) div 512 = b" using assms(3,4) by simp_all
  then have "512 * a + i = 512 * b + j \<Longrightarrow> a = b" by metis
  then have "4096 * a + 8 * i = 4096 * b + 8 * j \<longleftrightarrow> a = b \<and> i = j" by auto
  then show ?thesis
    using table_elem_inj [OF assms(1,3), of "4096 * b + 8 * j"] assms by (simp add: table_elem [of b j])
qed

lemma page_unat:
  assumes "i < 32768"
  shows "unat (of_nat i * MINOS_VMM_BOOTSTRAP_PAGE_SIZE :: u64) = i * 2 ^ 21"
    and "unat (MINOS_HHDM_BASE + of_nat i * MINOS_VMM_BOOTSTRAP_PAGE_SIZE) = 0xFFFF800000000000 + i * 2 ^ 21"
proof -
  show v: "unat (of_nat i * MINOS_VMM_BOOTSTRAP_PAGE_SIZE :: u64) = i * 2 ^ 21"
    using assms by (simp add: vmm_sizes unat_word_ariths unat_of_nat_small)
  show "unat (MINOS_HHDM_BASE + of_nat i * MINOS_VMM_BOOTSTRAP_PAGE_SIZE) = 0xFFFF800000000000 + i * 2 ^ 21"
    using assms unfolding unat_add_lem v by (simp add: unat_word_ariths(1) v MINOS_HHDM_BASE_def)
qed

lemma page_index:
  assumes "i < 32768"
  shows "table_index (of_nat i * MINOS_VMM_BOOTSTRAP_PAGE_SIZE) 39 = of_nat 0"
    and "table_index (of_nat i * MINOS_VMM_BOOTSTRAP_PAGE_SIZE) 21 = of_nat (i mod 512)"
    and "table_index (MINOS_HHDM_BASE + of_nat i * MINOS_VMM_BOOTSTRAP_PAGE_SIZE) 39 = of_nat 256"
    and "table_index (MINOS_HHDM_BASE + of_nat i * MINOS_VMM_BOOTSTRAP_PAGE_SIZE) 21 = of_nat (i mod 512)"
proof -
  have "(0xFFFF800000000000 + i * 2 ^ 21) div 2 ^ 39 = (0x1FFFF00 :: nat)" using assms by simp
  moreover have "(0xFFFF800000000000 + i * 2 ^ 21) div 2 ^ 21 = (0x7FFFC000000 :: nat) + i" by simp
  moreover have "((0x7FFFC000000 :: nat) + i) mod 512 = i mod 512"
    using mod_mult_self2 [of i 512 17179738112] by (simp add: add.commute)
  ultimately show
    "table_index (of_nat i * MINOS_VMM_BOOTSTRAP_PAGE_SIZE) 39 = of_nat 0"
    "table_index (of_nat i * MINOS_VMM_BOOTSTRAP_PAGE_SIZE) 21 = of_nat (i mod 512)"
    "table_index (MINOS_HHDM_BASE + of_nat i * MINOS_VMM_BOOTSTRAP_PAGE_SIZE) 39 = of_nat 256"
    "table_index (MINOS_HHDM_BASE + of_nat i * MINOS_VMM_BOOTSTRAP_PAGE_SIZE) 21 = of_nat (i mod 512)"
    using assms by (auto intro!: word_unat_eqI simp: unat_table_index page_unat unat_of_nat_small)
qed

section \<open>The walk never creates a table\<close>

lemma next_table_eq:
  assumes "words s (elem table i) AND NOT 0xFFF \<noteq> 0x800000000000"
  shows "next_table table i cr s = Some ((words s (elem table i) AND NOT 0xFFF) + MINOS_HHDM_BASE, s)"
  using assms by (simp add: next_table_def hhdm_null_iff Let_def)

lemma walk_pml4_eq:
  assumes "words s (elem pml4 (table_index va 39)) AND NOT 0xFFF = frame_addr b" "b < 2 ^ 24"
    and "words s (elem (MINOS_HHDM_BASE + frame_addr b) (table_index va 30)) = 0"
  shows "walk_pml4 pml4 va cr None s = Some (elem MINOS_HHDM_BASE (table_index va 21), s)"
proof -
  have "next_table pml4 (table_index va 39) cr s = Some (MINOS_HHDM_BASE + frame_addr b, s)"
    using assms(1,2) entry_frame(5) [of b] by (simp add: next_table_eq add.commute)
  moreover have "MINOS_HHDM_BASE + frame_addr b \<noteq> 0"
    using assms(2) entry_frame(5) [of b] hhdm_null_iff [of "frame_addr b"] by (simp add: add.commute)
  moreover have "next_table (MINOS_HHDM_BASE + frame_addr b) (table_index va 30) cr s = Some (MINOS_HHDM_BASE, s)"
    using assms(3) by (simp add: next_table_eq)
  moreover have "MINOS_HHDM_BASE \<noteq> 0" by (simp add: MINOS_HHDM_BASE_def)
  ultimately show ?thesis by (simp add: walk_pml4_def)
qed

text \<open>
  The tables as \<^verbatim>\<open>vmm_init\<close> leaves them before its loop: the top table in frame \<open>a\<close>
  refers twice to the table in frame \<open>b\<close>, which is empty.
\<close>

definition empty_tables :: "nat \<Rightarrow> nat \<Rightarrow> (u64 \<Rightarrow> u64) \<Rightarrow> bool" where
  "empty_tables a b w \<longleftrightarrow> a < 2 ^ 24 \<and> b < 2 ^ 24 \<and> a \<noteq> b
     \<and> (\<forall>i < 512. w (elem (MINOS_HHDM_BASE + frame_addr a) (of_nat i)) =
          (if i = 0 \<or> i = 256 then frame_addr b OR PAGE_PRESENT OR PAGE_WRITE else 0))
     \<and> (\<forall>i < 512. w (elem (MINOS_HHDM_BASE + frame_addr b) (of_nat i)) = 0)"

lemma index_of_nat: obtains i where "i < 512" "table_index va n = of_nat i"
  by (rule that [of "unat (table_index va n)"]) (simp_all add: table_index_bound)

lemma empty_tables_walk:
  assumes "empty_tables a b (words s)" "kernel_pml4 s = MINOS_HHDM_BASE + frame_addr a"
    and "table_index va 39 = of_nat k" "k = 0 \<or> k = 256"
  shows "walk_pml4 (kernel_pml4 s) va cr None s = Some (elem MINOS_HHDM_BASE (table_index va 21), s)"
proof -
  obtain i where "i < 512" "table_index va 30 = of_nat i" by (rule index_of_nat)
  moreover have "words s (elem (kernel_pml4 s) (of_nat k)) = frame_addr b OR PAGE_PRESENT OR PAGE_WRITE"
  proof -
    have "k < 512" using assms(4) by auto
    then show ?thesis using assms(1,2,4) unfolding empty_tables_def by metis
  qed
  ultimately show ?thesis
    using assms(1,3) entry_frame(1) [of b] by (intro walk_pml4_eq [of _ _ _ b]) (simp_all add: empty_tables_def)
qed

lemma empty_tables_store:
  assumes "empty_tables a b w" "d < 4096 * a" "d < 4096 * b"
  shows "empty_tables a b (w(MINOS_HHDM_BASE + of_nat d := v))"
proof -
  have "elem (MINOS_HHDM_BASE + frame_addr c) (of_nat i) \<noteq> MINOS_HHDM_BASE + of_nat d"
    if "c = a \<or> c = b" "i < 512" for c i
    using that assms by (subst table_elem_inj) (auto simp: empty_tables_def)
  then show ?thesis using assms(1) by (simp add: empty_tables_def)
qed

lemma empty_tables_fault:
  assumes "empty_tables a b w"
  shows "mmu_walk w (frame_addr a) va = None"
proof -
  obtain i j where i: "i < 512" "table_index va 39 = of_nat i" and j: "j < 512" "table_index va 30 = of_nat j"
    using index_of_nat by metis
  have "mmu_entry w (frame_addr b) (of_nat j) = None"
    using assms j by (simp add: mmu_entry_def empty_tables_def)
  moreover have "mmu_entry w (frame_addr a) (of_nat i) =
      (if i = 0 \<or> i = 256 then Some (frame_addr b OR PAGE_PRESENT OR PAGE_WRITE) else None)"
    using assms i entry_frame(4) [of b] by (simp add: mmu_entry_def empty_tables_def)
  ultimately show ?thesis
    using assms entry_frame(2) [of b] entry_frame(3) [of a] i j by (simp add: mmu_walk_def empty_tables_def)
qed

lemma hhdm_elem:
  assumes "d < 512"
  shows "elem MINOS_HHDM_BASE (of_nat d) \<noteq> 0"
proof -
  have "of_nat (8 * d) \<noteq> (0x800000000000 :: u64)"
    using assms unat_of_nat_small [of "8 * d", where 'a = 64] by auto
  then show ?thesis
    using hhdm_null_iff [of "of_nat (8 * d)"] by (simp add: elem_def add.commute)
qed

lemma map_at_eq:
  assumes "empty_tables a b (words s)" "kernel_pml4 s = MINOS_HHDM_BASE + frame_addr a"
    and "table_index va 39 = of_nat k" "k = 0 \<or> k = 256" "table_index va 21 = of_nat d" "d < 512"
  shows "map_at va phys s =
    Some (True, set_word (MINOS_HHDM_BASE + of_nat (16 * d)) (phys OR PAGE_PRESENT OR PAGE_WRITE OR PAGE_HUGE) s)"
proof -
  have "elem MINOS_HHDM_BASE (of_nat d) \<noteq> 0" using assms(6) by (rule hhdm_elem)
  then show ?thesis
    using empty_tables_walk [OF assms(1-4)] assms(5) by (simp add: map_at_def elem_def add.commute [of _ MINOS_HHDM_BASE])
qed

text \<open>The loop stores its entries into the first 8 KiB of physical memory.\<close>

definition init_kept :: "nat \<Rightarrow> nat \<Rightarrow> 'm vmm_state_scheme \<Rightarrow> 'm vmm_state_scheme \<Rightarrow> bool" where
  "init_kept a b s0 s \<longleftrightarrow> empty_tables a b (words s) \<and> (\<exists>w. s = s0\<lparr>words := w\<rparr>)"

lemma init_kept_store:
  assumes "init_kept a b s0 s" "d < 4096 * a" "d < 4096 * b"
  shows "init_kept a b s0 (set_word (MINOS_HHDM_BASE + of_nat d) v s)"
  using assms empty_tables_store [of a b "words s" d v] by (auto simp: init_kept_def set_word_def)

lemma map_page_kept:
  assumes "init_kept a b s0 s" "kernel_pml4 s0 = MINOS_HHDM_BASE + frame_addr a"
    and "i < 32768" "16 * (i mod 512) < 4096 * a" "16 * (i mod 512) < 4096 * b"
  shows "\<exists>s'. map_page (of_nat i) s = Some s' \<and> init_kept a b s0 s'"
proof -
  have k: "kernel_pml4 t = MINOS_HHDM_BASE + frame_addr a" "empty_tables a b (words t)" if "init_kept a b s0 t" for t
    using that assms(2) by (auto simp: init_kept_def)
  have m: "i mod 512 < 512" by simp
  define va where "va = (of_nat i :: u64) * MINOS_VMM_BOOTSTRAP_PAGE_SIZE"
  note px = page_index [OF assms(3), folded va_def]
  obtain s1 where s1: "map_at va va s = Some (True, s1)" "init_kept a b s0 s1"
    using map_at_eq [OF k(2,1) px(1) _ px(2) m] init_kept_store assms(1,4,5) by blast
  obtain s2 where "map_at (MINOS_HHDM_BASE + va) va s1 = Some (True, s2)" "init_kept a b s0 s2"
    using map_at_eq [OF k(2,1) px(3) _ px(4) m] init_kept_store s1(2) assms(4,5) by blast
  with s1 show ?thesis by (simp add: map_page_def va_def [symmetric])
qed

lemma clear_table_words:
  "words (clear_table table s) x = (if \<exists>i < 512. x = elem table (of_nat i) then 0 else words s x)"
proof -
  have "words (fold (\<lambda>i. set_word (elem table (of_nat i)) 0) is s) x =
      (if \<exists>i \<in> set is. x = elem table (of_nat i) then 0 else words s x)" for "is" :: "nat list"
    by (induction "is" arbitrary: s) (auto simp: set_word_def)
  then show ?thesis by (auto simp: clear_table_def)
qed

lemma pmm_alloc_frame_some:
  assumes "pmm_ok p" "pmm_alloc_frame p = Some (f, p')" "f \<noteq> 0"
  obtains m where "m < 2 ^ 24" "\<not> frame_used p m" "f = frame_addr m" "p' = take_frame m p"
proof -
  have "alloc_outcome 1 p (f, p')"
    using alloc_loop_outcome [OF assms(1), of 1] assms(2) by (auto simp: pmm_alloc_frame_def)
  then obtain m where "m < unat (total_frames p)" "\<not> frame_used p m" "f = frame_addr m" "p' = take_frame m p"
    using assms(3) by (auto simp: alloc_outcome_def)
  then show thesis using that [of m] assms(1) by (simp add: pmm_ok_def)
qed

lemma bootstrap_pages_bound: "unat (bootstrap_pages info) \<le> 32768"
  by (auto simp: bootstrap_pages_def Let_def vmm_sizes word_less_nat_alt not_less)

lemma cleared_tables:
  assumes "a < 2 ^ 24" "b < 2 ^ 24" "a \<noteq> b"
    and "w = words (clear_table (MINOS_HHDM_BASE + frame_addr b) s)"
    and "\<And>i. i < 512 \<Longrightarrow> words s (elem (MINOS_HHDM_BASE + frame_addr a) (of_nat i)) = 0"
  shows "empty_tables a b
    (w(elem (MINOS_HHDM_BASE + frame_addr a) 0 := frame_addr b OR PAGE_PRESENT OR PAGE_WRITE,
       elem (MINOS_HHDM_BASE + frame_addr a) MINOS_HHDM_PML4_INDEX := frame_addr b OR PAGE_PRESENT OR PAGE_WRITE))"
proof -
  note eqs = table_elem_eq_iff [of a a _ 0] table_elem_eq_iff [of a a _ 256] table_elem_eq_iff [of b a _ 0]
    table_elem_eq_iff [of b a _ 256] table_elem_eq_iff [of a b]
  show ?thesis
    unfolding empty_tables_def
    using assms eqs by (auto simp: clear_table_words MINOS_HHDM_PML4_INDEX_def)
qed

lemma clear_table_fields [simp]:
  "pmm (clear_table table s) = pmm s" "kernel_pml4 (clear_table table s) = kernel_pml4 s"
proof -
  have "pmm (fold (\<lambda>i. set_word (elem table (of_nat i)) 0) is s) = pmm s"
    "kernel_pml4 (fold (\<lambda>i. set_word (elem table (of_nat i)) 0) is s) = kernel_pml4 s" for "is" :: "nat list"
    by (induction "is" arbitrary: s) (auto simp: set_word_def)
  then show "pmm (clear_table table s) = pmm s" "kernel_pml4 (clear_table table s) = kernel_pml4 s"
    by (simp_all add: clear_table_def)
qed

text \<open>The state in which the loop starts, with the tables in frames \<open>a\<close> and \<open>b\<close>.\<close>

definition tables_ready ::
  "nat \<Rightarrow> nat \<Rightarrow> u64 \<Rightarrow> 'm vmm_state_scheme \<Rightarrow> 'm vmm_state_scheme" where
  "tables_ready a b n s =
     (let e = frame_addr b OR PAGE_PRESENT OR PAGE_WRITE;
          k = MINOS_HHDM_BASE + frame_addr a;
          s1 = clear_table k (s\<lparr>pmm := take_frame a (pmm s), kernel_pml4 := k\<rparr>);
          s2 = clear_table (MINOS_HHDM_BASE + frame_addr b) (s1\<lparr>pmm := take_frame b (pmm s1)\<rparr>)
      in (set_word (elem k MINOS_HHDM_PML4_INDEX) e (set_word (elem k 0) e s2))\<lparr>mapped_2mb_pages := n\<rparr>)"

lemma tables_ready_kept:
  assumes "a < 2 ^ 24" "b < 2 ^ 24" "a \<noteq> b"
  shows "init_kept a b (tables_ready a b n s) (tables_ready a b n s)"
    and "kernel_pml4 (tables_ready a b n s) = MINOS_HHDM_BASE + frame_addr a"
    and "pmm (tables_ready a b n s) = take_frame b (take_frame a (pmm s))"
    and "mapped_2mb_pages (tables_ready a b n s) = n"
proof -
  have "empty_tables a b (words (tables_ready a b n s))"
    unfolding tables_ready_def Let_def set_word_def
    by simp (rule cleared_tables [OF assms refl], auto simp: clear_table_words)
  then show "init_kept a b (tables_ready a b n s) (tables_ready a b n s)"
    by (auto simp: init_kept_def intro: exI [of _ "words (tables_ready a b n s)"])
qed (simp_all add: tables_ready_def set_word_def Let_def)

lemma hhdm_frame:
  assumes "a < 2 ^ 24"
  shows "MINOS_HHDM_BASE + frame_addr a \<noteq> 0" "MINOS_HHDM_BASE + frame_addr a - MINOS_HHDM_BASE = frame_addr a"
  using hhdm_null_iff [of "frame_addr a"] entry_frame(5) [OF assms] by (auto simp: add.commute)

lemma map_pages_kept:
  assumes "init_kept a b s s" "kernel_pml4 s = MINOS_HHDM_BASE + frame_addr a" "n \<le> 32768"
    and "16 * min n 512 \<le> 4096 * a" "16 * min n 512 \<le> 4096 * b"
  shows "\<exists>s'. for_each (\<lambda>i. map_page (of_nat i)) [0..<n] s = Some s' \<and> init_kept a b s s'"
proof (rule for_each_invariant [where I = "init_kept a b s", OF assms(1)])
  fix i t
  assume i: "i \<in> set [0..<n]" and t: "init_kept a b s t"
  have "i mod 512 < min n 512" using i by (simp add: le_less_trans [OF mod_less_eq_dividend])
  then show "\<exists>t'. map_page (of_nat i) t = Some t' \<and> init_kept a b s t'"
    using i t assms by (intro map_page_kept) auto
qed

lemma vmm_init_run:
  assumes "a < 2 ^ 24" "pmm_alloc_frame (pmm s) = Some (frame_addr a, take_frame a (pmm s))" "frame_addr a \<noteq> 0"
    and "b < 2 ^ 24" "pmm_alloc_frame (take_frame a (pmm s)) = Some (frame_addr b, take_frame b (take_frame a (pmm s)))"
      "frame_addr b \<noteq> 0"
  shows "\<exists>l. vmm_init info s = map_option (\<lambda>s'. s'\<lparr>cr3 := frame_addr a, vmm_log := vmm_log s' @ l\<rparr>)
    (for_each (\<lambda>i. map_page (of_nat i)) [0..<unat (bootstrap_pages info)] (tables_ready a b (bootstrap_pages info) s))"
  using assms hhdm_frame [OF assms(1)] hhdm_frame [OF assms(4)]
  by (simp add: vmm_init_def table_alloc_def tables_ready_def Let_def add.commute [of _ MINOS_HHDM_BASE]
      map_conv_bind_option comp_def del: format_text.simps) (rule exI, rule refl)

section \<open>The bootstrap map\<close>

text \<open>
  \<^verbatim>\<open>vmm_init\<close> tests the pointer to a lower table for \<^verbatim>\<open>NULL\<close> after it has added
  \<^verbatim>\<open>MINOS_HHDM_BASE\<close>, so the test never fires: it allocates the two frames of its own, never a
  page directory, and stores its 2 MiB entries through the pointer to physical address 0.  When these
  stores do not run into the tables, no virtual address at all translates after the load of
  \<^verbatim>\<open>CR3\<close>, although the call reports that it has mapped the memory.
\<close>

lemma vmm_init_maps_nothing:
  fixes s :: "'m vmm_state_scheme"
  assumes "pmm_ok (pmm s)"
    and "pmm_alloc_frame (pmm s) = Some (f, p)" "f \<noteq> 0" "16 * min (unat (bootstrap_pages info)) 512 \<le> unat f"
    and "pmm_alloc_frame p = Some (g, q)" "g \<noteq> 0" "16 * min (unat (bootstrap_pages info)) 512 \<le> unat g"
  shows "\<exists>s'. vmm_init info s = Some s' \<and> cr3 s' = f \<and> pmm s' = q
    \<and> vmm_mapped_bytes s' = bootstrap_pages info * MINOS_VMM_BOOTSTRAP_PAGE_SIZE
    \<and> (\<forall>va. mmu_walk (words s') (cr3 s') va = None)"
proof -
  obtain a where a: "a < 2 ^ 24" "f = frame_addr a" "p = take_frame a (pmm s)"
    using pmm_alloc_frame_some [OF assms(1-3)] by metis
  then have "pmm_ok p" using assms(1) by simp
  then obtain b where b: "b < 2 ^ 24" "\<not> frame_used p b" "g = frame_addr b" "q = take_frame b p"
    using pmm_alloc_frame_some [OF _ assms(5,6)] by metis
  have ab: "a \<noteq> b" using a(3) b(2) by auto
  let ?n = "bootstrap_pages info"
  note ready = tables_ready_kept [OF a(1) b(1) ab, of ?n s]
  have "16 * min (unat ?n) 512 \<le> 4096 * a" "16 * min (unat ?n) 512 \<le> 4096 * b"
    using assms(4,7) unat_frame_addr [OF a(1)] unat_frame_addr [OF b(1)] a b by (simp_all add: mult.commute)
  then obtain t where t: "for_each (\<lambda>i. map_page (of_nat i)) [0..<unat ?n] (tables_ready a b ?n s) = Some t"
      "init_kept a b (tables_ready a b ?n s) t"
    using map_pages_kept [OF ready(1,2) bootstrap_pages_bound] by blast
  then have "pmm t = q" "mapped_2mb_pages t = ?n" "\<forall>va. mmu_walk (words t) f va = None"
    using ready a b empty_tables_fault by (auto simp: init_kept_def)
  moreover obtain l where "vmm_init info s = map_option (\<lambda>s'. s'\<lparr>cr3 := frame_addr a, vmm_log := vmm_log s' @ l\<rparr>) (Some t)"
    using vmm_init_run [OF a(1) _ _ b(1), of s info] assms a b t(1) by auto
  ultimately show ?thesis using a by (simp add: vmm_mapped_bytes_def)
qed

text \<open>A machine with 128 MiB of memory and three free frames.\<close>

definition sample_vmm :: vmm_state where
  "sample_vmm = \<lparr>pmm = \<lparr>bitmap = (\<lambda>_. 0), total_frames = 4, free_frames = 3, reserved_bytes_total = 0, pmm_log = []\<rparr>,
     words = (\<lambda>_. 0xFFFFFFFFFFFFFFFF), kernel_pml4 = 0, mapped_2mb_pages = 0, cr3 = 0, flushed = [], vmm_log = []\<rparr>"

definition sample_vmm_info :: boot_info where
  "sample_vmm_info = zero_boot_info\<lparr>total_memory_bytes := 0x8000000\<rparr>"

lemma sample_vmm_frames:
  "pmm_alloc_frame (pmm sample_vmm) = Some (0x1000, take_frame 1 (pmm sample_vmm))"
  "pmm_alloc_frame (take_frame 1 (pmm sample_vmm)) = Some (0x2000, take_frame 2 (take_frame 1 (pmm sample_vmm)))"
  by (simp_all add: sample_vmm_def pmm_alloc_frame_def alloc_loop.simps [of 1] alloc_loop.simps [of 2]
      bitmap_eqs frame_used_def mark_def take_frame_def word_less_nat_alt bit_simps)

lemma sample_vmm_pages: "bootstrap_pages (Some sample_vmm_info) = 64"
  by (simp add: bootstrap_pages_def bootstrap_bytes_def sample_vmm_info_def zero_boot_info_def vmm_sizes Let_def)

lemma vmm_init_maps_nothing_example:
  "\<exists>s'. vmm_init (Some sample_vmm_info) sample_vmm = Some s' \<and> cr3 s' = 0x1000
    \<and> vmm_mapped_bytes s' = 0x8000000 \<and> mmu_walk (words s') (cr3 s') 0x100000 = None"
proof -
  have "pmm_ok (pmm sample_vmm)" by (simp add: pmm_ok_def sample_vmm_def)
  from vmm_init_maps_nothing [OF this sample_vmm_frames(1) _ _ sample_vmm_frames(2), of "Some sample_vmm_info"]
  show ?thesis by (auto simp: sample_vmm_pages vmm_sizes)
qed

section \<open>User pages\<close>

text \<open>
  A user page is never entered into the tables: with the tables as \<^verbatim>\<open>vmm_init\<close> leaves them, the
  call reports success and stores the entry in physical page 0.
\<close>

lemma vmm_map_user_page_low:
  assumes "empty_tables a b (words s)" "kernel_pml4 s = MINOS_HHDM_BASE + frame_addr a"
    and "physical \<noteq> 0" "physical AND 4095 = 0" "va \<noteq> 0" "va AND 4095 = 0" "unat va < 2 ^ 39"
  shows "vmm_map_user_page physical va s =
    Some (0, set_word (elem MINOS_HHDM_BASE (table_index va 21)) (physical OR PAGE_PRESENT OR PAGE_WRITE OR 4) s)"
proof -
  have "table_index va 39 = of_nat 0"
    using assms(7) by (intro word_unat_eqI) (simp add: unat_table_index)
  then have w: "walk_pml4 (kernel_pml4 s) va True None s = Some (elem MINOS_HHDM_BASE (table_index va 21), s)"
    using empty_tables_walk [OF assms(1,2)] by blast
  obtain i where i: "i < 512" "table_index va 21 = of_nat i" by (rule index_of_nat)
  then have "elem MINOS_HHDM_BASE (table_index va 21) \<noteq> 0" using hhdm_elem [OF i(1)] by simp
  moreover have "\<not> MINOS_HHDM_BASE \<le> va"
    using assms(7) by (simp add: MINOS_HHDM_BASE_def word_le_nat_alt)
  ultimately show ?thesis using assms(3-6) w by (simp add: vmm_map_user_page_def)
qed

text \<open>The calls refuse null and unaligned arguments and every address of the upper half.\<close>

lemma vmm_map_user_page_refuses:
  "physical = 0 \<or> physical AND 4095 \<noteq> 0 \<or> va = 0 \<or> va AND 4095 \<noteq> 0 \<or> MINOS_HHDM_BASE \<le> va
    \<Longrightarrow> vmm_map_user_page physical va s = Some (-1, s)"
  by (auto simp: vmm_map_user_page_def)

end
