(* ===== verification/Minos_Heap.thy ===== *)
theory Minos_Heap
  imports Minos_Vmm
begin

text \<open>
  The kernel heap of \<^verbatim>\<open>kernel/heap.c\<close>: one-page slabs on a linked list.  The headers in memory are
  the partial map \<open>slabs\<close> from addresses to headers; reading memory that holds no header is undefined
  here.  The theory shows that the heap as it is set up never gives out memory.
\<close>

section \<open>State\<close>

definition HEAP_MAGIC :: u64 where "HEAP_MAGIC = 0x4D4F5348"

record slab_header =
  sl_next :: u64
  sl_magic :: u64
  sl_size :: u32
  sl_free :: u8

definition sizeof_slab_header :: u64 where "sizeof_slab_header = 24"

record heap_state = vmm_state +
  heap_base :: u64
  heap_top :: u64
  heap_limit :: u64
  free_list :: u64
  slabs :: "u64 \<rightharpoonup> slab_header"

section \<open>Operations\<close>

definition heap_init :: "'m heap_state_scheme \<Rightarrow> 'm heap_state_scheme" where
  "heap_init s = s\<lparr>heap_base := 0xFFFF8000FFC00000, heap_limit := 0xFFFF8000FFFF0000,
     heap_top := 0xFFFF8000FFC00000, free_list := 0,
     vmm_log := vmm_log s @ ''[MinOS Heap] Initialized (16 MiB at HHDM+252 MiB)'' @ [CHR 0x0A]\<rparr>"

text \<open>The address of the new slab, or 0.\<close>

definition slab_alloc :: "u32 \<Rightarrow> 'm heap_state_scheme \<Rightarrow> (u64 \<times> 'm heap_state_scheme) c_result" where
  "slab_alloc n s = do {
     (page, p) \<leftarrow> pmm_alloc_frame (pmm s);
     (let s1 = s\<lparr>pmm := p\<rparr> in
      if page = 0 then Some (0, s1)
      else do {
        (rc, s2) \<leftarrow> vmm_map_user_page page (heap_top s1) s1;
        (if rc \<noteq> 0 then do {
           p' \<leftarrow> pmm_free_frame page (pmm s2);
           Some (0, s2\<lparr>pmm := p'\<rparr>)
         } else
           let h = heap_top s2 + MINOS_HHDM_BASE in
           Some (h, s2\<lparr>slabs := (slabs s2)(h \<mapsto> \<lparr>sl_next = free_list s2, sl_magic = HEAP_MAGIC,
                      sl_size = 4096 - ucast sizeof_slab_header, sl_free = 1\<rparr>),
                    free_list := h, heap_top := heap_top s2 + 4096\<rparr>))
      })
   }"

text \<open>
  The search through the list: the first header that is free and large enough, 0 at the end.  A list
  that leads back to itself makes the loop run forever, \<^term>\<open>None\<close>.
\<close>

partial_function (option) find_slab :: "(u64 \<rightharpoonup> slab_header) \<Rightarrow> u32 \<Rightarrow> u64 \<Rightarrow> u64 option" where
  "find_slab sl n h =
     (if h = 0 then Some 0
      else do {
        hd \<leftarrow> sl h;
        (if sl_free hd \<noteq> 0 \<and> n \<le> sl_size hd then Some h else find_slab sl n (sl_next hd))
      })"

definition take_slab :: "u64 \<Rightarrow> 'm heap_state_scheme \<Rightarrow> (u64 \<times> 'm heap_state_scheme) c_result" where
  "take_slab h s = do {
     hd \<leftarrow> slabs s h;
     Some (h + sizeof_slab_header, s\<lparr>slabs := (slabs s)(h \<mapsto> hd\<lparr>sl_free := 0\<rparr>)\<rparr>)
   }"

definition round_size :: "u32 \<Rightarrow> u32" where
  "round_size n = (n + 15) AND NOT 15"

definition kmalloc :: "u32 \<Rightarrow> 'm heap_state_scheme \<Rightarrow> (u64 \<times> 'm heap_state_scheme) c_result" where
  "kmalloc n s =
     (if n = 0 then Some (0, s)
      else do {
        h \<leftarrow> find_slab (slabs s) (round_size n) (free_list s);
        (if h \<noteq> 0 then take_slab h s
         else do {
           (h', s1) \<leftarrow> slab_alloc (round_size n) s;
           (if h' = 0 then Some (0, s1) else take_slab h' s1)
         })
      })"

definition kfree :: "u64 \<Rightarrow> 'm heap_state_scheme \<Rightarrow> 'm heap_state_scheme c_result" where
  "kfree ptr s =
     (if ptr = 0 then Some s
      else let h = ptr - sizeof_slab_header in do {
        hd \<leftarrow> slabs s h;
        Some (if sl_magic hd \<noteq> HEAP_MAGIC then s
              else s\<lparr>slabs := (slabs s)(h \<mapsto> hd\<lparr>sl_free := 1\<rparr>)\<rparr>)
      })"

section \<open>The heap gives out nothing\<close>

declare find_slab.simps [simp del]

lemma find_slab_empty [simp]: "find_slab sl n 0 = Some 0"
  by (simp add: find_slab.simps)

lemma give_take_frame: "\<not> frame_used p m \<Longrightarrow> give_frame m (take_frame m p) = p"
proof -
  assume "\<not> frame_used p m"
  then have "(bitmap p (m div 64) OR push_bit (m mod 64) 1) AND NOT (push_bit (m mod 64) 1) = bitmap p (m div 64)"
    by (intro bit_word_eqI) (auto simp: frame_used_def bit_simps)
  then show ?thesis
    by (simp add: give_frame_def take_frame_def mark_def unmark_def)
qed

text \<open>A frame that is released right after its allocation leaves the allocator as it was.\<close>

lemma alloc_then_free:
  assumes "pmm_ok p" "pmm_alloc_frame p = Some (f, p')" "f \<noteq> 0"
  shows "pmm_free_frame f p' = Some p"
proof -
  have o: "alloc_outcome 1 p (f, p')"
    using alloc_loop_outcome [OF assms(1), of 1] assms(2) by (auto simp: pmm_alloc_frame_def)
  obtain m where m: "1 \<le> m" "m < unat (total_frames p)" "\<not> frame_used p m" "f = frame_addr m" "p' = take_frame m p"
    using o assms(3) by (auto simp: alloc_outcome_def)
  then have "m < 2 ^ 24" using assms(1) by (simp add: pmm_ok_def)
  then have "unat (f div 4096) = m" using m(4) by (simp add: frame_addr_div unat_of_nat_small)
  moreover have "f \<in> pmm_frames p'" "f \<in> pmm_taken p'"
    using m by (auto simp: pmm_frames_def pmm_taken_def)
  ultimately show ?thesis
    using pmm_free_frame_eq [of p' f] m(3,5) assms(1) by (simp add: give_take_frame)
qed

lemma pmm_alloc_total:
  assumes "pmm_ok p"
  shows "\<exists>f p'. pmm_alloc_frame p = Some (f, p') \<and> (f = 0 \<longrightarrow> p' = p)"
  using assms by (cases rule: pmm.alloc_cases) auto

lemma slab_alloc_null:
  fixes s :: "'m heap_state_scheme"
  assumes "pmm_ok (pmm s)" "MINOS_HHDM_BASE \<le> heap_top s"
  shows "slab_alloc n s = Some (0, s)"
proof -
  obtain f p where f: "pmm_alloc_frame (pmm s) = Some (f, p)" "f = 0 \<longrightarrow> p = pmm s"
    using pmm_alloc_total [OF assms(1)] by blast
  show ?thesis
  proof (cases "f = 0")
    case True
    with f show ?thesis by (simp add: slab_alloc_def)
  next
    case False
    then show ?thesis
      using f alloc_then_free [OF assms(1) f(1)] assms(2)
      by (simp add: slab_alloc_def vmm_map_user_page_refuses)
  qed
qed

lemma kmalloc_null:
  fixes s :: "'m heap_state_scheme"
  assumes "pmm_ok (pmm s)" "MINOS_HHDM_BASE \<le> heap_top s" "free_list s = 0"
  shows "kmalloc n s = Some (0, s)"
  using assms by (simp add: kmalloc_def slab_alloc_null)

text \<open>A sequence of requests and their answers.\<close>

fun kmallocs :: "u32 list \<Rightarrow> 'm heap_state_scheme \<Rightarrow> (u64 list \<times> 'm heap_state_scheme) c_result" where
  "kmallocs [] s = Some ([], s)"
| "kmallocs (n # ns) s = do {
     (p, s1) \<leftarrow> kmalloc n s;
     (ps, s2) \<leftarrow> kmallocs ns s1;
     Some (p # ps, s2)
   }"

text \<open>
  \<^verbatim>\<open>heap_init\<close> places the heap at 0xFFFF8000FFC00000, an address of the upper half that
  \<^verbatim>\<open>vmm_map_user_page\<close> refuses.  So after \<^verbatim>\<open>heap_init\<close> every \<^verbatim>\<open>kmalloc\<close> of any
  size, whatever came before, returns \<^verbatim>\<open>NULL\<close> and changes nothing: the page it takes from the
  frame allocator is given back, so that the counters and the bitmap are as before.
\<close>

lemma heap_never_allocates:
  fixes s :: "'m heap_state_scheme"
  assumes "pmm_ok (pmm s)"
  shows "kmallocs ns (heap_init s) = Some (replicate (length ns) 0, heap_init s)"
proof -
  have "kmalloc n (heap_init s) = Some (0, heap_init s)" for n
    using assms by (intro kmalloc_null) (simp_all add: heap_init_def MINOS_HHDM_BASE_def)
  then show ?thesis by (induction ns) simp_all
qed

definition sample_heap :: heap_state where
  "sample_heap = vmm_state.extend sample_vmm
     \<lparr>heap_base = 0, heap_top = 0, heap_limit = 0, free_list = 0, slabs = Map.empty\<rparr>"

theorem heap_never_allocates_witness:
  "kmallocs [104, 8192] (heap_init sample_heap) = Some ([0, 0], heap_init sample_heap)"
proof -
  have "pmm_ok (pmm sample_heap)"
    by (simp add: pmm_ok_def sample_heap_def sample_vmm_def vmm_state.defs)
  from heap_never_allocates [OF this, of "[104, 8192]"] show ?thesis by (simp add: numeral_2_eq_2)
qed

section \<open>Sizes\<close>

text \<open>
  Two faults of the size computation, on a heap with room: a request of almost 4 GiB is rounded to 0
  and served from any free slab, and a request larger than a slab is served by a new slab of 4072
  bytes all the same.
\<close>

lemma round_size_wraps: "0xFFFFFFF0 < n \<Longrightarrow> round_size n = 0"
proof -
  assume n: "0xFFFFFFF0 < n"
  have "unat (n + 15) = unat n + 15 - 2 ^ 32"
    using n unat_u32_bound [of n] by (simp add: unat_word_ariths word_less_nat_alt mod_if)
  then have "unat (n + 15) < 16" using unat_u32_bound [of n] by linarith
  then have "(n + 15) div 16 = 0" by (intro word_unat_eqI) (simp add: unat_div)
  then have "(n + 15) - (n + 15) mod 16 = 0" by (simp add: minus_mod_eq_div_mult)
  then show ?thesis using and_not_mask [of "n + 15" 4] by (simp add: round_size_def mask_eq_exp_minus_1)
qed

lemma slab_alloc_ignores_size:
  "slab_alloc n s = slab_alloc n' s"
  "slab_alloc n s = Some (h, s') \<Longrightarrow> h \<noteq> 0 \<Longrightarrow> \<exists>hd. slabs s' h = Some hd \<and> sl_size hd = 4072"
  by (auto simp: slab_alloc_def sizeof_slab_header_def Let_def split: Option.bind_splits if_splits)

end
