(* ===== verification/Minos_Cpu.thy ===== *)
theory Minos_Cpu
  imports Minos_Prelude
begin

text \<open>
  The instructions of the processor that the assembler parts of the kernel use: moves, pushes and
  pops on the stack, stack alignment.  The interrupt entry of \<^verbatim>\<open>kernel/idt.c\<close>, the
  thread switch of \<^verbatim>\<open>kernel/context_switch.s\<close> and the system call entry of
  \<^verbatim>\<open>kernel/syscall_entry.s\<close> are lists of these instructions.
\<close>

datatype reg = RAX | RCX | RDX | RBX | RSP | RBP | RSI | RDI | R8 | R9 | R10 | R11 | R12 | R13 | R14 | R15

text \<open>The general registers and the memory in words of eight bytes.\<close>

record cpu =
  regs :: "reg \<Rightarrow> u64"
  mem :: "u64 \<Rightarrow> u64"

datatype instr =
    Push reg
  | Push_imm u64
  | Pop reg
  | Mov reg reg
  | Mov_imm reg u64
  | And_imm reg u64
  | Sub_imm reg u64
  | Add_imm reg u64
  | Store reg reg
  | Load reg reg

text \<open>\<open>Mov d s\<close> copies \<open>s\<close> to \<open>d\<close>, \<open>Mov_imm d v\<close> loads an address or constant; \<open>Store a s\<close> is \<open>movq s, (a)\<close> and \<open>Load d a\<close> is \<open>movq (a), d\<close>.\<close>

fun exec1 :: "instr \<Rightarrow> cpu \<Rightarrow> cpu" where
  "exec1 (Push r) c = c\<lparr>regs := (regs c)(RSP := regs c RSP - 8), mem := (mem c)(regs c RSP - 8 := regs c r)\<rparr>"
| "exec1 (Push_imm v) c = c\<lparr>regs := (regs c)(RSP := regs c RSP - 8), mem := (mem c)(regs c RSP - 8 := v)\<rparr>"
| "exec1 (Pop r) c = c\<lparr>regs := (regs c)(RSP := regs c RSP + 8, r := mem c (regs c RSP))\<rparr>"
| "exec1 (Mov d r) c = c\<lparr>regs := (regs c)(d := regs c r)\<rparr>"
| "exec1 (Mov_imm d v) c = c\<lparr>regs := (regs c)(d := v)\<rparr>"
| "exec1 (And_imm r v) c = c\<lparr>regs := (regs c)(r := regs c r AND v)\<rparr>"
| "exec1 (Sub_imm r v) c = c\<lparr>regs := (regs c)(r := regs c r - v)\<rparr>"
| "exec1 (Add_imm r v) c = c\<lparr>regs := (regs c)(r := regs c r + v)\<rparr>"
| "exec1 (Store a r) c = c\<lparr>mem := (mem c)(regs c a := regs c r)\<rparr>"
| "exec1 (Load d a) c = c\<lparr>regs := (regs c)(d := mem c (regs c a))\<rparr>"

definition exec :: "instr list \<Rightarrow> cpu \<Rightarrow> cpu" where
  "exec is c = fold exec1 is c"

lemma exec_simps [simp]:
  "exec [] c = c" "exec (i # is) c = exec is (exec1 i c)" "exec (is @ js) c = exec js (exec is c)"
  by (simp_all add: exec_def)

section \<open>Saving registers on the stack\<close>

text \<open>The word \<open>k\<close> words below the address \<open>a\<close>, counted from 1.\<close>

definition below :: "u64 \<Rightarrow> nat \<Rightarrow> u64" where
  "below a k = a - of_nat (8 * k)"

lemma below_inj:
  assumes "j < 2 ^ 32" "k < 2 ^ 32"
  shows "below a j = below a k \<longleftrightarrow> j = k"
proof -
  have "j = k" if "(of_nat (8 * j) :: u64) = of_nat (8 * k)"
  proof -
    have "unat (of_nat (8 * j) :: u64) = unat (of_nat (8 * k) :: u64)" using that by simp
    then show ?thesis using assms by (subst (asm) (1 2) unat_of_nat_small) simp_all
  qed
  then show ?thesis by (auto simp: below_def)
qed

lemma below_step: "below a k - 8 = below a (Suc k)" "below a (Suc k) + 8 = below a k" "below a 0 = a"
  by (simp_all add: below_def algebra_simps)

text \<open>
  Pushing registers stores them one below the other and changes nothing at and above the old top of
  the stack.
\<close>

lemma exec_pushes_regs:
  assumes "RSP \<notin> set rs" "regs c RSP = below a k"
  shows "regs (exec (map Push rs) c) = (regs c)(RSP := below a (k + length rs))"
  using assms
proof (induction rs arbitrary: c k)
  case Nil
  then show ?case by (simp add: fun_upd_idem)
next
  case (Cons r rs)
  then have "regs (exec (map Push rs) (exec1 (Push r) c)) = (regs (exec1 (Push r) c))(RSP := below a (Suc k + length rs))"
    by (intro Cons.IH) (simp_all add: below_step)
  then show ?case by (simp add: fun_eq_iff)
qed

lemma exec_pushes_above:
  assumes "RSP \<notin> set rs" "regs c RSP = below a k" "k + length rs < 2 ^ 32" "j \<le> k"
  shows "mem (exec (map Push rs) c) (below a j) = mem c (below a j)"
  using assms
proof (induction rs arbitrary: c k)
  case (Cons r rs)
  then have "mem (exec (map Push rs) (exec1 (Push r) c)) (below a j) = mem (exec1 (Push r) c) (below a j)"
    by (intro Cons.IH [of _ "Suc k"]) (simp_all add: below_step)
  then show ?case using Cons.prems by (simp add: below_step below_inj)
qed simp

lemma exec_pushes_saved:
  assumes "RSP \<notin> set rs" "regs c RSP = below a k" "k + length rs < 2 ^ 32" "j < length rs"
  shows "mem (exec (map Push rs) c) (below a (Suc (k + j))) = regs c (rs ! j)"
  using assms
proof (induction rs arbitrary: c k j)
  case (Cons r rs)
  let ?c = "exec1 (Push r) c"
  have top: "regs ?c RSP = below a (Suc k)" using Cons.prems(2) by (simp add: below_step)
  show ?case
  proof (cases j)
    case 0
    then show ?thesis
      using exec_pushes_above [of rs ?c a "Suc k" "Suc k"] Cons.prems top by (simp add: below_step)
  next
    case (Suc i)
    then have "rs ! i \<noteq> RSP" using Cons.prems by (metis Suc_less_eq length_Cons list.set_intros(2) nth_mem)
    then show ?thesis
      using Cons.IH [of ?c "Suc k" i] Cons.prems top Suc by simp
  qed
qed simp

lemmas exec_pushes = exec_pushes_regs exec_pushes_above exec_pushes_saved

text \<open>Popping them in the opposite order loads them again.\<close>

lemma exec_pops:
  assumes "RSP \<notin> set rs" "regs c RSP = below a (k + length rs)"
    and "\<And>j. j < length rs \<Longrightarrow> mem c (below a (Suc (k + j))) = v (rs ! j)"
  shows "exec (map Pop (rev rs)) c =
    c\<lparr>regs := (\<lambda>r. if r = RSP then below a k else if r \<in> set rs then v r else regs c r)\<rparr>"
  using assms
proof (induction rs arbitrary: c rule: rev_induct)
  case Nil
  then have "(\<lambda>r. if r = RSP then below a k else if r \<in> set [] then v r else regs c r) = regs c"
    by (auto simp: fun_eq_iff)
  then show ?case by (simp only:) simp
next
  case (snoc r rs)
  let ?c = "exec1 (Pop r) c"
  have r: "mem c (regs c RSP) = v r"
    using snoc.prems(2) snoc.prems(3) [of "length rs"] by simp
  have "exec (map Pop (rev rs)) ?c =
      ?c\<lparr>regs := (\<lambda>x. if x = RSP then below a k else if x \<in> set rs then v x else regs ?c x)\<rparr>"
  proof (rule snoc.IH)
    show "mem ?c (below a (Suc (k + j))) = v (rs ! j)" if "j < length rs" for j
      using snoc.prems(3) [of j] that by (simp add: nth_append)
  qed (use snoc.prems in \<open>auto simp: below_step\<close>)
  then show ?case using r snoc.prems(1) by (auto simp: fun_eq_iff)
qed

end
