(* ===== verification/Minos_Sched.thy ===== *)
theory Minos_Sched
  imports Minos_Heap Minos_Cpu
begin

text \<open>
  The scheduler of \<^verbatim>\<open>kernel/scheduler.c\<close> with the thread switch of
  \<^verbatim>\<open>kernel/context_switch.s\<close>.  The control blocks in memory are the partial map \<open>tasks\<close> from
  addresses to blocks; reading memory that holds none is undefined here.  The ready queue is the chain
  of the \<^verbatim>\<open>next\<close> pointers.
\<close>

section \<open>State\<close>

definition TCB_STACK_SIZE :: u32 where "TCB_STACK_SIZE = 8192"

datatype task_state = TASK_STATE_IDLE | TASK_STATE_RUNNING | TASK_STATE_READY | TASK_STATE_BLOCKED

record tcb =
  t_rsp :: u64
  t_rip :: u64
  t_rbp :: u64
  t_rbx :: u64
  t_r12 :: u64
  t_r13 :: u64
  t_r14 :: u64
  t_r15 :: u64
  t_cr3 :: u64
  t_stack_base :: u64
  t_state :: task_state
  t_pid :: u32
  t_tid :: u32
  t_next :: u64

definition sizeof_tcb :: u32 where "sizeof_tcb = 104"

record sched_state = heap_state +
  current :: u64
  ready_head :: u64
  ready_tail :: u64
  idle_task :: u64
  next_pid :: u32
  next_tid :: u32
  tasks :: "u64 \<rightharpoonup> tcb"
  proc :: cpu
  interrupts :: bool

definition set_task :: "u64 \<Rightarrow> (tcb \<Rightarrow> tcb) \<Rightarrow> 'm sched_state_scheme \<Rightarrow> 'm sched_state_scheme c_result" where
  "set_task a f s = do { t \<leftarrow> tasks s a; Some (s\<lparr>tasks := (tasks s)(a \<mapsto> f t)\<rparr>) }"

section \<open>The thread switch\<close>

definition switch_saved :: "reg list" where
  "switch_saved = [RBP, RBX, R12, R13, R14, R15]"

text \<open>The instructions before \<^verbatim>\<open>ret\<close>; \<open>RDI\<close> holds the argument.\<close>

definition context_switch_code :: "instr list" where
  "context_switch_code = map Push switch_saved @ [Store RDI RSP, Load RSP RDI] @ map Pop (rev switch_saved)"

text \<open>The first word of a control block is its \<^verbatim>\<open>rsp\<close>.\<close>

definition context_switch :: "u64 \<Rightarrow> 'm sched_state_scheme \<Rightarrow> 'm sched_state_scheme c_result" where
  "context_switch new_task s = do {
     t \<leftarrow> tasks s new_task;
     (let c = (proc s)\<lparr>regs := (regs (proc s))(RDI := new_task), mem := (mem (proc s))(new_task := t_rsp t)\<rparr>;
          c' = exec context_switch_code c
      in Some (s\<lparr>proc := c', tasks := (tasks s)(new_task \<mapsto> t\<lparr>t_rsp := mem c' new_task\<rparr>)\<rparr>))
   }"

section \<open>Operations\<close>

text \<open>The block that a thread starts with.\<close>

definition fresh_tcb :: "u64 \<Rightarrow> u64 \<Rightarrow> u64 \<Rightarrow> task_state \<Rightarrow> u32 \<Rightarrow> u32 \<Rightarrow> tcb" where
  "fresh_tcb rsp rip stack st pid tid =
     \<lparr>t_rsp = rsp, t_rip = rip, t_rbp = 0, t_rbx = 0, t_r12 = 0, t_r13 = 0, t_r14 = 0, t_r15 = 0, t_cr3 = 0,
      t_stack_base = stack, t_state = st, t_pid = pid, t_tid = tid, t_next = 0\<rparr>"

definition enqueue :: "u64 \<Rightarrow> 'm sched_state_scheme \<Rightarrow> 'm sched_state_scheme c_result" where
  "enqueue t s =
     (if ready_head s = 0 then Some (s\<lparr>ready_head := t, ready_tail := t\<rparr>)
      else do {
        s1 \<leftarrow> set_task (ready_tail s) (\<lambda>b. b\<lparr>t_next := t\<rparr>) s;
        Some (s1\<lparr>ready_tail := t\<rparr>)
      })"

text \<open>The new block's address, or 0.\<close>

definition thread_create :: "u64 \<Rightarrow> u64 \<Rightarrow> 'm sched_state_scheme \<Rightarrow> (u64 \<times> 'm sched_state_scheme) c_result" where
  "thread_create entry arg s = do {
     (b, s1) \<leftarrow> kmalloc sizeof_tcb s;
     (if b = 0 then Some (0, s1)
      else do {
        (stack, s2) \<leftarrow> kmalloc TCB_STACK_SIZE s1;
        (if stack = 0 then do { s3 \<leftarrow> kfree b s2; Some (0, s3) }
         else do {
           s3 \<leftarrow> enqueue b (s2\<lparr>tasks := (tasks s2)(b \<mapsto>
                     fresh_tcb (stack + ucast TCB_STACK_SIZE) entry stack TASK_STATE_READY (next_pid s2) (next_tid s2)),
                   next_pid := next_pid s2 + 1, next_tid := next_tid s2 + 1\<rparr>);
           Some (b, s3)
         })
      })
   }"

definition scheduler_init :: "u64 \<Rightarrow> 'm sched_state_scheme \<Rightarrow> 'm sched_state_scheme c_result" where
  "scheduler_init idle s = do {
     (b, s1) \<leftarrow> kmalloc sizeof_tcb s;
     (let s1 = s1\<lparr>current := b\<rparr> in
      if b = 0 then Some s1
      else do {
        (i, s2) \<leftarrow> thread_create idle 0
           (s1\<lparr>tasks := (tasks s1)(b \<mapsto> fresh_tcb 0 0 0 TASK_STATE_RUNNING (next_pid s1) (next_tid s1)),
              next_pid := next_pid s1 + 1, next_tid := next_tid s1 + 1, ready_head := 0, ready_tail := 0\<rparr>);
        s3 \<leftarrow> (let s2 = s2\<lparr>idle_task := i\<rparr> in
               if i \<noteq> 0 then set_task i (\<lambda>b. b\<lparr>t_state := TASK_STATE_IDLE\<rparr>) s2 else Some s2);
        Some (s3\<lparr>vmm_log := vmm_log s3 @ ''[MinOS Scheduler] Initialized'' @ [CHR 0x0A]\<rparr>)
      })
   }"

text \<open>The running thread goes to the end of the queue.\<close>

definition requeue_current :: "'m sched_state_scheme \<Rightarrow> 'm sched_state_scheme c_result" where
  "requeue_current s = do {
     c \<leftarrow> tasks s (current s);
     (if t_state c = TASK_STATE_RUNNING then do {
        s1 \<leftarrow> set_task (current s) (\<lambda>b. b\<lparr>t_state := TASK_STATE_READY\<rparr>) s;
        enqueue (current s1) s1
      } else Some s)
   }"

definition schedule :: "'m sched_state_scheme \<Rightarrow> 'm sched_state_scheme c_result" where
  "schedule s =
     (if current s = 0 \<or> ready_head s = 0 then Some s
      else do {
        s1 \<leftarrow> requeue_current s;
        n \<leftarrow> tasks s1 (ready_head s1);
        (let nxt = ready_head s1;
             s2 = s1\<lparr>ready_head := t_next n\<rparr>;
             s3 = (if ready_head s2 = 0 then s2\<lparr>ready_tail := 0\<rparr> else s2)
         in do {
           s4 \<leftarrow> set_task nxt (\<lambda>b. b\<lparr>t_next := 0, t_state := TASK_STATE_RUNNING\<rparr>) s3;
           context_switch nxt (s4\<lparr>current := nxt\<rparr>)
         })
      })"

definition thread_yield :: "'m sched_state_scheme \<Rightarrow> 'm sched_state_scheme c_result" where
  "thread_yield s = do { s1 \<leftarrow> schedule (s\<lparr>interrupts := False\<rparr>); Some (s1\<lparr>interrupts := True\<rparr>) }"

definition thread_exit :: "'m sched_state_scheme \<Rightarrow> 'm sched_state_scheme c_result" where
  "thread_exit s =
     (if current s = 0 then Some s
      else do {
        c \<leftarrow> tasks s (current s);
        s1 \<leftarrow> (if t_stack_base c \<noteq> 0 then kfree (t_stack_base c) s else Some s);
        s2 \<leftarrow> kfree (current s1) s1;
        schedule (s2\<lparr>current := 0\<rparr>)
      })"

definition current_task :: "'m sched_state_scheme \<Rightarrow> u64" where "current_task s = current s"

section \<open>The ready queue as a list\<close>

fun chain :: "(u64 \<rightharpoonup> tcb) \<Rightarrow> u64 \<Rightarrow> u64 list \<Rightarrow> bool" where
  "chain ts p [] \<longleftrightarrow> p = 0"
| "chain ts p (x # xs) \<longleftrightarrow> p = x \<and> x \<noteq> 0 \<and> (\<exists>t. ts x = Some t \<and> chain ts (t_next t) xs)"

definition waiting :: "'m sched_state_scheme \<Rightarrow> u64 list \<Rightarrow> bool" where
  "waiting s xs \<longleftrightarrow> chain (tasks s) (ready_head s) xs \<and> distinct xs \<and> (xs \<noteq> [] \<longrightarrow> ready_tail s = last xs)"

text \<open>The thread \<open>c\<close> runs and the threads \<open>xs\<close> wait, in this order.\<close>

fun threads :: "'m sched_state_scheme \<Rightarrow> u64 list \<Rightarrow> bool" where
  "threads s [] \<longleftrightarrow> False"
| "threads s (c # xs) \<longleftrightarrow> current s = c \<and> c \<noteq> 0 \<and> c \<notin> set xs \<and> waiting s xs
     \<and> (\<exists>t. tasks s c = Some t \<and> t_state t = TASK_STATE_RUNNING \<and> t_next t = 0)"

lemma chain_upd_other [simp]: "a \<notin> set xs \<Longrightarrow> chain (ts(a \<mapsto> t)) p xs = chain ts p xs"
  by (induction xs arbitrary: p) auto

lemma chain_upd_same_next: "ts a = Some t \<Longrightarrow> t_next t' = t_next t \<Longrightarrow> chain (ts(a \<mapsto> t')) p xs = chain ts p xs"
  by (induction xs arbitrary: p) auto

lemma chain_in: "chain ts p xs \<Longrightarrow> x \<in> set xs \<Longrightarrow> \<exists>t. ts x = Some t"
  by (induction xs arbitrary: p) auto

lemma chain_snoc:
  assumes "chain ts p xs" "xs \<noteq> []" "distinct xs" "a \<notin> set xs" "a \<noteq> 0" "ts a = Some t" "t_next t = 0"
    and "ts (last xs) = Some l"
  shows "chain (ts(last xs \<mapsto> l\<lparr>t_next := a\<rparr>)) p (xs @ [a])"
  using assms
proof (induction xs arbitrary: p)
  case (Cons x xs)
  show ?case
  proof (cases "xs = []")
    case True
    with Cons.prems show ?thesis by auto
  next
    case False
    obtain b where b: "ts x = Some b" "chain ts (t_next b) xs" using Cons.prems(1) by auto
    have "x \<noteq> last xs" using Cons.prems(3) False by auto
    with False b Cons show ?thesis by auto
  qed
qed simp

lemma enqueue_waiting:
  fixes s :: "'m sched_state_scheme"
  assumes "waiting s xs" "a \<notin> set xs" "a \<noteq> 0" "tasks s a = Some t" "t_next t = 0"
  shows "\<exists>s'. enqueue a s = Some s' \<and> waiting s' (xs @ [a]) \<and> current s' = current s"
proof (cases "xs = []")
  case True
  with assms show ?thesis by (auto simp: waiting_def enqueue_def)
next
  case False
  obtain l where l: "tasks s (last xs) = Some l"
    using assms(1) False chain_in [of _ _ xs "last xs"] by (auto simp: waiting_def)
  have "ready_head s \<noteq> 0" using assms(1) False by (cases xs) (auto simp: waiting_def)
  with False assms l show ?thesis
    by (auto simp: waiting_def enqueue_def set_task_def chain_snoc)
qed

lemma context_switch_tasks:
  assumes "tasks s a = Some t"
  shows "\<exists>c r. context_switch a s = Some (s\<lparr>proc := c, tasks := (tasks s)(a \<mapsto> t\<lparr>t_rsp := r\<rparr>)\<rparr>)"
  using assms by (simp add: context_switch_def Let_def) (intro exI, rule refl)

text \<open>One call of \<^verbatim>\<open>schedule\<close>: the running thread goes to the end and the first one runs.\<close>

lemma schedule_rotates:
  fixes s :: "'m sched_state_scheme"
  assumes "threads s q"
  shows "\<exists>s'. schedule s = Some s' \<and> threads s' (rotate1 q)"
proof -
  obtain c xs t where q: "q = c # xs" "current s = c" "c \<noteq> 0" "c \<notin> set xs" "waiting s xs"
      "tasks s c = Some t" "t_state t = TASK_STATE_RUNNING" "t_next t = 0"
    using assms by (cases q) auto
  show ?thesis
  proof (cases xs)
    case Nil
    then show ?thesis using q by (auto simp: schedule_def waiting_def)
  next
    case (Cons x ys)
    let ?s1 = "s\<lparr>tasks := (tasks s)(c \<mapsto> t\<lparr>t_state := TASK_STATE_READY\<rparr>)\<rparr>"
    have "waiting ?s1 xs" using q by (simp add: waiting_def)
    then obtain s2 where s2: "enqueue c ?s1 = Some s2" "waiting s2 (xs @ [c])"
      using q enqueue_waiting [of ?s1 xs c] by fastforce
    then obtain n where n: "ready_head s2 = x" "tasks s2 x = Some n" "x \<noteq> 0" "chain (tasks s2) (t_next n) (ys @ [c])"
      using Cons by (auto simp: waiting_def)
    have r: "requeue_current s = Some s2"
      using q s2 by (simp add: requeue_current_def set_task_def)
    have nz: "t_next n \<noteq> 0" using n(4) by (cases ys) auto
    let ?n = "n\<lparr>t_next := 0, t_state := TASK_STATE_RUNNING\<rparr>"
    let ?s4 = "s2\<lparr>ready_head := t_next n, tasks := (tasks s2)(x \<mapsto> ?n), current := x\<rparr>"
    obtain cp rsp where sw: "context_switch x ?s4 =
        Some (?s4\<lparr>proc := cp, tasks := (tasks ?s4)(x \<mapsto> ?n\<lparr>t_rsp := rsp\<rparr>)\<rparr>)"
      using context_switch_tasks [of ?s4 x ?n] by auto
    have "ready_head s \<noteq> 0" using q Cons by (simp add: waiting_def)
    then have "schedule s = Some (?s4\<lparr>proc := cp, tasks := (tasks ?s4)(x \<mapsto> ?n\<lparr>t_rsp := rsp\<rparr>)\<rparr>)"
      using q r n nz sw by (simp add: schedule_def set_task_def)
    moreover have "x \<notin> set (ys @ [c])" using s2(2) Cons by (simp add: waiting_def)
    ultimately show ?thesis
      using q(1) Cons n s2(2) by (auto simp: waiting_def)
  qed
qed

fun yields :: "nat \<Rightarrow> 'm sched_state_scheme \<Rightarrow> 'm sched_state_scheme c_result" where
  "yields 0 s = Some s"
| "yields (Suc n) s = yields n s \<bind> thread_yield"

lemma threads_interrupts [simp]: "threads (s\<lparr>interrupts := b\<rparr>) q = threads s q"
  by (cases q) (simp_all add: waiting_def)


definition sample_tcb :: "u64 \<Rightarrow> task_state \<Rightarrow> tcb" where
  "sample_tcb nxt st = (fresh_tcb 0 0 0 st 1 1)\<lparr>t_next := nxt\<rparr>"

definition sample_sched :: sched_state where
  "sample_sched = heap_state.extend sample_heap
     \<lparr>current = 0x1000, ready_head = 0x2000, ready_tail = 0x3000, idle_task = 0x3000, next_pid = 4, next_tid = 4,
      tasks = [0x1000 \<mapsto> sample_tcb 0 TASK_STATE_RUNNING, 0x2000 \<mapsto> sample_tcb 0x3000 TASK_STATE_READY,
               0x3000 \<mapsto> sample_tcb 0 TASK_STATE_IDLE],
      proc = \<lparr>regs = (\<lambda>r. 0x9000), mem = (\<lambda>a. 0)\<rparr>, interrupts = True\<rparr>"

lemma sample_sched_fields:
  "current sample_sched = 0x1000" "ready_head sample_sched = 0x2000" "ready_tail sample_sched = 0x3000"
  "tasks sample_sched = [0x1000 \<mapsto> sample_tcb 0 TASK_STATE_RUNNING, 0x2000 \<mapsto> sample_tcb 0x3000 TASK_STATE_READY,
     0x3000 \<mapsto> sample_tcb 0 TASK_STATE_IDLE]"
  "pmm sample_sched = pmm sample_vmm"
  by (simp_all add: sample_sched_def sample_heap_def heap_state.defs vmm_state.defs)


section \<open>The scheduler as the kernel starts it\<close>

datatype thread_op = Create u64 | Yield | Exit

fun thread_step :: "thread_op \<Rightarrow> 'm sched_state_scheme \<Rightarrow> (u64 \<times> 'm sched_state_scheme) c_result" where
  "thread_step (Create entry) s = thread_create entry 0 s"
| "thread_step Yield s = map_option (Pair 0) (thread_yield s)"
| "thread_step Exit s = map_option (Pair 0) (thread_exit s)"

fun thread_ops :: "thread_op list \<Rightarrow> 'm sched_state_scheme \<Rightarrow> (u64 list \<times> 'm sched_state_scheme) c_result" where
  "thread_ops [] s = Some ([], s)"
| "thread_ops (x # xs) s = do {
     (r, s1) \<leftarrow> thread_step x s;
     (rs, s2) \<leftarrow> thread_ops xs s1;
     Some (r # rs, s2)
   }"

lemma thread_step_idle:
  fixes s :: "'m sched_state_scheme"
  assumes "pmm_ok (pmm s)" "MINOS_HHDM_BASE \<le> heap_top s" "free_list s = 0" "current s = 0"
  shows "\<exists>b. thread_step x s = Some (0, s\<lparr>interrupts := b\<rparr>)"
proof (cases x)
  case (Create e)
  then have "thread_step x s = Some (0, s\<lparr>interrupts := interrupts s\<rparr>)"
    using kmalloc_null [OF assms(1-3), of sizeof_tcb] by (simp add: thread_create_def)
  then show ?thesis ..
next
  case Yield
  then have "thread_step x s = Some (0, s\<lparr>interrupts := True\<rparr>)"
    using assms(4) by (simp add: thread_yield_def schedule_def)
  then show ?thesis ..
next
  case Exit
  then have "thread_step x s = Some (0, s\<lparr>interrupts := interrupts s\<rparr>)"
    using assms(4) by (simp add: thread_exit_def)
  then show ?thesis ..
qed

lemma thread_ops_idle:
  fixes s :: "'m sched_state_scheme"
  assumes "pmm_ok (pmm s)" "MINOS_HHDM_BASE \<le> heap_top s" "free_list s = 0" "current s = 0"
  shows "\<exists>b. thread_ops xs s = Some (replicate (length xs) 0, s\<lparr>interrupts := b\<rparr>)"
  using assms
proof (induction xs arbitrary: s)
  case Nil
  have "s = s\<lparr>interrupts := interrupts s\<rparr>" by simp
  then show ?case by (metis list.size(3) replicate_0 thread_ops.simps(1))
next
  case (Cons x xs)
  obtain b where "thread_step x s = Some (0, s\<lparr>interrupts := b\<rparr>)"
    using thread_step_idle [OF Cons.prems] by blast
  then show ?case using Cons.IH [of "s\<lparr>interrupts := b\<rparr>"] Cons.prems by auto
qed

text \<open>
  C26: the kernel never runs a thread.  \<^verbatim>\<open>kernel_main\<close> calls \<^verbatim>\<open>heap_init\<close> and then
  \<^verbatim>\<open>scheduler_init\<close>, whose \<^verbatim>\<open>kmalloc\<close> fails, so that there is no current thread; from then
  on every sequence of \<^verbatim>\<open>thread_create\<close>, \<^verbatim>\<open>thread_yield\<close> and \<^verbatim>\<open>thread_exit\<close> answers
  \<^verbatim>\<open>NULL\<close> or does nothing, and no frame is lost.
\<close>

theorem threads_never_start:
  fixes s :: "'m sched_state_scheme"
  assumes "pmm_ok (pmm s)"
  shows "\<exists>s'. scheduler_init idle (heap_init s) = Some s' \<and> current_task s' = 0 \<and> pmm s' = pmm s
    \<and> (\<exists>b. thread_ops xs s' = Some (replicate (length xs) 0, s'\<lparr>interrupts := b\<rparr>))"
proof -
  have h: "MINOS_HHDM_BASE \<le> heap_top (heap_init s)" "free_list (heap_init s) = 0" "pmm (heap_init s) = pmm s"
    by (simp_all add: heap_init_def MINOS_HHDM_BASE_def)
  let ?s = "(heap_init s)\<lparr>current := 0\<rparr>"
  have "scheduler_init idle (heap_init s) = Some ?s"
    using kmalloc_null [of "heap_init s" sizeof_tcb] assms h by (simp add: scheduler_init_def)
  moreover have "\<exists>b. thread_ops xs ?s = Some (replicate (length xs) 0, ?s\<lparr>interrupts := b\<rparr>)"
    using thread_ops_idle [of ?s xs] assms h by simp
  ultimately show ?thesis using h(3) by (simp add: current_task_def)
qed

theorem threads_never_start_witness:
  "\<exists>s'. scheduler_init 0x4000 (heap_init sample_sched) = Some s' \<and> current_task s' = 0
    \<and> (\<exists>b. thread_ops [Create 0x5000, Yield, Exit] s' = Some ([0, 0, 0], s'\<lparr>interrupts := b\<rparr>))"
proof -
  have "pmm_ok (pmm sample_sched)" by (simp add: sample_sched_fields pmm_ok_def sample_vmm_def)
  from threads_never_start [OF this, of "0x4000" "[Create 0x5000, Yield, Exit]"] show ?thesis
    by (auto simp: numeral_3_eq_3)
qed

section \<open>Faults of the switch and of the exit\<close>

text \<open>
  \<^verbatim>\<open>context_switch\<close> stores the stack pointer in the control block of the thread it should resume
  and loads it from there again: it gives the caller back all its registers, on its own stack, and so
  returns to the thread that called it.
\<close>

lemma context_switch_stays:
  assumes "regs c RDI = a" "\<And>j. j \<le> 6 \<Longrightarrow> a \<noteq> below (regs c RSP) j"
  shows "regs (exec context_switch_code c) = regs c"
    and "mem (exec context_switch_code c) (regs c RSP) = mem c (regs c RSP)"
proof -
  have s: "RSP \<notin> set switch_saved" "length switch_saved = 6" "RDI \<notin> set switch_saved"
    by (simp_all add: switch_saved_def)
  let ?A = "regs c RSP"
  have top: "?A = below ?A 0" by (simp add: below_def)
  note p = exec_pushes_regs [OF s(1) top] exec_pushes_saved [OF s(1) top] exec_pushes_above [OF s(1) top]
  define d where "d = exec [Store RDI RSP, Load RSP RDI] (exec (map Push switch_saved) c)"
  have d: "regs d RSP = below ?A (0 + length switch_saved)" "\<And>r. r \<noteq> RSP \<Longrightarrow> regs d r = regs c r"
    using p(1) by (simp_all add: d_def)
  have m: "mem d x = mem (exec (map Push switch_saved) c) x" if "x \<noteq> a" for x
    using p(1) that assms(1) by (simp add: d_def)
  have "mem d (below ?A (Suc (0 + j))) = regs c (switch_saved ! j)" if "j < length switch_saved" for j
    using p(2) [of j] m [of "below ?A (Suc j)"] assms(2) [of "Suc j"] that s(2) by simp
  then have e: "exec context_switch_code c =
      d\<lparr>regs := (\<lambda>r. if r = RSP then below ?A 0 else if r \<in> set switch_saved then regs c r else regs d r)\<rparr>"
    using exec_pops [OF s(1) d(1)] by (simp add: context_switch_code_def d_def)
  show "regs (exec context_switch_code c) = regs c"
    using d(2) by (auto simp: e fun_eq_iff below_def)
  show "mem (exec context_switch_code c) ?A = mem c ?A"
    using m [of ?A] assms(2) [of 0] p(3) [of 0] s(2) by (simp add: e below_def)
qed

text \<open>
  \<^verbatim>\<open>thread_exit\<close> clears the current thread before it calls \<^verbatim>\<open>schedule\<close>, which then returns at
  once: the waiting threads stay where they are, and from then on no yield runs any of them.
\<close>

lemma thread_exit_stops:
  assumes "thread_exit s = Some s'" "current s \<noteq> 0"
  shows "current s' = 0" "schedule s' = Some s'"
  using assms by (auto simp: thread_exit_def schedule_def split: Option.bind_splits if_splits)

end
