(* ===== verification/Minos_Syscall.thy ===== *)
theory Minos_Syscall
  imports Minos_Sched
begin

text \<open>
  The system calls of \<^verbatim>\<open>kernel/syscall.c\<close> and the register moves of
  \<^verbatim>\<open>kernel/syscall_entry.s\<close>.  The inline assembler passes 64-bit values with the constraint \<open>A\<close>,
  which in 64-bit mode names one register and not the pair \<open>EDX:EAX\<close>: \<open>RDMSR\<close> delivers the low half
  and \<open>WRMSR\<close> takes its high half from whatever \<open>EDX\<close> holds.  That content is the parameter \<open>edx\<close>.
\<close>

section \<open>State\<close>

definition SYSCALL_WRITE :: u64 where "SYSCALL_WRITE = 0"
definition SYSCALL_READ :: u64 where "SYSCALL_READ = 1"
definition SYSCALL_OPEN :: u64 where "SYSCALL_OPEN = 2"
definition SYSCALL_CLOSE :: u64 where "SYSCALL_CLOSE = 3"
definition SYSCALL_EXIT :: u64 where "SYSCALL_EXIT = 60"
definition SYSCALL_YIELD :: u64 where "SYSCALL_YIELD = 24"

lemmas syscall_numbers = SYSCALL_WRITE_def SYSCALL_READ_def SYSCALL_OPEN_def SYSCALL_CLOSE_def
  SYSCALL_EXIT_def SYSCALL_YIELD_def

text \<open>The functions the table points to.\<close>

datatype syscall_fn = Sys_write | Sys_read | Sys_open | Sys_close | Sys_exit | Sys_yield

record syscall_state = sched_state +
  syscall_table :: "syscall_fn option list"
  msrs :: "u32 \<Rightarrow> u64"

section \<open>Operations\<close>

definition sys_write :: "u64 \<Rightarrow> u64 \<Rightarrow> u64 \<Rightarrow> 'm syscall_state_scheme \<Rightarrow> (u64 \<times> 'm syscall_state_scheme) c_result" where
  "sys_write fd buf count s = Some (0, s)"
definition sys_read :: "u64 \<Rightarrow> u64 \<Rightarrow> u64 \<Rightarrow> 'm syscall_state_scheme \<Rightarrow> (u64 \<times> 'm syscall_state_scheme) c_result" where
  "sys_read fd buf count s = Some (0, s)"
definition sys_open :: "u64 \<Rightarrow> 'm syscall_state_scheme \<Rightarrow> (u64 \<times> 'm syscall_state_scheme) c_result" where
  "sys_open path s = Some (0, s)"
definition sys_close :: "u64 \<Rightarrow> 'm syscall_state_scheme \<Rightarrow> (u64 \<times> 'm syscall_state_scheme) c_result" where
  "sys_close fd s = Some (0, s)"
definition sys_exit :: "u64 \<Rightarrow> 'm syscall_state_scheme \<Rightarrow> (u64 \<times> 'm syscall_state_scheme) c_result" where
  "sys_exit code s = do { s' \<leftarrow> thread_exit s; Some (0, s') }"
definition sys_yield :: "'m syscall_state_scheme \<Rightarrow> (u64 \<times> 'm syscall_state_scheme) c_result" where
  "sys_yield s = do { s' \<leftarrow> thread_yield s; Some (0, s') }"

fun call_syscall :: "syscall_fn \<Rightarrow> u64 \<Rightarrow> u64 \<Rightarrow> u64 \<Rightarrow> 'm syscall_state_scheme \<Rightarrow> (u64 \<times> 'm syscall_state_scheme) c_result" where
  "call_syscall Sys_write a1 a2 a3 s = sys_write a1 a2 a3 s"
| "call_syscall Sys_read a1 a2 a3 s = sys_read a1 a2 a3 s"
| "call_syscall Sys_open a1 a2 a3 s = sys_open a1 s"
| "call_syscall Sys_close a1 a2 a3 s = sys_close a1 s"
| "call_syscall Sys_exit a1 a2 a3 s = sys_exit a1 s"
| "call_syscall Sys_yield a1 a2 a3 s = sys_yield s"

definition read_msr :: "u32 \<Rightarrow> 'm syscall_state_scheme \<Rightarrow> u64" where
  "read_msr msr s = ucast (ucast (msrs s msr) :: u32)"

definition write_msr :: "(u32 \<Rightarrow> u32) \<Rightarrow> u32 \<Rightarrow> u64 \<Rightarrow> 'm syscall_state_scheme \<Rightarrow> 'm syscall_state_scheme" where
  "write_msr edx msr v s =
     s\<lparr>msrs := (msrs s)(msr := push_bit 32 (ucast (edx msr)) OR ucast (ucast v :: u32))\<rparr>"

definition star_value :: u64 where
  "star_value = push_bit 32 0x08 OR push_bit 48 0x10 OR push_bit 16 0x1B OR 0x23"

definition syscall_init :: "(u32 \<Rightarrow> u32) \<Rightarrow> u64 \<Rightarrow> 'm syscall_state_scheme \<Rightarrow> 'm syscall_state_scheme" where
  "syscall_init edx entry s =
     (let s1 = s\<lparr>syscall_table := (replicate 256 None)
            [unat SYSCALL_WRITE := Some Sys_write, unat SYSCALL_READ := Some Sys_read,
             unat SYSCALL_OPEN := Some Sys_open, unat SYSCALL_CLOSE := Some Sys_close,
             unat SYSCALL_EXIT := Some Sys_exit, unat SYSCALL_YIELD := Some Sys_yield]\<rparr>;
          s2 = write_msr edx 0xC0000080 (read_msr 0xC0000080 s1 OR 1) s1;
          s3 = write_msr edx 0xC0000081 star_value s2;
          s4 = write_msr edx 0xC0000082 entry s3;
          s5 = write_msr edx 0xC0000084 0x200 s4
      in s5\<lparr>vmm_log := vmm_log s5 @ ''[MinOS Syscall] MSRs configured (SYSCALL/SYSRET ready)'' @ [CHR 0x0A]\<rparr>)"

definition syscall_dispatch ::
  "u64 \<Rightarrow> u64 \<Rightarrow> u64 \<Rightarrow> u64 \<Rightarrow> u64 \<Rightarrow> u64 \<Rightarrow> 'm syscall_state_scheme \<Rightarrow> (u64 \<times> 'm syscall_state_scheme) c_result" where
  "syscall_dispatch num a1 a2 a3 a4 a5 s =
     (if 256 \<le> num then Some (- 1, s)
      else if length (syscall_table s) \<le> unat num then None
      else case syscall_table s ! unat num of
             None \<Rightarrow> Some (- 1, s)
           | Some f \<Rightarrow> call_syscall f a1 a2 a3 s)"

section \<open>What the calls answer\<close>

text \<open>
  After \<^verbatim>\<open>syscall_init\<close> the four file calls answer 0 and do nothing, \<^verbatim>\<open>exit\<close> and \<^verbatim>\<open>yield\<close>
  reach the scheduler, and every other number is refused without an effect.
\<close>

lemma syscall_dispatch_answers:
  assumes "syscall_table s = syscall_table (syscall_init edx entry s0)"
  shows "num \<in> {SYSCALL_WRITE, SYSCALL_READ, SYSCALL_OPEN, SYSCALL_CLOSE} \<Longrightarrow>
      syscall_dispatch num a1 a2 a3 a4 a5 s = Some (0, s)"
    and "syscall_dispatch SYSCALL_EXIT a1 a2 a3 a4 a5 s = map_option (Pair 0) (thread_exit s)"
    and "syscall_dispatch SYSCALL_YIELD a1 a2 a3 a4 a5 s = map_option (Pair 0) (thread_yield s)"
    and "num \<notin> {SYSCALL_WRITE, SYSCALL_READ, SYSCALL_OPEN, SYSCALL_CLOSE, SYSCALL_EXIT, SYSCALL_YIELD} \<Longrightarrow>
      syscall_dispatch num a1 a2 a3 a4 a5 s = Some (- 1, s)"
proof -
  have t: "syscall_table s = (replicate 256 None)[0 := Some Sys_write, 1 := Some Sys_read,
      2 := Some Sys_open, 3 := Some Sys_close, 60 := Some Sys_exit, 24 := Some Sys_yield]"
    using assms by (simp add: syscall_init_def write_msr_def Let_def syscall_numbers)
  note defs = syscall_dispatch_def t syscall_numbers sys_write_def sys_read_def sys_open_def sys_close_def
    sys_exit_def sys_yield_def map_conv_bind_option comp_def
  show "syscall_dispatch num a1 a2 a3 a4 a5 s = Some (0, s)"
    if "num \<in> {SYSCALL_WRITE, SYSCALL_READ, SYSCALL_OPEN, SYSCALL_CLOSE}"
    using that by (auto simp: defs word_le_nat_alt)
  show "syscall_dispatch SYSCALL_EXIT a1 a2 a3 a4 a5 s = map_option (Pair 0) (thread_exit s)"
    "syscall_dispatch SYSCALL_YIELD a1 a2 a3 a4 a5 s = map_option (Pair 0) (thread_yield s)"
    by (simp_all add: defs)
  show "syscall_dispatch num a1 a2 a3 a4 a5 s = Some (- 1, s)"
    if "num \<notin> {SYSCALL_WRITE, SYSCALL_READ, SYSCALL_OPEN, SYSCALL_CLOSE, SYSCALL_EXIT, SYSCALL_YIELD}"
  proof (cases "256 \<le> num")
    case False
    then have n: "unat num < 256" by (simp add: word_less_nat_alt not_le)
    have "unat num \<notin> {0, 1, 2, 3, 60, 24}"
      using that by (auto simp: syscall_numbers word_unat_eq_iff)
    then have "syscall_table s ! unat num = None"
      using n by (simp add: t)
    then show ?thesis using n False by (simp add: syscall_dispatch_def t)
  qed (simp add: syscall_dispatch_def)
qed

section \<open>Faults of the entry\<close>

text \<open>
  The selectors for system calls are in the high half of the register \<open>STAR\<close>; they are not the ones the
  code computes but the content of \<open>EDX\<close>.
\<close>

lemma star_selectors_lost:
  "drop_bit 32 (msrs (syscall_init edx entry s) 0xC0000081) = ucast (edx 0xC0000081)"
proof -
  have "msrs (syscall_init edx entry s) 0xC0000081 =
      push_bit 32 (ucast (edx 0xC0000081)) OR ucast (ucast star_value :: u32)"
    by (simp add: syscall_init_def write_msr_def Let_def)
  moreover have "drop_bit 32 (push_bit 32 (ucast x) OR ucast (y :: u32) :: u64) = ucast (x :: u32)" for x y
    by (rule bit_word_eqI) (auto simp: bit_simps dest: bit_imp_le_length)
  ultimately show ?thesis by simp
qed

text \<open>
  The moves between the pushes and the call: each copies a register that an earlier one has already
  overwritten, so the first argument arrives in four registers and the second and third are lost.
\<close>

definition syscall_moves :: "instr list" where
  "syscall_moves = [Mov RSI RDI, Mov RDX RSI, Mov RCX RDX, Mov R8 R10, Mov R9 R8, Mov RAX R9]"

lemma syscall_moves_lose_arguments:
  "regs (exec syscall_moves c) RSI = regs c RDI" "regs (exec syscall_moves c) RDX = regs c RDI"
  "regs (exec syscall_moves c) RCX = regs c RDI" "regs (exec syscall_moves c) R9 = regs c R10"
  "regs (exec syscall_moves c) RAX = regs c R10"
  by (simp_all add: syscall_moves_def)

end
