(* ===== verification/Minos_SyscallEntry.thy ===== *)
theory Minos_SyscallEntry
  imports Minos_Syscall
begin

text \<open>
  The system call entry of \<^verbatim>\<open>kernel/syscall_entry.s\<close>: the stack switch through the \<open>GS\<close> segment, the
  saved registers, the call of \<^verbatim>\<open>syscall_dispatch\<close> and the way back to the caller.  The processor has set
  \<open>RCX\<close> to the return address and \<open>R11\<close> to the flags when the code starts.
\<close>

section \<open>State\<close>

text \<open>The two bases of the segment \<open>GS\<close>, and what \<open>SYSRET\<close> loads: the instruction pointer and the flags.\<close>

record entry_state = syscall_state +
  gs_base :: u64
  kernel_gs_base :: u64
  rip :: u64
  rflags :: u64

text \<open>\<open>Store_gs n r\<close> is \<open>movq r, gs:n\<close> and \<open>Load_gs r n\<close> is \<open>movq gs:n, r\<close>.\<close>

datatype sys_instr =
    Plain instr
  | Swapgs
  | Store_gs u64 reg
  | Load_gs reg u64
  | Sysret

fun sys_exec1 :: "sys_instr \<Rightarrow> 'm entry_state_scheme \<Rightarrow> 'm entry_state_scheme" where
  "sys_exec1 (Plain i) s = s\<lparr>proc := exec1 i (proc s)\<rparr>"
| "sys_exec1 Swapgs s = s\<lparr>gs_base := kernel_gs_base s, kernel_gs_base := gs_base s\<rparr>"
| "sys_exec1 (Store_gs n r) s = s\<lparr>proc := (proc s)\<lparr>mem := (mem (proc s))(gs_base s + n := regs (proc s) r)\<rparr>\<rparr>"
| "sys_exec1 (Load_gs r n) s = s\<lparr>proc := (proc s)\<lparr>regs := (regs (proc s))(r := mem (proc s) (gs_base s + n))\<rparr>\<rparr>"
| "sys_exec1 Sysret s = s\<lparr>rip := regs (proc s) RCX, rflags := regs (proc s) R11 AND 0x3C7FD7 OR 2\<rparr>"

definition sys_exec :: "sys_instr list \<Rightarrow> 'm entry_state_scheme \<Rightarrow> 'm entry_state_scheme" where
  "sys_exec is s = fold sys_exec1 is s"

lemma sys_exec_simps [simp]:
  "sys_exec [] s = s" "sys_exec (i # is) s = sys_exec is (sys_exec1 i s)"
  "sys_exec (is @ js) s = sys_exec js (sys_exec is s)"
  by (simp_all add: sys_exec_def)

lemma sys_exec_plain: "sys_exec (map Plain is) s = s\<lparr>proc := exec is (proc s)\<rparr>"
  by (induction "is" arbitrary: s) simp_all

section \<open>The code\<close>

definition syscall_saved :: "reg list" where
  "syscall_saved = [R15, R14, R13, R12, R11, R10, R9, R8, RDI, RSI, RBP, RBX, RDX, RCX, RAX, RCX, R11]"

definition syscall_restored :: "reg list" where
  "syscall_restored = [R11, RCX, RAX, RDX, RBX, RBP, RSI, RDI, R9, R8, R10, R11, R12, R13, R14, R15]"

text \<open>Up to the jump into \<^verbatim>\<open>syscall_dispatch\<close>, the return address \<open>ret\<close> of the call included.\<close>

definition syscall_enter :: "u64 \<Rightarrow> sys_instr list" where
  "syscall_enter ret = [Swapgs, Store_gs 0 RSP, Load_gs RSP 8]
     @ map Plain (map Push syscall_saved @ syscall_moves @ [Push_imm ret])"

definition syscall_leave :: "sys_instr list" where
  "syscall_leave = map Plain (map Pop syscall_restored) @ [Load_gs RSP 0, Swapgs, Sysret]"

text \<open>
  The whole entry.  \<open>body\<close> is what the compiled \<^verbatim>\<open>syscall_dispatch\<close> does to the processor when its result is
  \<open>r\<close>, its return included; it finds its six arguments where the calling convention puts them.
\<close>

definition syscall_entry ::
  "u64 \<Rightarrow> (u64 \<Rightarrow> cpu \<Rightarrow> cpu) \<Rightarrow> 'm entry_state_scheme \<Rightarrow> 'm entry_state_scheme c_result" where
  "syscall_entry ret body s =
     (let s1 = sys_exec (syscall_enter ret) s; arg = regs (proc s1) in do {
        (r, s2) \<leftarrow> syscall_dispatch (arg RDI) (arg RSI) (arg RDX) (arg RCX) (arg R8) (arg R9) s1;
        Some (sys_exec syscall_leave (s2\<lparr>proc := body r (proc s2)\<rparr>))
      })"

section \<open>What the caller gets back\<close>

text \<open>What the calling convention demands of the compiled function: its result, its stack and the words above it.\<close>

definition sysv_body :: "(u64 \<Rightarrow> cpu \<Rightarrow> cpu) \<Rightarrow> u64 \<Rightarrow> bool" where
  "sysv_body body slot \<longleftrightarrow> (\<forall>r c.
     regs (body r c) RAX = r \<and> regs (body r c) RSP = regs c RSP + 8
     \<and> (\<forall>j \<in> {1..17}. mem (body r c) (regs c RSP + 8 * of_nat j) = mem c (regs c RSP + 8 * of_nat j))
     \<and> mem (body r c) slot = mem c slot)"

text \<open>Popping any list of registers: the last value popped into a register counts.\<close>

fun popped :: "(u64 \<Rightarrow> u64) \<Rightarrow> u64 \<Rightarrow> nat \<Rightarrow> reg list \<Rightarrow> (reg \<Rightarrow> u64) \<Rightarrow> reg \<Rightarrow> u64" where
  "popped m a k [] f = f"
| "popped m a k (r # rs) f = popped m a (k - 1) rs (f(r := m (below a k)))"

lemma popped_RSP:
  "RSP \<notin> set rs \<Longrightarrow> (popped m a k rs (f(RSP := x)))(RSP := y) = (popped m a k rs f)(RSP := y)"
  by (induction rs arbitrary: k f) (simp_all add: fun_upd_twist [of RSP])

lemma exec_pops_any:
  assumes "RSP \<notin> set rs" "regs c RSP = below a k" "length rs \<le> k"
  shows "exec (map Pop rs) c = c\<lparr>regs := (popped (mem c) a k rs (regs c))(RSP := below a (k - length rs))\<rparr>"
  using assms
proof (induction rs arbitrary: c k)
  case (Cons r rs)
  then have "exec (map Pop rs) (exec1 (Pop r) c) =
      (exec1 (Pop r) c)\<lparr>regs := (popped (mem c) a (k - 1) rs (regs (exec1 (Pop r) c)))(RSP := below a (k - 1 - length rs))\<rparr>"
    using below_step(2) [of a "k - 1"] by (subst Cons.IH [of _ "k - 1"]) simp_all
  then show ?case using Cons.prems by (intro cpu.equality ext) (simp_all add: popped_RSP fun_upd_twist [of RSP])
qed (simp add: fun_upd_idem)

text \<open>The state in which \<^verbatim>\<open>syscall_dispatch\<close> is called; \<open>g\<close> is the kernel's base of \<open>GS\<close>, \<open>a\<close> the kernel stack.\<close>

lemma syscall_enter_state:
  fixes s :: "'m entry_state_scheme" and ret :: u64
  assumes s1_def: "s1 = sys_exec (syscall_enter ret) s" and c: "c = proc s" and g: "g = kernel_gs_base s" and a: "a = mem c (g + 8)"
    and slot: "\<And>j. j \<in> {1..18} \<Longrightarrow> below a j \<noteq> g"
  shows "\<exists>c1. s1 = s\<lparr>gs_base := g, kernel_gs_base := gs_base s, proc := c1\<rparr>
      \<and> regs c1 RSP = below a 18 \<and> mem c1 g = regs c RSP
      \<and> (\<forall>j < 17. mem c1 (below a (Suc j)) = regs c (syscall_saved ! j))
      \<and> regs c1 RDI = regs c RDI \<and> regs c1 RSI = regs c RDI \<and> regs c1 RDX = regs c RDI \<and> regs c1 RCX = regs c RDI
      \<and> regs c1 R8 = regs c R10 \<and> regs c1 R9 = regs c R10"
proof -
  define c0 where "c0 = c\<lparr>regs := (regs c)(RSP := a), mem := (mem c)(g := regs c RSP)\<rparr>"
  define c1 where "c1 = exec (syscall_moves @ [Push_imm ret]) (exec (map Push syscall_saved) c0)"
  have ns: "RSP \<notin> set syscall_saved" by (simp add: syscall_saved_def)
  have len: "length syscall_saved = 17" by (simp add: syscall_saved_def)
  have top: "regs c0 RSP = below a 0" by (simp add: c0_def below_def)
  have "sys_exec [Swapgs, Store_gs 0 RSP, Load_gs RSP 8] s = s\<lparr>gs_base := g, kernel_gs_base := gs_base s, proc := c0\<rparr>"
    by (simp add: c0_def a) (simp add: c g)
  then have s1: "s1 = s\<lparr>gs_base := g, kernel_gs_base := gs_base s, proc := c1\<rparr>"
    unfolding s1_def syscall_enter_def sys_exec_simps(3) sys_exec_plain c1_def exec_simps(3) by (simp only:) simp
  note pushed = exec_pushes_regs [OF ns top] exec_pushes_saved [OF ns top]
  have untouched: "mem (exec (map Push rs) d) g = mem d g" if "regs d RSP = below a k" "k + length rs \<le> 17" for rs d k
    using that
  proof (induction rs arbitrary: d k)
    case (Cons r rs)
    then show ?case using slot [of "Suc k"] Cons.IH [of "exec1 (Push r) d" "Suc k"] by (simp add: below_step)
  qed simp
  have r1: "regs c1 = (regs c)(RSP := below a 18, RSI := regs c RDI, RDX := regs c RDI, RCX := regs c RDI,
      R8 := regs c R10, R9 := regs c R10, RAX := regs c R10)"
    using pushed(1) len by (simp add: c1_def syscall_moves_def c0_def fun_eq_iff below_step)
  have m1: "mem c1 = (mem (exec (map Push syscall_saved) c0))(below a 18 := ret)"
    using pushed(1) len by (simp add: c1_def syscall_moves_def below_step)
  show ?thesis
  proof (intro exI [of _ c1] conjI allI impI)
    show "mem c1 g = regs c RSP"
      using slot [of 18] untouched [OF top, of syscall_saved] by (simp add: m1 len c0_def)
    show "mem c1 (below a (Suc j)) = regs c (syscall_saved ! j)" if "j < 17" for j
    proof -
      have "syscall_saved ! j \<noteq> RSP" using that ns len by (metis nth_mem)
      then show ?thesis using that pushed(2) [of j] by (simp add: m1 len below_inj c0_def)
    qed
  qed (simp_all add: s1 r1)
qed

text \<open>
  What the sixteen pops make of the seventeen saved words, with the base \<open>a\<close> of the stack.
\<close>

lemma syscall_leave_state:
  assumes kept: "\<And>j. j < 17 \<Longrightarrow> mem c (below a (Suc j)) = f (syscall_saved ! j)"
    and top: "regs c RSP = below a 17"
  shows "exec (map Pop syscall_restored) c = c\<lparr>regs := f(RSP := below a 1, RDX := f RCX, RBX := f RDX, RBP := f RBX,
      RSI := f RBP, RDI := f RSI, R9 := f RDI, R10 := f R9, R11 := f R10, R12 := f R11, R13 := f R12, R14 := f R13, R15 := f R14)\<rparr>"
proof -
  have saved: "mem c (below a (Suc 0)) = f R15" "mem c (below a 2) = f R14" "mem c (below a 3) = f R13"
    "mem c (below a 4) = f R12" "mem c (below a 5) = f R11" "mem c (below a 6) = f R10" "mem c (below a 7) = f R9"
    "mem c (below a 8) = f R8" "mem c (below a 9) = f RDI" "mem c (below a 10) = f RSI" "mem c (below a 11) = f RBP"
    "mem c (below a 12) = f RBX" "mem c (below a 13) = f RDX" "mem c (below a 14) = f RCX" "mem c (below a 15) = f RAX"
    "mem c (below a 16) = f RCX" "mem c (below a 17) = f R11"
    using kept [of 0] kept [of 1] kept [of 2] kept [of 3] kept [of 4] kept [of 5] kept [of 6] kept [of 7] kept [of 8]
      kept [of 9] kept [of 10] kept [of 11] kept [of 12] kept [of 13] kept [of 14] kept [of 15] kept [of 16]
    by (simp_all add: syscall_saved_def numeral_2_eq_2 [symmetric])
  have "((popped (mem c) a 17 syscall_restored (regs c))(RSP := below a 1)) r =
      (f(RSP := below a 1, RDX := f RCX, RBX := f RDX, RBP := f RBX, RSI := f RBP, RDI := f RSI, R9 := f RDI, R10 := f R9,
        R11 := f R10, R12 := f R11, R13 := f R12, R14 := f R13, R15 := f R14)) r" for r
    by (cases r) (simp_all add: syscall_restored_def saved)
  then show ?thesis
    using exec_pops_any [of syscall_restored c a 17] top by (simp add: syscall_restored_def fun_eq_iff del: popped.simps)
qed

text \<open>The registers of the caller after the system call, computed from those before it.\<close>

definition shifted_regs :: "(reg \<Rightarrow> u64) \<Rightarrow> reg \<Rightarrow> u64" where
  "shifted_regs f = f(RDX := f RCX, RBX := f RDX, RBP := f RBX, RSI := f RBP, RDI := f RSI, R9 := f RDI, R10 := f R9,
     R11 := f R10, R12 := f R11, R13 := f R12, R14 := f R13, R15 := f R14)"


text \<open>A call with five different arguments, and a compiled body that clobbers all registers it may.\<close>

definition sample_body :: "u64 \<Rightarrow> cpu \<Rightarrow> cpu" where
  "sample_body r c = c\<lparr>regs := (\<lambda>x. if x = RAX then r else if x = RSP then regs c RSP + 8
     else if x \<in> {RCX, RDX, RSI, RDI, R8, R9, R10, R11} then 0xDEAD else regs c x)\<rparr>"

definition sample_caller :: cpu where
  "sample_caller = \<lparr>regs = (\<lambda>x. case x of RAX \<Rightarrow> 1 | RDI \<Rightarrow> 0 | RSI \<Rightarrow> 0x5000 | RDX \<Rightarrow> 16 | R10 \<Rightarrow> 4 | R8 \<Rightarrow> 5 | R9 \<Rightarrow> 6
      | RCX \<Rightarrow> 0x400000 | R11 \<Rightarrow> 0x202 | RSP \<Rightarrow> 0x7000 | RBX \<Rightarrow> 11 | RBP \<Rightarrow> 12 | R12 \<Rightarrow> 13 | R13 \<Rightarrow> 14 | R14 \<Rightarrow> 15 | R15 \<Rightarrow> 16),
     mem = (\<lambda>_. 0x9000)\<rparr>"

definition sample_entry :: entry_state where
  "sample_entry = syscall_state.extend
     (syscall_init (\<lambda>_. 0) 0x8000 (sched_state.extend (sample_sched\<lparr>proc := sample_caller\<rparr>) \<lparr>syscall_table = [], msrs = (\<lambda>_. 0)\<rparr>))
     \<lparr>gs_base = 0, kernel_gs_base = 0x1000, rip = 0, rflags = 0\<rparr>"

lemma sample_entry_fields:
  "proc sample_entry = sample_caller" "kernel_gs_base sample_entry = 0x1000"
  "syscall_table sample_entry = syscall_table (syscall_init (\<lambda>_. 0) 0x8000 sample_entry)"
  by (simp_all add: sample_entry_def syscall_init_def write_msr_def Let_def syscall_state.defs sched_state.defs)


end
