(* ===== verification/Minos_Idt.thy ===== *)
theory Minos_Idt
  imports Minos_Cpu Minos_Serial
begin

text \<open>
  The processor tables of \<^verbatim>\<open>kernel/gdt.c\<close> and \<^verbatim>\<open>kernel/idt.c\<close>, the exception
  handler and the entry and exit code of the hardware interrupts.  The addresses the linker gives to
  the stubs and tables are parameters.
\<close>

section \<open>Segments (gdt.c)\<close>

definition gdt :: "u64 list" where
  "gdt = [0, 0x00AF9A000000FFFF, 0x00AF92000000FFFF]"

text \<open>The registers of the processor that the two files load; a table register is limit and base.\<close>

record idt_gate =
  offset_low :: u16
  selector :: u16
  ist :: u8
  type_attr :: u8
  offset_mid :: u16
  offset_high :: u32
  gate_zero :: u32

record cpu_tables =
  gdtr :: "u16 \<times> u64"
  idtr :: "u16 \<times> u64"
  seg_cs :: u16
  seg_ds :: u16
  seg_es :: u16
  seg_ss :: u16
  interrupt_flag :: bool
  idt :: "idt_gate list"

definition gdt_init :: "u64 \<Rightarrow> 'm cpu_tables_scheme \<Rightarrow> 'm cpu_tables_scheme" where
  "gdt_init gdt_address s =
     s\<lparr>gdtr := (of_nat (8 * length gdt - 1), gdt_address), seg_cs := 0x08,
       seg_ds := 0x10, seg_es := 0x10, seg_ss := 0x10\<rparr>"

section \<open>Gates (idt.c)\<close>

definition zero_gate :: idt_gate where
  "zero_gate = \<lparr>offset_low = 0, selector = 0, ist = 0, type_attr = 0, offset_mid = 0, offset_high = 0, gate_zero = 0\<rparr>"

definition set_gate :: "u8 \<Rightarrow> u64 \<Rightarrow> 'm cpu_tables_scheme \<Rightarrow> 'm cpu_tables_scheme" where
  "set_gate n fn s =
     s\<lparr>idt := (idt s)[unat n := \<lparr>offset_low = ucast fn, selector = 8, ist = 0, type_attr = 0x8E,
         offset_mid = ucast (drop_bit 16 fn), offset_high = ucast (drop_bit 32 fn), gate_zero = 0\<rparr>]\<rparr>"

text \<open>The vectors with a stub, in the order in which the gates are set.\<close>

definition stub_vectors :: "u8 list" where
  "stub_vectors = [0, 1, 3, 6, 8, 13, 14, 32, 33, 34, 35, 36, 37, 38, 39, 40, 41, 42, 43, 44, 45, 46, 47]"

text \<open>\<open>stub\<close> gives the address of \<^verbatim>\<open>isr_n\<close> or \<^verbatim>\<open>irq_n\<close>.\<close>

definition idt_init :: "u64 \<Rightarrow> (u8 \<Rightarrow> u64) \<Rightarrow> 'm cpu_tables_scheme \<Rightarrow> 'm cpu_tables_scheme" where
  "idt_init idt_address stub s =
     (let s1 = s\<lparr>interrupt_flag := False, idt := replicate 256 zero_gate\<rparr>;
          s2 = fold (\<lambda>n. set_gate n (stub n)) stub_vectors s1
      in s2\<lparr>idtr := (of_nat (16 * 256 - 1), idt_address)\<rparr>)"

section \<open>Exceptions\<close>

definition exception_name :: "u64 \<Rightarrow> string" where
  "exception_name vector =
     (if vector = 0 then ''#DE divide error'' else if vector = 1 then ''#DB debug''
      else if vector = 3 then ''#BP breakpoint'' else if vector = 6 then ''#UD invalid opcode''
      else if vector = 8 then ''#DF double fault'' else if vector = 13 then ''#GP general protection''
      else if vector = 14 then ''#PF page fault'' else ''unknown'')"

text \<open>The message; the function then stays in \<^verbatim>\<open>halt_loop\<close>.\<close>

definition exception_dispatch :: "u64 \<Rightarrow> (('d, 'm) machine_scheme, unit) state" where
  "exception_dispatch vector =
     log_fmt (''[MinOS IDT] Exception vector %u (%s); halting'' @ [CHR 0x0A])
       [Num vector, Str (Some (exception_name vector))]"

text \<open>The stub of an exception up to the call of \<^verbatim>\<open>exception_dispatch\<close>, with its argument in \<open>RCX\<close>.\<close>

definition isr_stub :: "u64 \<Rightarrow> instr list" where
  "isr_stub n = [Push_imm n, Load RCX RSP, And_imm RSP (- 16), Sub_imm RSP 32]"

section \<open>Hardware interrupts\<close>

text \<open>The registers in the order in which the entry pushes them.\<close>

definition irq_saved :: "reg list" where
  "irq_saved = [RAX, RCX, RDX, RBX, RBP, RSI, RDI, R8, R9, R10, R11, R12, R13, R14, R15]"

definition irq_stub :: "u64 \<Rightarrow> instr list" where
  "irq_stub n = [Push_imm n]"

text \<open>\<^verbatim>\<open>irq_common\<close> up to the call of \<^verbatim>\<open>irq_dispatch\<close>, and from there to \<^verbatim>\<open>iretq\<close>.\<close>

definition irq_enter :: "instr list" where
  "irq_enter = map Push irq_saved @ [Mov R12 RSP, Mov RCX RSP, And_imm RSP (- 16), Sub_imm RSP 32]"

definition irq_leave :: "instr list" where
  "irq_leave = [Mov RSP R12] @ map Pop (rev irq_saved) @ [Add_imm RSP 8]"

text \<open>The interrupt with vector \<open>n\<close>, from the processor's frame to \<^verbatim>\<open>iretq\<close>, around the code \<open>call\<close>.\<close>

definition irq_common :: "u64 \<Rightarrow> (cpu \<Rightarrow> cpu) \<Rightarrow> cpu \<Rightarrow> cpu" where
  "irq_common n call c = exec irq_leave (call (exec irq_enter (exec (irq_stub n) c)))"

text \<open>\<^verbatim>\<open>struct interrupt_frame\<close>: the offset of \<open>vector\<close> behind the fifteen registers.\<close>

definition frame_vector :: "cpu \<Rightarrow> u64 \<Rightarrow> u64" where
  "frame_vector c frame = mem c (frame + 8 * 15)"

section \<open>The interrupt entry is transparent\<close>

lemma irq_saved_all: "r \<noteq> RSP \<longleftrightarrow> r \<in> set irq_saved"
  by (cases r) (simp_all add: irq_saved_def)

lemma irq_saved_length [simp]: "length irq_saved = 15"
  by (simp add: irq_saved_def)

lemma aligned_stack: "((x :: u64) AND - 16) - 32 AND 15 = 0"
proof -
  have "x AND - 16 = x div 16 * 16"
    using and_not_mask [of x 4] by (simp add: mask_eq_exp_minus_1 minus_mod_eq_div_mult)
  then have "(x AND - 16) - 32 = push_bit 4 (x div 16 - 2)"
    by (simp add: push_bit_eq_mult algebra_simps)
  moreover have "push_bit 4 y AND (15 :: u64) = 0" for y
    using take_bit_push_bit [of 4 4 y] take_bit_eq_mask [of 4 "push_bit 4 y"] by (simp add: mask_eq_exp_minus_1)
  ultimately show ?thesis by metis
qed

text \<open>
  What the entry code leaves for the call: the frame in \<open>RCX\<close> and \<open>R12\<close>, the saved registers and the
  vector in memory below \<open>A\<close>, the top of the frame, and an aligned stack.
\<close>

lemma irq_entry_state:
  fixes c :: cpu and n :: u64
  defines "c' \<equiv> exec irq_enter (exec (irq_stub n) c)"
  assumes A: "regs c RSP = below A 5"
  shows "regs c' R12 = below A 21" "regs c' RCX = below A 21"
    and "\<And>j. j < 15 \<Longrightarrow> mem c' (below A (Suc (6 + j))) = regs c (irq_saved ! j)"
    and "mem c' (below A 6) = n"
    and "\<And>j. j \<le> 5 \<Longrightarrow> mem c' (below A j) = mem c (below A j)"
    and "regs c' RSP AND 15 = 0"
proof -
  have s: "RSP \<notin> set irq_saved" using irq_saved_all by blast
  let ?c1 = "exec (irq_stub n) c"
  let ?c2 = "exec (map Push irq_saved) ?c1"
  have c1: "regs ?c1 RSP = below A 6" using A by (simp add: irq_stub_def below_def)
  note p = exec_pushes_regs [OF s c1] exec_pushes_above [OF s c1] exec_pushes_saved [OF s c1]
  have m: "mem c' = mem ?c2" by (simp add: c'_def irq_enter_def)
  show "regs c' R12 = below A 21" "regs c' RCX = below A 21"
    using p(1) by (simp_all add: c'_def irq_enter_def)
  show "mem c' (below A (Suc (6 + j))) = regs c (irq_saved ! j)" if "j < 15" for j
  proof -
    have "irq_saved ! j \<noteq> RSP" using that s by (metis irq_saved_length nth_mem)
    then show ?thesis using p(3) [of j] that m by (simp add: irq_stub_def)
  qed
  show "mem c' (below A 6) = n"
    using p(2) [of 6] m A by (simp add: irq_stub_def below_def)
  show "mem c' (below A j) = mem c (below A j)" if "j \<le> 5" for j
    using p(2) [of j] m A that below_inj [of j 6 A] by (simp add: irq_stub_def below_def algebra_simps)
  show "regs c' RSP AND 15 = 0"
    by (simp add: c'_def irq_enter_def aligned_stack)
qed

text \<open>
  C21: \<^verbatim>\<open>irq_common\<close> gives the handler a frame whose \<^verbatim>\<open>vector\<close> is the number its stub
  pushed, on a stack aligned for the call, and gives back to the interrupted code all sixteen
  registers and the five words the processor pushed, whatever the handler does to the other registers
  and to memory: it only has to keep \<open>R12\<close>, which the calling convention demands, and the frame.
\<close>

theorem irq_common_transparent:
  assumes keeps_r12: "\<And>c'. regs (call c') R12 = regs c' R12"
    and keeps_frame: "\<And>c' j. j < 21 \<Longrightarrow> mem (call c') (regs c' RCX + 8 * of_nat j) = mem c' (regs c' RCX + 8 * of_nat j)"
  shows "(let c' = exec irq_enter (exec (irq_stub n) c) in frame_vector c' (regs c' RCX) = n \<and> regs c' RSP AND 15 = 0)
    \<and> regs (irq_common n call c) = regs c
    \<and> (\<forall>i < 5. mem (irq_common n call c) (regs c RSP + 8 * of_nat i) = mem c (regs c RSP + 8 * of_nat i))"
proof -
  define A where "A = regs c RSP + 40"
  define c' where "c' = exec irq_enter (exec (irq_stub n) c)"
  have A: "regs c RSP = below A 5" by (simp add: A_def below_def)
  note entry = irq_entry_state [OF A, where n = n, folded c'_def]
  have at: "regs c' RCX + 8 * of_nat (21 - j) = below A j" if "j \<le> 21" for j
    using that entry(2) by (simp add: below_def of_nat_diff algebra_simps)
  have kept: "mem (call c') (below A j) = mem c' (below A j)" if "0 < j" "j \<le> 21" for j
    using keeps_frame [of "21 - j" c'] at [OF that(2)] that by simp
  define d where "d = exec1 (Mov RSP R12) (call c')"
  have pops: "exec (map Pop (rev irq_saved)) d =
      d\<lparr>regs := (\<lambda>r. if r = RSP then below A 6 else if r \<in> set irq_saved then regs c r else regs d r)\<rparr>"
  proof (rule exec_pops)
    show "RSP \<notin> set irq_saved" using irq_saved_all by blast
    show "regs d RSP = below A (6 + length irq_saved)"
      using keeps_r12 [of c'] entry(1) by (simp add: d_def)
    show "mem d (below A (Suc (6 + j))) = regs c (irq_saved ! j)" if "j < length irq_saved" for j
      using kept [of "Suc (6 + j)"] entry(3) [of j] that by (simp add: d_def)
  qed
  have upd: "(\<lambda>r. if r = RSP then below A 6 else if r \<in> set irq_saved then regs c r else regs d r)(RSP := below A 6 + 8)
      = regs c"
    using irq_saved_all A by (auto simp: fun_eq_iff below_def)
  have "irq_common n call c = exec1 (Add_imm RSP 8) (exec (map Pop (rev irq_saved)) d)"
    by (simp add: irq_common_def irq_leave_def c'_def d_def)
  then have fin: "irq_common n call c = (call c')\<lparr>regs := regs c\<rparr>"
    unfolding pops using upd by (simp add: d_def)
  have v: "frame_vector c' (regs c' RCX) = n"
    using at [of 6] entry(4) by (simp add: frame_vector_def)
  have m: "mem (irq_common n call c) (regs c RSP + 8 * of_nat i) = mem c (regs c RSP + 8 * of_nat i)" if "i < 5" for i
  proof -
    have "regs c RSP + 8 * of_nat i = below A (5 - i)"
      using that A by (simp add: below_def of_nat_diff algebra_simps)
    then show ?thesis using kept [of "5 - i"] entry(5) [of "5 - i"] that by (simp add: fin)
  qed
  show ?thesis
    unfolding c'_def [symmetric] Let_def
  proof (intro conjI allI impI)
    show "regs (irq_common n call c) = regs c" by (simp add: fin)
  qed (rule v entry(6) m, assumption?)+
qed

text \<open>A handler that clobbers the registers the calling convention does not protect.\<close>

definition clobber :: "cpu \<Rightarrow> cpu" where
  "clobber c = c\<lparr>regs := (\<lambda>r. if r \<in> {RAX, RCX, RDX, R8, R9, R10, R11} then 0xDEAD else regs c r)\<rparr>"

definition sample_cpu_state :: cpu where
  "sample_cpu_state = \<lparr>regs = (\<lambda>r. if r = RSP then 0x9000 else 7), mem = (\<lambda>a. a + 1)\<rparr>"

theorem irq_common_transparent_witness:
  "regs (irq_common 33 clobber sample_cpu_state) RAX = 7 \<and> regs (irq_common 33 clobber sample_cpu_state) RSP = 0x9000"
proof -
  have "regs (irq_common 33 clobber sample_cpu_state) = regs sample_cpu_state"
    using irq_common_transparent [of clobber 33 sample_cpu_state] by (simp add: clobber_def)
  then show ?thesis by (simp add: sample_cpu_state_def)
qed

lemma isr_stub_argument: "regs (exec (isr_stub n) c) RCX = n"
  by (simp add: isr_stub_def)

text \<open>
  The frame holds the registers in the order of the pushes, the last one lowest; the fields of
  \<^verbatim>\<open>struct interrupt_frame\<close> list them the other way round, so that a handler that read
  \<^verbatim>\<open>frame->rax\<close> would get \<open>R15\<close>.
\<close>

lemma interrupt_frame_reversed:
  "(let c' = exec irq_enter (exec (irq_stub n) c) in mem c' (regs c' RCX)) = regs c R15"
proof -
  have A: "regs c RSP = below (regs c RSP + 40) 5" by (simp add: below_def)
  show ?thesis
    using irq_entry_state(2) [OF A, of n] irq_entry_state(3) [OF A, of 14 n]
    by (simp add: irq_saved_def Let_def)
qed

section \<open>The gates\<close>

text \<open>
  The processor's reading of a gate: the address of a present interrupt gate of level 0 whose selector
  names a present 64-bit code segment of the table.
\<close>

definition long_mode_code :: "u64 \<Rightarrow> bool" where
  "long_mode_code d \<longleftrightarrow> bit d 53 \<and> \<not> bit d 54 \<and> bit d 47 \<and> bit d 44 \<and> bit d 43"

definition gate_target :: "u64 list \<Rightarrow> idt_gate \<Rightarrow> u64 option" where
  "gate_target table g =
     (let i = unat (selector g) div 8 in
      if type_attr g = 0x8E \<and> i < length table \<and> long_mode_code (table ! i) then
        Some (ucast (offset_low g) OR push_bit 16 (ucast (offset_mid g)) OR push_bit 32 (ucast (offset_high g)))
      else None)"

lemma address_pieces:
  "ucast (ucast (a :: u64) :: u16) OR push_bit 16 (ucast (ucast (drop_bit 16 a) :: u16))
     OR push_bit 32 (ucast (ucast (drop_bit 32 a) :: u32)) = a"
proof (rule bit_word_eqI)
  fix n
  assume "n < LENGTH(64)"
  then show "bit (ucast (ucast a :: u16) OR push_bit 16 (ucast (ucast (drop_bit 16 a) :: u16))
      OR push_bit 32 (ucast (ucast (drop_bit 32 a) :: u32)) :: u64) n = bit a n"
    by (cases "n < 16"; cases "n < 32") (auto simp: bit_simps)
qed

lemma kernel_code_segment: "long_mode_code (gdt ! 1)" "length gdt = 3"
  by (simp_all add: long_mode_code_def gdt_def bit_numeral_simps)

lemma set_gate_fields [simp]:
  "length (idt (set_gate n fn s)) = length (idt s)" "interrupt_flag (set_gate n fn s) = interrupt_flag s"
  "gdtr (set_gate n fn s) = gdtr s"
  by (simp_all add: set_gate_def)

lemma gate_target_set:
  assumes "unat i < length (idt s)"
  shows "gate_target gdt (idt (set_gate n fn s) ! unat i) = (if i = n then Some fn else gate_target gdt (idt s ! unat i))"
proof (cases "i = n")
  case True
  then show ?thesis
    using assms address_pieces [of fn] kernel_code_segment by (simp add: set_gate_def gate_target_def)
next
  case False
  then have "idt (set_gate n fn s) ! unat i = idt s ! unat i"
    by (simp add: set_gate_def word_unat_eq_iff)
  with False show ?thesis by simp
qed

lemma gate_targets_set:
  assumes "unat i < length (idt s)"
  shows "gate_target gdt (idt (fold (\<lambda>n. set_gate n (stub n)) ns s) ! unat i)
    = (if i \<in> set ns then Some (stub i) else gate_target gdt (idt s ! unat i))"
    and "interrupt_flag (fold (\<lambda>n. set_gate n (stub n)) ns s) = interrupt_flag s"
    and "gdtr (fold (\<lambda>n. set_gate n (stub n)) ns s) = gdtr s"
  using assms by (induction ns arbitrary: s) (auto simp: gate_target_set)

text \<open>
  C25: after \<^verbatim>\<open>gdt_init\<close> and \<^verbatim>\<open>idt_init\<close> the processor finds, for each of the 256 vectors,
  exactly the stub of that vector where there is one and no gate elsewhere: the pieces of each address
  fit together, and the selector names a present 64-bit code segment of the kernel's own table.  The
  table registers hold the tables' sizes and interrupts stay off.
\<close>

theorem idt_gates_lead_to_stubs:
  "let s' = idt_init idt_address stub (gdt_init gdt_address s) in
     (\<forall>i. gate_target gdt (idt s' ! unat i) = (if i \<in> set stub_vectors then Some (stub i) else None))
     \<and> \<not> interrupt_flag s' \<and> idtr s' = (4095, idt_address) \<and> gdtr s' = (23, gdt_address)"
proof -
  have "gate_target gdt zero_gate = None" by (simp add: gate_target_def zero_gate_def)
  moreover have "unat (i :: u8) < 256" for i using unsigned_less [of i] by simp
  ultimately show ?thesis
    by (simp add: idt_init_def gdt_init_def Let_def gate_targets_set kernel_code_segment)
qed

end
