(* ===== verification/Minos_Kernel.thy ===== *)
theory Minos_Kernel
  imports Minos_Files Minos_Keyboard Minos_Apic Minos_SyscallEntry Minos_Idt
begin

text \<open>
  The kernel as a whole: \<^verbatim>\<open>kernel_main\<close> of \<^verbatim>\<open>kernel/main.c\<close>, which starts the components one
  after the other and then polls the console, and \<^verbatim>\<open>irq_dispatch\<close> of \<^verbatim>\<open>kernel/idt.c\<close>, which hands
  the interrupts to the timer and the keyboard.  The state of the console is extended by the states of
  the other components; the timer's tick counter and rate are the console's \<open>tick_now\<close> and
  \<open>tick_rate\<close>, and the keyboard's queue is the console's \<open>keys\<close>.
\<close>

section \<open>State\<close>

record 'd kernel = "'d console_machine" +
  k_tables :: cpu_tables
  k_memory :: syscall_state
  k_lapic :: u64
  k_lapic_writes :: "(u32 \<times> u32) list"
  k_modifiers :: u8
  k_extended :: u8

text \<open>
  What the linker and the firmware decide: the addresses of the tables and of code, the memory the
  firmware's map lies in, the pixels, and what EDX holds at a WRMSR instruction.
\<close>

record kernel_image =
  gdt_address :: u64
  idt_address :: u64
  stub_address :: "u8 \<Rightarrow> u64"
  kernel_code :: u64
  idle_address :: u64
  syscall_address :: u64
  wrmsr_edx :: "u32 \<Rightarrow> u32"
  map_memory :: "u64 \<Rightarrow> efi_memory_descriptor"
  fb_memory :: "u32 list"

text \<open>The timer's and the keyboard's part of the state.\<close>

definition apic_view :: "'d kernel \<Rightarrow> 'd apic_machine" where
  "apic_view k = \<lparr>dev = dev k, trace = trace k, klog = klog k, serial_initialized = serial_initialized k,
     lapic = k_lapic k, ticks = tick_now k, tick_hz = tick_rate k, lapic_writes = k_lapic_writes k\<rparr>"

definition set_apic :: "'d apic_machine \<Rightarrow> 'd kernel \<Rightarrow> 'd kernel" where
  "set_apic a k = k\<lparr>dev := dev a, trace := trace a, klog := klog a, serial_initialized := serial_initialized a,
     k_lapic := lapic a, tick_now := ticks a, tick_rate := tick_hz a, k_lapic_writes := lapic_writes a\<rparr>"

definition kbd_view :: "'d kernel \<Rightarrow> 'd kbd_machine" where
  "kbd_view k = \<lparr>dev = dev k, trace = trace k, klog = klog k, serial_initialized = serial_initialized k,
     modifiers = k_modifiers k, extended = k_extended k, input = keys k\<rparr>"

definition set_kbd :: "'d kbd_machine \<Rightarrow> 'd kernel \<Rightarrow> 'd kernel" where
  "set_kbd b k = k\<lparr>dev := dev b, trace := trace b, klog := klog b, serial_initialized := serial_initialized b,
     k_modifiers := modifiers b, k_extended := extended b, keys := input b\<rparr>"

text \<open>The memory components write their messages to logs of their own; they go to the serial port.\<close>

definition set_memory :: "syscall_state \<Rightarrow> 'd kernel \<Rightarrow> 'd kernel" where
  "set_memory s k = k\<lparr>klog := klog k @ pmm_log (pmm s) @ vmm_log s, frames := (pmm s)\<lparr>pmm_log := []\<rparr>,
     k_memory := s\<lparr>pmm := (pmm s)\<lparr>pmm_log := []\<rparr>, vmm_log := []\<rparr>\<rparr>"

definition log_line :: "string \<Rightarrow> 'd kernel \<Rightarrow> 'd kernel" where
  "log_line t k = snd (run_state (log_text (t @ [CHR 0x0A])) k)"

definition log_format :: "string \<Rightarrow> fmt_arg list \<Rightarrow> 'd kernel \<Rightarrow> 'd kernel" where
  "log_format t args k = snd (run_state (log_fmt (t @ [CHR 0x0A]) args) k)"

section \<open>Interrupts (idt.c)\<close>

definition irq_dispatch :: "'d cpu_hw \<Rightarrow> u64 \<Rightarrow> 'd kernel \<Rightarrow> 'd kernel c_result" where
  "irq_dispatch cpu vector k =
     (if vector = 32 then do { a \<leftarrow> timer_irq cpu (apic_view k); Some (set_apic a k) }
      else if vector = 33 then Some (set_kbd (snd (run_state (keyboard_irq (cpu_ports cpu)) (kbd_view k))) k)
      else Some k)"

section \<open>The boot screen\<close>

definition COLOR_BG :: u32 where "COLOR_BG = 0xFF12161F"
definition COLOR_CARD :: u32 where "COLOR_CARD = 0xFF1E2430"
definition COLOR_ACCENT :: u32 where "COLOR_ACCENT = 0xFF38BDF8"
definition COLOR_ACCENT_PURP :: u32 where "COLOR_ACCENT_PURP = 0xFF818CF8"
definition COLOR_TEXT_WHITE :: u32 where "COLOR_TEXT_WHITE = 0xFFF8FAFC"
definition COLOR_TEXT_MUTED :: u32 where "COLOR_TEXT_MUTED = 0xFF94A3B8"
definition COLOR_SUCCESS :: u32 where "COLOR_SUCCESS = 0xFF34D399"

definition boot_header :: "u32 \<Rightarrow> draw list" where
  "boot_header screen_w =
    [Clear COLOR_BG, Fill 0 0 screen_w 32 0xFF181F2C, Outline 0 0 screen_w 32 COLOR_CARD_BORDER,
     Text 16 8 (Some ''MinOS v0.1.0 (x86_64) | Milestone 1: Bare-Metal Prototype'') COLOR_TEXT_WHITE 0,
     Text (screen_w - 220) 8 (Some ''[UEFI GOP 32-BPP]'') COLOR_ACCENT 0]"

definition cpu_badge :: "u8 list \<Rightarrow> string" where
  "cpu_badge vendor = ''CPU: '' @ takeWhile (\<lambda>c. c \<noteq> CHR 0x00) (map char_of_byte (take 12 vendor))"

definition boot_card :: "u32 \<Rightarrow> u32 \<Rightarrow> u8 list \<Rightarrow> draw list" where
  "boot_card x y vendor =
    [Fill (x + 4) (y + 4) 640 360 0xFF0B0E14, Fill x y 640 360 COLOR_CARD, Outline x y 640 360 COLOR_CARD_BORDER,
     Fill x y 640 4 COLOR_ACCENT,
     Text (x + 24) (y + 24) (Some ''MinOS Operating System'') COLOR_ACCENT 0,
     Text (x + 24) (y + 46) (Some ''Hardware & Kernel Initialization Verified'') COLOR_TEXT_MUTED 0,
     Fill (x + 24) (y + 72) (640 - 48) 1 COLOR_CARD_BORDER,
     Badge (x + 24) (y + 88) ''KERNEL: ACTIVE'' 0xFF064E3B COLOR_SUCCESS,
     Badge (x + 180) (y + 88) (cpu_badge vendor) 0xFF312E81 COLOR_ACCENT_PURP,
     Badge (x + 360) (y + 88) ''MODE: RING 0 (x86_64)'' 0xFF1E293B COLOR_TEXT_WHITE,
     Text (x + 24) (y + 130 + 0) (Some ''[OK] UEFI Firmware Handoff: ExitBootServices executed cleanly'') COLOR_SUCCESS 0,
     Text (x + 24) (y + 130 + 24) (Some ''[OK] Linear Framebuffer: GOP 32-bit linear address mapped'') COLOR_SUCCESS 0,
     Text (x + 24) (y + 130 + 48) (Some ''[OK] Serial Communication: COM1 (0x3F8) 115200 baud active'') COLOR_SUCCESS 0,
     Text (x + 24) (y + 130 + 72) (Some ''[OK] Memory Map Discovered: Physical descriptors reported'') COLOR_SUCCESS 0,
     Text (x + 24) (y + 130 + 96) (Some ''[OK] Execution State: Long Mode 64-bit kernel entry'') COLOR_SUCCESS 0,
     Fill (x + 24) (y + 280) (640 - 48) 1 COLOR_CARD_BORDER,
     Text (x + 24) (y + 296) (Some ''Milestone 1 Complete. System halted safely (cli; hlt).'') COLOR_TEXT_MUTED 0]"

definition boot_screen :: "u32 \<Rightarrow> u32 \<Rightarrow> u8 list \<Rightarrow> draw list" where
  "boot_screen screen_w screen_h vendor =
     boot_header screen_w
     @ boot_card (if 640 < screen_w then (screen_w - 640) div 2 else 10)
         (if 360 < screen_h then (screen_h - 360) div 2 else 40) vendor"

section \<open>Start (main.c)\<close>

text \<open>
  How the start ends: in \<^verbatim>\<open>halt_loop\<close>, with the processor unable to fetch the next instruction after
  the page tables were switched, or in front of the main loop.
\<close>

datatype 'd boot_end = Halted "'d kernel" | Unmapped | Running "'d kernel"

definition kernel_banner :: "'d hw \<Rightarrow> 'd kernel \<Rightarrow> 'd kernel" where
  "kernel_banner hw k =
     log_line ''[MinOS Kernel] Successfully entered kernel_main!''
     (log_line ''========================================================='' (
      log_line ''             Milestone 1: Bare-Metal Prototype           '' (
      log_line ''       MinOS Kernel v0.1.0 (x86_64 Long Mode)            '' (
      log_line ([CHR 0x0A] @ ''========================================================='') (
      snd (run_state (serial_init hw) k))))))"

text \<open>The tables of the processor, then the physical and the virtual memory.\<close>

definition kernel_tables :: "kernel_image \<Rightarrow> 'd kernel \<Rightarrow> 'd kernel" where
  "kernel_tables img k =
     k\<lparr>k_tables := idt_init (idt_address img) (stub_address img) (gdt_init (gdt_address img) (k_tables k))\<rparr>"

definition kernel_paging :: "kernel_image \<Rightarrow> u64 \<times> boot_info \<Rightarrow> 'd kernel \<Rightarrow> 'd kernel c_result" where
  "kernel_paging img info k = do {
     p \<leftarrow> pmm_init (map_memory img) (Some info) (pmm (k_memory k));
     s \<leftarrow> vmm_init (Some (snd info)) ((k_memory k)\<lparr>pmm := p\<rparr>);
     Some (set_memory s k)
   }"

definition code_mapped :: "kernel_image \<Rightarrow> 'd kernel \<Rightarrow> bool" where
  "code_mapped img k \<longleftrightarrow> mmu_walk (words (k_memory k)) (cr3 (k_memory k)) (kernel_code img) \<noteq> None"

definition kernel_heap :: "kernel_image \<Rightarrow> 'd kernel \<Rightarrow> 'd kernel c_result" where
  "kernel_heap img k =
     (let k1 = log_format ''[MinOS Kernel] PMM statistics: %u MiB usable, %u MiB reserved, %u free frames''
                 [Num (pmm_usable_bytes (frames k) div (1024 * 1024)), Num (pmm_reserved_bytes (frames k) div (1024 * 1024)),
                  Num (pmm_free_frames (frames k))]
                 (log_line ''[MinOS Kernel] GDT, IDT, PMM and VMM initialized; interrupts masked.'' k)
      in do {
        s \<leftarrow> scheduler_init (idle_address img) (heap_init (k_memory k1));
        Some (set_memory (syscall_init (wrmsr_edx img) (syscall_address img) s) k1)
      })"

definition kernel_report :: "boot_info \<Rightarrow> 'd kernel \<Rightarrow> 'd kernel" where
  "kernel_report bi k =
     log_format ''[MinOS Kernel] Framebuffer:    %ux%u, pitch: %u bytes, base: %p''
       [Num (ucast (fb_width bi)), Num (ucast (fb_height bi)), Num (ucast (fb_pitch bi)), Num (fb_base bi)]
     (log_format ''[MinOS Kernel] Physical RAM:   %u MB total, %u MB usable''
       [Num (total_memory_bytes bi div (1024 * 1024)), Num (usable_memory_bytes bi div (1024 * 1024))]
     (log_format ''[MinOS Kernel] CPU Vendor:     %s''
       [Str (Some (takeWhile (\<lambda>c. c \<noteq> CHR 0x00) (map char_of_byte (cpu_vendor bi))))]
     (log_format ''[MinOS Kernel] BootInfo Magic: %p (VALID)'' [Num (magic bi)] k)))"

definition kernel_screen :: "kernel_image \<Rightarrow> boot_info \<Rightarrow> 'd kernel \<Rightarrow> 'd kernel c_result" where
  "kernel_screen img bi k =
     (let s = fb_init (fb_memory img) (Some bi) (screen k) in do {
        s' \<leftarrow> for_each draw_step (boot_screen (fb_get_width s) (fb_get_height s) (cpu_vendor bi)) s;
        Some (log_line ''[MinOS Kernel] Milestone 1 verification complete.''
          (log_line ''[MinOS Kernel] Framebuffer graphical boot screen rendered.'' (k\<lparr>screen := s'\<rparr>)))
      })"

definition kernel_files :: "'d hw \<Rightarrow> 'd kernel \<Rightarrow> 'd kernel c_result" where
  "kernel_files hw k =
     (case run_state (ata_primary_master_init hw) k of (rc, k1) \<Rightarrow>
      let k2 = (if rc \<noteq> 0 then log_line ''[MinOS ATA] no primary master; using volatile filesystem.'' k1 else k1)
      in do {
        (rc2, k3) \<leftarrow> vfs_init hw k2;
        Some (if rc2 \<noteq> 0 then log_line ''[MinOS VFS] metadata mount warning; continuing with empty root.'' k3 else k3)
      })"

definition kernel_services :: "'d cpu_hw \<Rightarrow> 'd kernel \<Rightarrow> 'd boot_end c_result" where
  "kernel_services cpu k =
     (case run_state (apic_timer_init cpu 100) (apic_view k) of (rc, a) \<Rightarrow>
      let k1 = set_apic a k in
      if rc \<noteq> 0 then Some (Halted (log_line ''[MinOS APIC] ERROR: local APIC/timer setup failed; halting.'' k1))
      else do {
        (rc2, b) \<leftarrow> keyboard_init (cpu_ports cpu) (kbd_view k1);
        (let k2 = set_kbd b k1 in
         if rc2 \<noteq> 0 then Some (Halted (log_line ''[MinOS Keyboard] ERROR: PS/2 controller setup failed; halting.'' k2))
         else do {
           k3 \<leftarrow> kernel_files (cpu_ports cpu) k2;
           k4 \<leftarrow> console_init (log_line ''[MinOS Kernel] IRQ controller and periodic timer ready; enabling interrupts.'' k3);
           (let k5 = log_line ''[MinOS Console] Ready. Type help for commands.'' k4
            in Some (Running (k5\<lparr>k_tables := (k_tables k5)\<lparr>interrupt_flag := True\<rparr>\<rparr>)))
         })
      })"

definition kernel_start :: "'d cpu_hw \<Rightarrow> kernel_image \<Rightarrow> u64 \<times> boot_info \<Rightarrow> 'd kernel \<Rightarrow> 'd boot_end c_result" where
  "kernel_start cpu img info k = do {
     k2 \<leftarrow> kernel_paging img info (kernel_tables img k);
     (if \<not> code_mapped img k2 then Some Unmapped
      else do {
        k3 \<leftarrow> kernel_heap img k2;
        k4 \<leftarrow> kernel_screen img (snd info) (kernel_report (snd info) k3);
        kernel_services cpu k4
      })
   }"

definition kernel_main :: "'d cpu_hw \<Rightarrow> kernel_image \<Rightarrow> (u64 \<times> boot_info) option \<Rightarrow> 'd kernel \<Rightarrow> 'd boot_end c_result" where
  "kernel_main cpu img info k =
     (let k1 = kernel_banner (cpu_ports cpu) k;
          refuse = Halted (log_line ''[MinOS Kernel] ERROR: Invalid or corrupted BootInfo struct!'' k1)
      in case info of
           None \<Rightarrow> Some refuse
         | Some (address, bi) \<Rightarrow>
             if magic bi \<noteq> MINOS_BOOTINFO_MAGIC then Some refuse
             else kernel_start cpu img (address, bi) k1)"

text \<open>
  \<^verbatim>\<open>kernel_enter\<close> of \<^verbatim>\<open>kernel/entry.c\<close>: interrupts off, the switch to the stack at \<open>stack\<close>, and the call of
  \<^verbatim>\<open>kernel_main\<close> with the pointer the loader passed in \<open>RDI\<close>; \<open>ret\<close> is the return address and \<open>load\<close> reads the
  structure at an address.  Should \<^verbatim>\<open>kernel_main\<close> ever return, the processor halts.
\<close>

definition enter_code :: "u64 \<Rightarrow> u64 \<Rightarrow> instr list" where
  "enter_code stack ret =
     [Mov R12 RDI, Mov_imm RSP (stack + kernel_stack_size), And_imm RSP (- 16), Mov RDI R12, Push_imm ret]"

definition kernel_enter ::
  "'d cpu_hw \<Rightarrow> kernel_image \<Rightarrow> u64 \<Rightarrow> u64 \<Rightarrow> (u64 \<Rightarrow> boot_info) \<Rightarrow> cpu \<Rightarrow> 'd kernel \<Rightarrow> 'd boot_end c_result" where
  "kernel_enter cpu img stack ret load c k =
     (let boot_info = regs (exec (enter_code stack ret) c) RDI
      in kernel_main cpu img (if boot_info = 0 then None else Some (boot_info, load boot_info))
           (k\<lparr>k_tables := (k_tables k)\<lparr>interrupt_flag := False\<rparr>\<rparr>))"

text \<open>
  The main loop: the console is polled, then the processor waits for an interrupt.  Interrupts are
  taken between the polls.
\<close>

datatype kernel_event = Irq u64 | Poll

definition kernel_event_step :: "'d cpu_hw \<Rightarrow> kernel_event \<Rightarrow> 'd kernel \<Rightarrow> 'd kernel c_result" where
  "kernel_event_step cpu e k =
     (if halted k then Some k
      else case e of Irq n \<Rightarrow> irq_dispatch cpu n k | Poll \<Rightarrow> console_poll (cpu_ports cpu) k)"

section \<open>From the keyboard to the shell\<close>

text \<open>A machine whose keyboard delivers the given bytes; the timer's registers are elsewhere.\<close>

definition script_cpu :: "u8 list cpu_hw" where
  "script_cpu = \<lparr>cpu_ports = script_hw, cpu_cpuid = (\<lambda>_. (0, 0, 0, 0)), cpu_rdmsr = (\<lambda>_ _. (0, 0)), cpu_wrmsr = (\<lambda>_ _ _ d. d),
     mmio_read = (\<lambda>_ _ d. (0, d)), mmio_write = (\<lambda>_ _ _ d. d)\<rparr>"

lemma script_ports [simp]: "cpu_ports script_cpu = script_hw" "mmio_write script_cpu a r v d = d" "mmio_read script_cpu a r d = (0, d)"
  by (simp_all add: script_cpu_def)

lemma set_kbd_fields [simp]:
  "dev (set_kbd b k) = dev b" "keys (set_kbd b k) = input b" "k_extended (set_kbd b k) = extended b"
  "k_modifiers (set_kbd b k) = modifiers b" "tick_rate (set_kbd b k) = tick_rate k" "cwd (set_kbd b k) = cwd k"
  "halted (set_kbd b k) = halted k" "fs_at ws T (set_kbd b k) = fs_at ws T k"
  by (simp_all add: set_kbd_def fs_at_def)

lemma set_apic_fields [simp]:
  "dev (set_apic a k) = dev a" "keys (set_apic a k) = keys k" "k_extended (set_apic a k) = k_extended k"
  "k_modifiers (set_apic a k) = k_modifiers k" "tick_rate (set_apic a k) = tick_hz a" "cwd (set_apic a k) = cwd k"
  "fs_at ws T (set_apic a k) = fs_at ws T k"
  by (simp_all add: set_apic_def fs_at_def)

lemma kbd_view_fields [simp]:
  "dev (kbd_view k) = dev k" "input (kbd_view k) = keys k" "extended (kbd_view k) = k_extended k"
  "modifiers (kbd_view k) = k_modifiers k"
  by (simp_all add: kbd_view_def)

lemma shell_set_kbd: "console_shell s (set_kbd b k) = console_shell s k"
  by (cases s; cases "fst s")
    (simp add: console_shell_def represents_line_def at_line_def editing_def screen_ok_def history_ok_def past_def set_kbd_def)

lemma shell_set_apic: "console_shell s (set_apic a k) = console_shell s k"
  by (cases s; cases "fst s")
    (simp add: console_shell_def represents_line_def at_line_def editing_def screen_ok_def history_ok_def past_def set_apic_def)

lemma script_eoi: "dev (snd (run_state (apic_eoi script_cpu) m)) = dev m"
  by (cases "lapic m = 0") (simp_all add: apic_eoi_def run_lapic_write)

lemma script_timer:
  assumes "tick_hz m \<noteq> 0"
  shows "\<exists>a. timer_irq script_cpu m = Some a \<and> tick_hz a = tick_hz m \<and> dev a = dev m"
  using assms unfolding timer_irq_def Let_def by (simp add: script_eoi run_log_text run_log_fmt)

text \<open>
  What the main loop needs of the console: an abstract state \<open>x\<close> that the kernel \<open>holds\<close>, a step of it for every
  key event, and a poll that performs the steps of all pending events, as long as they are \<open>allowed\<close>.
\<close>

locale polled_shell =
  fixes holds :: "'x \<Rightarrow> u8 list kernel \<Rightarrow> bool"
    and step :: "input_event \<Rightarrow> 'x \<Rightarrow> 'x"
    and allowed :: "input_event list \<Rightarrow> 'x \<Rightarrow> bool"
  assumes holds_kbd: "holds x (set_kbd b k) = holds x k"
    and holds_apic: "holds x (set_apic a k) = holds x k"
    and running: "holds x k \<Longrightarrow> \<not> halted k"
    and allowed_append: "allowed (es @ fs) x \<longleftrightarrow> allowed es x \<and> allowed fs (fold step es x)"
    and poll: "holds x k \<Longrightarrow> input_inv (keys k) \<Longrightarrow> allowed (input_pending (keys k)) x \<Longrightarrow>
      \<exists>k'. console_poll script_hw k = Some k' \<and> input_pending (keys k') = [] \<and> beyond k k'
        \<and> holds (fold step (input_pending (keys k)) x) k'"
begin

text \<open>
  A moment of a session: the bytes still to come and the events waiting in the queue lead the abstract
  shell to \<open>goal\<close>, and there is room for all of them in the queue.
\<close>

definition session :: "'x \<Rightarrow> u8 list kernel \<Rightarrow> bool" where
  "session goal k \<longleftrightarrow> (\<exists>es st x. kbd_decode (dev k) (k_extended k, k_modifiers k) = (es, st)
     \<and> input_inv (keys k) \<and> length (input_pending (keys k)) + length es \<le> 63 \<and> tick_rate k \<noteq> 0
     \<and> holds x k \<and> allowed (input_pending (keys k) @ es) x \<and> fold step (input_pending (keys k) @ es) x = goal)"

lemma sessionI:
  assumes "kbd_decode (dev k) (k_extended k, k_modifiers k) = (es, st)" "input_inv (keys k)"
    and "length (input_pending (keys k)) + length es \<le> 63" "tick_rate k \<noteq> 0"
    and "holds x k" "allowed (input_pending (keys k) @ es) x" "fold step (input_pending (keys k) @ es) x = goal"
  shows "session goal k"
  unfolding session_def using assms by blast

lemma sessionE:
  assumes "session goal k"
  obtains es st x where "kbd_decode (dev k) (k_extended k, k_modifiers k) = (es, st)" "input_inv (keys k)"
    "length (input_pending (keys k)) + length es \<le> 63" "tick_rate k \<noteq> 0"
    "holds x k" "allowed (input_pending (keys k) @ es) x" "fold step (input_pending (keys k) @ es) x = goal"
  using assms unfolding session_def by blast

lemma irq_keyboard_session:
  assumes "session goal k"
  shows "\<exists>k'. irq_dispatch script_cpu 33 k = Some k' \<and> session goal k' \<and> dev k' = tl (dev k)"
proof -
  obtain es st x where s: "kbd_decode (dev k) (k_extended k, k_modifiers k) = (es, st)" "input_inv (keys k)"
    "length (input_pending (keys k)) + length es \<le> 63" "tick_rate k \<noteq> 0"
    "holds x k" "allowed (input_pending (keys k) @ es) x" "fold step (input_pending (keys k) @ es) x = goal"
    using assms by (rule sessionE)
  define b where "b = snd (run_state (keyboard_irq script_hw) (kbd_view k))"
  have irq: "irq_dispatch script_cpu 33 k = Some (set_kbd b k)" by (simp add: irq_dispatch_def b_def)
  show ?thesis
  proof (cases "dev k")
    case Nil
    then have "dev b = []" "extended b = k_extended k" "modifiers b = k_modifiers k" "input b = keys k"
      by (simp_all add: b_def keyboard_irq_def run_inb run_pic_eoi script_hw_def script_inb_def)
    then have "session goal (set_kbd b k)"
      by (intro sessionI [of _ es st x]) (use s Nil in \<open>simp_all add: holds_kbd\<close>)
    then show ?thesis using irq Nil \<open>dev b = []\<close> by simp
  next
    case (Cons c cs)
    obtain eo y ms where kb: "kbd_step c (k_extended k, k_modifiers k) = (eo, y, ms)"
      by (cases "kbd_step c (k_extended k, k_modifiers k)")
    have b: "dev b = cs" "extended b = y" "modifiers b = ms" "input b = push_opt eo (keys k)"
      using keyboard_irq_script [of "kbd_view k" c cs] Cons kb by (simp_all add: b_def)
    obtain fs where fs: "kbd_decode cs (y, ms) = (fs, st)" "es = (case eo of None \<Rightarrow> fs | Some e \<Rightarrow> e # fs)"
      using s(1) Cons kb by (auto split: prod.splits)
    then have es: "es = (case eo of None \<Rightarrow> [] | Some e \<Rightarrow> [e]) @ fs" by (simp split: option.split)
    have q: "input_inv (input b)" "input_pending (input b) @ fs = input_pending (keys k) @ es"
      using push_opt_fifo [OF s(2), of eo] s(3) b(4) es by (auto split: option.splits)
    moreover from q(2) have "length (input_pending (input b)) + length fs \<le> 63"
      using s(3) by (metis length_append)
    ultimately have "session goal (set_kbd b k)"
      by (intro sessionI [of _ fs st x]) (use s b fs(1) in \<open>simp_all add: holds_kbd\<close>)
    then show ?thesis using irq b(1) Cons by simp
  qed
qed

lemma irq_timer_session:
  assumes "session goal k"
  shows "\<exists>k'. irq_dispatch script_cpu 32 k = Some k' \<and> session goal k' \<and> dev k' = dev k"
proof -
  obtain es st x where s: "kbd_decode (dev k) (k_extended k, k_modifiers k) = (es, st)" "input_inv (keys k)"
    "length (input_pending (keys k)) + length es \<le> 63" "tick_rate k \<noteq> 0"
    "holds x k" "allowed (input_pending (keys k) @ es) x" "fold step (input_pending (keys k) @ es) x = goal"
    using assms by (rule sessionE)
  have "tick_hz (apic_view k) \<noteq> 0" using s(4) by (simp add: apic_view_def)
  then obtain a where a: "timer_irq script_cpu (apic_view k) = Some a" "tick_hz a = tick_rate k" "dev a = dev k"
    using script_timer [of "apic_view k"] by (auto simp: apic_view_def)
  then have "session goal (set_apic a k)"
    by (intro sessionI [of _ es st x]) (use s in \<open>simp_all add: holds_apic\<close>)
  then show ?thesis using a by (simp add: irq_dispatch_def)
qed

lemma poll_session:
  assumes "session goal k"
  shows "\<exists>k'. console_poll script_hw k = Some k' \<and> session goal k' \<and> dev k' = dev k \<and> input_pending (keys k') = []"
proof -
  obtain es st x where s: "kbd_decode (dev k) (k_extended k, k_modifiers k) = (es, st)" "input_inv (keys k)"
    "length (input_pending (keys k)) + length es \<le> 63" "tick_rate k \<noteq> 0"
    "holds x k" "allowed (input_pending (keys k) @ es) x" "fold step (input_pending (keys k) @ es) x = goal"
    using assms by (rule sessionE)
  obtain k' where k': "console_poll script_hw k = Some k'" "input_pending (keys k') = []" "beyond k k'"
      "holds (fold step (input_pending (keys k)) x) k'"
    using poll [OF s(5,2)] s(6) by (auto simp: allowed_append)
  have "k_extended k' = k_extended k" "k_modifiers k' = k_modifiers k"
    using k'(3) unfolding beyond_def by (cases k; cases k'; simp)+
  moreover have "input_inv (keys k')" "dev k' = dev k" "tick_rate k' = tick_rate k"
    using k'(3) s(2) by (simp_all add: beyond_def)
  ultimately have "session goal k'"
    by (intro sessionI [of _ es st "fold step (input_pending (keys k)) x"]) (use s k' in \<open>simp_all add: allowed_append\<close>)
  then show ?thesis using k' by (auto simp: beyond_def)
qed

lemma session_running: "session goal k \<Longrightarrow> \<not> halted k"
  using running by (auto simp: session_def)

lemma event_session:
  assumes "session goal k"
  shows "\<exists>k'. kernel_event_step script_cpu e k = Some k' \<and> session goal k'
    \<and> length (dev k') = length (dev k) - (if e = Irq 33 then 1 else 0)"
proof (cases e)
  case (Irq v)
  then show ?thesis
    using irq_keyboard_session [OF assms] irq_timer_session [OF assms] assms session_running [OF assms]
    by (cases "v = 32"; cases "v = 33") (auto simp: kernel_event_step_def irq_dispatch_def)
qed (use poll_session [OF assms] session_running [OF assms] in \<open>auto simp: kernel_event_step_def\<close>)

lemma events_session:
  assumes "session goal k"
  shows "\<exists>k'. for_each (kernel_event_step script_cpu) evs k = Some k' \<and> session goal k'
    \<and> length (dev k') = length (dev k) - count_list evs (Irq 33)"
  using assms
proof (induction evs arbitrary: k)
  case (Cons e evs)
  obtain k1 where k1: "kernel_event_step script_cpu e k = Some k1" "session goal k1"
      "length (dev k1) = length (dev k) - (if e = Irq 33 then 1 else 0)"
    using event_session [OF Cons.prems] by blast
  then show ?case using Cons.IH [OF k1(2)] by auto
qed simp

text \<open>Enough keyboard interrupts and a last poll complete the session, in every order of the other events.\<close>

lemma session_completes:
  assumes "session goal k" "length (dev k) \<le> count_list evs (Irq 33)"
  shows "\<exists>k'. for_each (kernel_event_step script_cpu) (evs @ [Poll]) k = Some k' \<and> holds goal k' \<and> input_pending (keys k') = []"
proof -
  obtain k1 where k1: "for_each (kernel_event_step script_cpu) evs k = Some k1" "dev k1 = []" "session goal k1"
    using events_session [OF assms(1), of evs] assms(2) by fastforce
  obtain k' where k': "console_poll script_hw k1 = Some k'" "session goal k'" "dev k' = []" "input_pending (keys k') = []"
    using poll_session [OF k1(3)] k1(2) by auto
  have "holds goal k'" using k'(2) by (rule sessionE) (use k'(3,4) in auto)
  then show ?thesis using k1(1) k' session_running [OF k1(3)] by (auto simp: for_each_append kernel_event_step_def)
qed

end

lemma printing_append: "printing n (es @ fs) s \<longleftrightarrow> printing n es s \<and> printing n fs (fold (shell_step n) es s)"
  by (induction es arbitrary: s) auto

lemma staying_append: "staying (es @ fs) x \<longleftrightarrow> staying es x \<and> staying fs (fold files_step es x)"
  by (induction es arbitrary: x) auto

text \<open>The two shells: for lines that only print, on any file system, and for all lines, on files in memory.\<close>

definition text_holds :: "nat \<times> shell \<Rightarrow> 'd kernel \<Rightarrow> bool" where
  "text_holds x k \<longleftrightarrow> console_shell (snd x) k \<and> length (cwd k) = fst x"

definition text_step :: "input_event \<Rightarrow> nat \<times> shell \<Rightarrow> nat \<times> shell" where
  "text_step e x = (fst x, shell_step (fst x) e (snd x))"

lemma fold_text_step: "fold text_step es (n, s) = (n, fold (shell_step n) es s)"
  by (induction es arbitrary: s) (simp_all add: text_step_def)

interpretation text_shell: polled_shell text_holds text_step "\<lambda>es x. printing (fst x) es (snd x)"
proof
  fix x :: "nat \<times> shell" and k :: "u8 list kernel"
  assume h: "text_holds x k" "input_inv (keys k)" "printing (fst x) (input_pending (keys k)) (snd x)"
  then obtain k' where "console_poll script_hw k = Some k'" "input_pending (keys k') = []" "elsewhere k k'"
      "console_shell (fold (shell_step (fst x)) (input_pending (keys k)) (snd x)) k'"
    using console_poll_shell [of "snd x" k script_hw] by (auto simp: text_holds_def)
  then show "\<exists>k'. console_poll script_hw k = Some k' \<and> input_pending (keys k') = [] \<and> beyond k k'
      \<and> text_holds (fold text_step (input_pending (keys k)) x) k'"
    using h(1) by (cases x) (auto simp: fold_text_step text_holds_def elsewhere_def beyond_def)
qed (auto simp: text_holds_def shell_set_kbd shell_set_apic printing_append fold_text_step, simp add: console_shell_def)

lemma files_set [simp]: "console_files x (set_kbd b k) = console_files x k" "console_files x (set_apic a k) = console_files x k"
  by (simp_all add: console_files_def shell_set_kbd shell_set_apic)

interpretation disk_shell: polled_shell console_files files_step staying
  by (unfold_locales; (intro console_poll_files)?)
    (auto simp: staying_append, simp add: console_files_def console_shell_def)

text \<open>Typing: plain events put their characters behind the line while there is room.\<close>

lemma plain_event_shell:
  assumes "plain_event e" "list_all printable (typed [e])" "length l + length (typed [e]) \<le> 127"
  shows "shell_step n e ((l, [], i), H) = ((l @ typed [e], [], i), H)" "\<not> enters e"
proof -
  have "edit_spec n H e (l, [], i) = (l @ typed [e], [], i) \<and> \<not> enters e"
  proof (cases "ev_pressed e = 0")
    case False
    then have keys: "ev_key e \<notin> set command_keys" and "\<not> ctrl e q" for q
      using assms(1) by (auto simp: plain_event_def ctrl_def)
    moreover have "typed [e] = (if is_printable (ev_character e) then [ev_character e] else [])"
    proof (cases "ev_character e = CHR 0x00")
      case c: False
      then have t: "typed [e] = [ev_character e]" using False by (simp add: typed_def)
      then have "is_printable (ev_character e)" using assms(2) by (simp add: is_printable_def printable_def)
      then show ?thesis using t by simp
    qed (simp add: typed_def is_printable_def)
    ultimately show ?thesis using False assms(3) by (auto simp: enters_def command_keys_def split: if_splits)
  qed (simp add: enters_def typed_def)
  then show "shell_step n e ((l, [], i), H) = ((l @ typed [e], [], i), H)" "\<not> enters e"
    by (simp_all add: shell_step_def)
qed

lemma plain_events_shell:
  assumes "list_all plain_event es" "list_all printable (typed es)" "length l + length (typed es) \<le> 127"
  shows "fold (shell_step n) es ((l, [], i), H) = ((l @ typed es, [], i), H) \<and> (\<forall>e \<in> set es. \<not> enters e)"
  using assms
proof (induction es arbitrary: l)
  case (Cons e es)
  have t: "typed (e # es) = typed [e] @ typed es" by (metis append_Cons append_Nil typed_append)
  have "shell_step n e ((l, [], i), H) = ((l @ typed [e], [], i), H)" "\<not> enters e"
    using plain_event_shell [of e l] Cons.prems by (auto simp: t)
  then show ?case using Cons.IH [of "l @ typed [e]"] Cons.prems by (simp add: t)
qed (simp add: typed_def)

lemma no_enter:
  assumes "\<forall>e \<in> set es. \<not> enters e"
  shows "printing n es s" "staying es (s, f)" "fold files_step es (s, f) = (fold (shell_step (length (render (fst f)))) es s, f)"
  using assms by (induction es arbitrary: s) (simp_all add: files_step_def)

lemma enter_decode:
  "\<exists>e f. kbd_decode [0x1C, 0x9C] (0, 0) = ([e, f], 0, 0) \<and> enters e \<and> ev_pressed f = 0"
  by (simp add: kbd_step_def decode_key_def key_for_scancode_def normal_keys_def enters_def Let_def word_le_nat_alt)

text \<open>The events of a typed line: characters, then Enter pressed and released.\<close>

lemma typed_line_events:
  assumes "list_all printable t" "4 * length t + 2 \<le> 63"
  shows "\<exists>es e f. kbd_decode (concat (map keystrokes t) @ [0x1C, 0x9C]) (0, 0) = (es @ [e, f], 0, 0) \<and> length es + 2 \<le> 63
    \<and> (\<forall>e \<in> set es. \<not> enters e) \<and> enters e \<and> ev_pressed f = 0
    \<and> (\<forall>n i H. fold (shell_step n) es (([], [], i), H) = ((t, [], i), H))"
proof -
  obtain es where es: "kbd_decode (concat (map keystrokes t)) (0, 0) = (es, 0, 0)" "typed es = t"
      "length es \<le> 4 * length t" "list_all plain_event es"
    using type_text_decode [OF assms(1)] by blast
  obtain e f where ef: "kbd_decode [0x1C, 0x9C] (0, 0) = ([e, f], 0, 0)" "enters e" "ev_pressed f = 0"
    using enter_decode by blast
  have "fold (shell_step n) es (([], [], i), H) = ((t, [], i), H) \<and> (\<forall>e \<in> set es. \<not> enters e)" for n i H
    using plain_events_shell [OF es(4), of "[]"] es(2) assms by auto
  then show ?thesis
    using es(1,3) ef assms(2) by (intro exI [of _ es] exI [of _ e] exI [of _ f]) (simp add: kbd_decode_append)
qed

lemma released_shell: "ev_pressed f = 0 \<Longrightarrow> \<not> enters f \<and> edit_spec n H f a = a"
  by (cases a) (simp add: enters_def)

lemma type_line_decode:
  assumes "list_all printable t" "4 * length t + 2 \<le> 63" "prints_only t"
  shows "\<exists>es. kbd_decode (concat (map keystrokes t) @ [0x1C, 0x9C]) (0, 0) = (es, 0, 0) \<and> length es \<le> 63
    \<and> printing n es (([], [], i), H) \<and> fold (shell_step n) es (([], [], i), H) = (([], [], 0), add_line t H)"
proof -
  obtain es e f where es: "kbd_decode (concat (map keystrokes t) @ [0x1C, 0x9C]) (0, 0) = (es @ [e, f], 0, 0)" "length es + 2 \<le> 63"
      "\<forall>e \<in> set es. \<not> enters e" "enters e" "ev_pressed f = 0" "\<forall>n i H. fold (shell_step n) es (([], [], i), H) = ((t, [], i), H)"
    using typed_line_events [OF assms(1,2)] by blast
  then show ?thesis
    using assms(3) no_enter(1) [OF es(3)] released_shell [OF es(5)] by (intro exI [of _ "es @ [e, f]"]) (simp add: printing_append shell_step_def)
qed

lemma type_line_files:
  assumes "list_all printable t" "4 * length t + 2 \<le> 63" "stays t"
  shows "\<exists>es. kbd_decode (concat (map keystrokes t) @ [0x1C, 0x9C]) (0, 0) = (es, 0, 0) \<and> length es \<le> 63
    \<and> staying es ((([], [], i), H), fs)
    \<and> fold files_step es ((([], [], i), H), fs) = ((([], [], 0), add_line t H), submit t fs)"
proof -
  obtain es e f where es: "kbd_decode (concat (map keystrokes t) @ [0x1C, 0x9C]) (0, 0) = (es @ [e, f], 0, 0)" "length es + 2 \<le> 63"
      "\<forall>e \<in> set es. \<not> enters e" "enters e" "ev_pressed f = 0" "\<forall>n i H. fold (shell_step n) es (([], [], i), H) = ((t, [], i), H)"
    using typed_line_events [OF assms(1,2)] by blast
  then show ?thesis
    using assms(3) no_enter(2,3) [OF es(3)] released_shell [OF es(5)]
    by (intro exI [of _ "es @ [e, f]"]) (simp add: staying_append shell_step_def files_step_def)
qed


text \<open>A kernel at its prompt, with the keys of \<^verbatim>\<open>Pwd\<close> and Enter to come.\<close>

definition sample_memory :: syscall_state where
  "sample_memory = sched_state.extend sample_sched \<lparr>syscall_table = replicate 256 None, msrs = (\<lambda>_. 0)\<rparr>"

definition sample_tables :: cpu_tables where
  "sample_tables = \<lparr>gdtr = (0, 0), idtr = (0, 0), seg_cs = 0, seg_ds = 0, seg_es = 0, seg_ss = 0, interrupt_flag = True,
     idt = replicate 256 zero_gate\<rparr>"

definition sample_kernel :: "u8 list \<Rightarrow> u8 list kernel" where
  "sample_kernel bs = sample_at bs \<lparr>queue = replicate 64 no_event, read_index = 0, write_index = 0\<rparr>
     \<lparr>k_tables = sample_tables, k_memory = sample_memory, k_lapic = 0xFEE00000, k_lapic_writes = [], k_modifiers = 0, k_extended = 0\<rparr>"

lemma sample_kernel_fields:
  "dev (sample_kernel bs) = bs" "tick_rate (sample_kernel bs) \<noteq> 0" "k_extended (sample_kernel bs) = 0"
  "k_modifiers (sample_kernel bs) = 0" "input_inv (keys (sample_kernel bs))" "input_pending (keys (sample_kernel bs)) = []"
  "k_memory (sample_kernel bs) = sample_memory"
  by (simp_all add: sample_kernel_def sample_at_def input_inv_def INPUT_QUEUE_SIZE_def input_pending_def input_count_def)



definition files_kernel :: "u8 list \<Rightarrow> u8 list kernel" where
  "files_kernel bs = (sample_kernel bs)\<lparr>records := fresh_records, contents := replicate 64 (replicate 4096 0)\<rparr>"

lemma files_kernel_at: "console_files ((([], [], 0), []), [], empty_tree) (files_kernel bs)"
proof -
  have "console_shell (([], [], 0), []) (sample_kernel bs)" by (simp add: sample_kernel_def sample_at_shell)
  then have "console_shell (([], [], 0), []) (files_kernel bs)"
    by (simp add: files_kernel_def console_shell_files)
  moreover have "fs_at [] empty_tree (files_kernel bs)"
    by (simp add: files_kernel_def sample_kernel_def fresh_fs_at)
  ultimately show ?thesis by (simp add: console_files_def)
qed

lemma files_kernel_fields:
  "dev (files_kernel bs) = bs" "tick_rate (files_kernel bs) \<noteq> 0" "k_extended (files_kernel bs) = 0"
  "k_modifiers (files_kernel bs) = 0" "input_inv (keys (files_kernel bs))" "input_pending (keys (files_kernel bs)) = []"
  using sample_kernel_fields by (simp_all add: files_kernel_def)

lemma mkdir_submits: "submit ''mkdir a'' ([], empty_tree) = ([], empty_tree([''a''] \<mapsto> (VFS_DIRECTORY, 0)))"
proof -
  have "console_words ''mkdir a'' 8 = [''mkdir'', ''a'']" by (simp add: console_words_splits words_spec_def)
  moreover have "resolve_at [] ''a'' = Some [''a'']"
    by (simp add: resolve_at_def is_absolute_def render_def VFS_PATH_MAX_def VFS_NAME_MAX_def)
  ultimately show ?thesis
    by (simp add: submit_def shell_files_def arg_at_def file_tree_def tree_create_def tree_dir_def empty_tree_def
        VFS_FILE_MAX_def lower_def Let_def)
qed


section \<open>The start of the kernel\<close>

lemma log_line_fields [simp]:
  "k_memory (log_line t k) = k_memory k" "k_tables (log_line t k) = k_tables k" "screen (log_line t k) = screen k"
  by (simp_all add: log_line_def run_log_text)

lemma kernel_banner_fields [simp]:
  "k_memory (kernel_banner hw k) = k_memory k" "k_tables (kernel_banner hw k) = k_tables k"
  "screen (kernel_banner hw k) = screen k"
  by (simp_all add: kernel_banner_def serial_init_def run_outb run_inb Let_def split_beta)

text \<open>A missing or damaged boot structure stops the kernel before it touches tables, memory or screen.\<close>

lemma kernel_main_refuses:
  assumes "\<forall>address bi. info = Some (address, bi) \<longrightarrow> magic bi \<noteq> MINOS_BOOTINFO_MAGIC"
  shows "\<exists>k'. kernel_main cpu img info k = Some (Halted k')
    \<and> k_memory k' = k_memory k \<and> k_tables k' = k_tables k \<and> screen k' = screen k"
  using assms by (auto simp: kernel_main_def Let_def split: option.splits)

text \<open>
  The entry passes the pointer on and leaves the stack as the calling convention wants it at the first
  instruction of a function: eight bytes below a multiple of 16, with the return address on it, inside the
  array \<^verbatim>\<open>kernel_stack\<close>.
\<close>

lemma enter_code_stack:
  fixes stack ret :: u64 and c :: cpu
  assumes "stack AND 15 = 0" "unat stack + 32768 < 2 ^ 64"
  defines "c' \<equiv> exec (enter_code stack ret) c"
  shows "regs c' RDI = regs c RDI" "regs c' RSP = stack + 32760" "regs c' RSP AND 15 = 8"
    and "mem c' (regs c' RSP) = ret" "stack \<le> regs c' RSP"
proof -
  have dvd: "16 dvd unat stack"
  proof -
    have "take_bit 4 stack = 0" using assms(1) by (simp add: take_bit_eq_mask mask_eq_exp_minus_1)
    then have "stack mod 16 = 0" by (simp add: take_bit_eq_mod)
    then have "unat stack mod 16 = 0" using unat_mod [of stack 16] by simp
    then show ?thesis by blast
  qed
  have low: "(x AND 15 :: u64) = x mod 16" for x
    using take_bit_eq_mask [of 4 x] by (simp add: take_bit_eq_mod mask_eq_exp_minus_1)
  have "stack + 32768 AND - 16 = (stack + 32768) - (stack + 32768) mod 16"
    using and_not_mask [of "stack + 32768" 4] by (simp add: mask_eq_exp_minus_1 minus_mod_eq_div_mult)
  moreover have "(stack + 32768) mod 16 = 0"
  proof -
    have "unat ((stack + 32768) mod 16) = 0" using dvd assms(2) by (auto simp: unat_mod unat_word_ariths dvd_def)
    then show ?thesis by (simp add: unat_eq_0)
  qed
  ultimately have top: "stack + 32768 AND - 16 = stack + 32768" by simp
  show rsp: "regs c' RSP = stack + 32760"
    by (simp add: c'_def enter_code_def kernel_stack_size_def top)
  show "regs c' RDI = regs c RDI" "mem c' (regs c' RSP) = ret"
    by (simp_all add: c'_def enter_code_def)
  have "unat ((stack + 32760) mod 16) = 8"
    using dvd assms(2) by (auto simp: unat_mod unat_word_ariths dvd_def)
  then show "regs c' RSP AND 15 = 8" by (simp add: rsp low word_unat_eq_iff)
  show "stack \<le> regs c' RSP" using assms(2) by (simp add: rsp word_le_nat_alt unat_word_ariths)
qed


text \<open>A machine with 16 pages of conventional memory, the kernel in them, and no framebuffer.\<close>

definition tiny_boot_info :: boot_info where
  "tiny_boot_info = small_boot_info\<lparr>magic := MINOS_BOOTINFO_MAGIC, fb_base := 0, fb_size := 0\<rparr>"

definition tiny_image :: kernel_image where
  "tiny_image = \<lparr>gdt_address = 0x101000, idt_address = 0x101100, stub_address = (\<lambda>n. 0x100100), kernel_code = 0x100000,
     idle_address = 0x100200, syscall_address = 0x100300, wrmsr_edx = (\<lambda>_. 0), map_memory = small_map, fb_memory = []\<rparr>"

lemma alloc_first_free:
  assumes "pmm_ok p" "1 \<le> m" "m < unat (total_frames p)" "\<not> frame_used p m" "\<And>k. 1 \<le> k \<Longrightarrow> k < m \<Longrightarrow> frame_used p k"
  shows "pmm_alloc_frame p = Some (frame_addr m, take_frame m p)"
proof -
  obtain r where r: "pmm_alloc_frame p = Some r" "alloc_outcome 1 p r"
    using alloc_loop_outcome [OF assms(1), of 1] by (auto simp: pmm_alloc_frame_def)
  then show ?thesis using assms(2-5) unfolding alloc_outcome_def by (metis linorder_less_linear)
qed

lemma tiny_magic: "magic tiny_boot_info = MINOS_BOOTINFO_MAGIC"
  by (simp add: tiny_boot_info_def)

lemma tiny_pages: "bootstrap_pages (Some tiny_boot_info) = 1"
  by (simp add: bootstrap_pages_def bootstrap_bytes_def tiny_boot_info_def small_boot_info_def zero_boot_info_def vmm_sizes Let_def)

lemma tiny_pmm:
  "\<exists>p. pmm_init small_map (Some (0x109000, tiny_boot_info)) s = Some p \<and> pmm_ok p \<and> unat (total_frames p) = 16
    \<and> \<not> frame_used p 1 \<and> \<not> frame_used p 2"
proof -
  have e: "map_entries small_map (memory_map tiny_boot_info) (memory_map_size tiny_boot_info) (descriptor_size tiny_boot_info)
      = [small_map 0x108000]"
    using small_map_entries by (simp add: tiny_boot_info_def)
  have r: "kernel_ranges 0x109000 tiny_boot_info = [(0x109000, sizeof_boot_info), (0x108000, 48), (0, 0), (0x100000, 0x2000), (0x104000, 0x1000)]"
    by (simp add: kernel_ranges_def tiny_boot_info_def small_boot_info_def zero_boot_info_def)
  have m: "memory_map tiny_boot_info \<noteq> 0" "descriptor_size tiny_boot_info \<noteq> 0"
    by (simp_all add: tiny_boot_info_def small_boot_info_def)
  have hi: "\<forall>(b, n) \<in> set (kernel_ranges 0x109000 tiny_boot_info). hi_frame b n \<le> 2 ^ 24"
    by (simp add: r hi_frame_def sizeof_boot_info_def)
  have c: "conv_pages [small_map 0x108000] \<le> 2 ^ 24" by (simp add: small_facts(4))
  obtain p where p: "pmm_init small_map (Some (0x109000, tiny_boot_info)) s = Some p" "pmm_ok p" "unat (total_frames p) = 16"
      "\<forall>k < 2 ^ 24. frame_used p k \<longleftrightarrow> (\<exists>(b, n) \<in> set (kernel_ranges 0x109000 tiny_boot_info). lo_frame b \<le> k \<and> k < hi_frame b n)"
    using pmm_init_spec [OF m e [symmetric] small_facts(3) c hi, of s] small_facts(4) by auto
  moreover have "\<not> (\<exists>(b, n) \<in> set (kernel_ranges 0x109000 tiny_boot_info). lo_frame b \<le> k \<and> k < hi_frame b n)" if "k \<le> 2" for k
    using that by (simp add: r hi_frame_def lo_frame_def sizeof_boot_info_def)
  ultimately show ?thesis by (intro exI [of _ p]) simp
qed


text \<open>
  C16: the loader and the kernel fit together.  Whenever \<^verbatim>\<open>efi_main\<close> enters the kernel, on any firmware and
  after any number of rejected memory maps, \<^verbatim>\<open>kernel_main\<close> accepts the structure and starts with a map that the firmware
  accepted; it runs at the top of the very stack that the structure declares (and \<^verbatim>\<open>pmm_init\<close> protects), aligned as
  the calling convention demands.
\<close>

theorem loader_enters_kernel:
  fixes m m' :: "('e, 'f) boot_machine"
  assumes loader: "efi_main bs hw cpuid memory main_addr stack bi0 m = Some (Enters info, m')"
    and stack: "stack AND 15 = 0" "unat stack + 32768 < 2 ^ 64"
    and pointer: "regs c RDI \<noteq> 0" "load (regs c RDI) = info"
  shows "kernel_enter cpu img stack ret load c k =
      kernel_start cpu img (regs c RDI, info)
        (kernel_banner (cpu_ports cpu) (k\<lparr>k_tables := (k_tables k)\<lparr>interrupt_flag := False\<rparr>\<rparr>))
    \<and> (\<exists>mv f0 st. describes memory mv info \<and> ExitBootServices bs (mv_key mv) f0 = (st, fw_state m') \<and> \<not> EFI_ERROR st)
    \<and> (let sp = regs (exec (enter_code stack ret) c) RSP
       in sp AND 15 = 8 \<and> bootstrap_stack_base info \<le> sp \<and> sp + 8 = bootstrap_stack_base info + bootstrap_stack_size info)"
proof -
  note entry = enter_code_stack [OF stack, of ret c]
  have h: "handed_over bs memory (Enters info, m')" "bootstrap_stack_base info = stack"
      "bootstrap_stack_size info = kernel_stack_size"
    using efi_main_enters [OF loader] by simp_all
  then obtain mv f0 st where mv: "describes memory mv info" "ExitBootServices bs (mv_key mv) f0 = (st, fw_state m')" "\<not> EFI_ERROR st"
    by (auto simp: handed_over_def)
  then have "magic info = MINOS_BOOTINFO_MAGIC" by (simp add: describes_def)
  then have "kernel_enter cpu img stack ret load c k = kernel_start cpu img (regs c RDI, info)
      (kernel_banner (cpu_ports cpu) (k\<lparr>k_tables := (k_tables k)\<lparr>interrupt_flag := False\<rparr>\<rparr>))"
    using entry(1) pointer by (simp add: kernel_enter_def kernel_main_def Let_def)
  moreover have "regs (exec (enter_code stack ret) c) RSP + 8 = bootstrap_stack_base info + bootstrap_stack_size info"
    by (simp add: entry(2) h kernel_stack_size_def)
  ultimately show ?thesis using entry(3,5) h(2) mv by (auto simp: Let_def)
qed

theorem loader_enters_kernel_witness:
  "\<exists>info m'. efi_main fw_services quiet_hw sample_cpuid sample_region 0x401234 0x500000 zero_boot_info sample_boot = Some (Enters info, m')
    \<and> kernel_enter script_cpu tiny_image 0x500000 0x401300 (\<lambda>_. info) (sample_cpu_state\<lparr>regs := (\<lambda>_. 0x402000)\<rparr>) (sample_kernel []) =
        kernel_start script_cpu tiny_image (0x402000, info)
          (kernel_banner (cpu_ports script_cpu) ((sample_kernel [])\<lparr>k_tables := (k_tables (sample_kernel []))\<lparr>interrupt_flag := False\<rparr>\<rparr>))"
proof -
  obtain info m' where e: "efi_main fw_services quiet_hw sample_cpuid sample_region 0x401234 0x500000
      zero_boot_info sample_boot = Some (Enters info, m')"
    using sample_efi_main_enters by blast
  have "kernel_enter script_cpu tiny_image 0x500000 0x401300 (\<lambda>_. info) (sample_cpu_state\<lparr>regs := (\<lambda>_. 0x402000)\<rparr>) (sample_kernel []) =
      kernel_start script_cpu tiny_image (0x402000, info)
        (kernel_banner (cpu_ports script_cpu) ((sample_kernel [])\<lparr>k_tables := (k_tables (sample_kernel []))\<lparr>interrupt_flag := False\<rparr>\<rparr>))"
    using loader_enters_kernel [OF e, of "sample_cpu_state\<lparr>regs := (\<lambda>_. 0x402000)\<rparr>" "\<lambda>_. info" script_cpu tiny_image "0x401300" "sample_kernel []"]
    by simp
  then show ?thesis using e by blast
qed

end
