(* ===== verification/Spec2Isabelle.thy ===== *)
theory Spec2Isabelle
  imports Minos_Keyboard Minos_Pmm Minos_VfsDisk Minos_Fb Minos_Kernel
begin

text \<open>
  Verification of MinOS, a small x86-64 kernel in C that is started by its own UEFI loader.

  \<^bold>\<open>The program.\<close>  The loader (\<^verbatim>\<open>boot/bootx64.c\<close>) collects the memory map and the
  framebuffer, leaves the firmware and enters \<^verbatim>\<open>kernel_main\<close> (\<^verbatim>\<open>kernel/main.c\<close>).  That function sets up the
  descriptor tables, the physical and virtual memory, the heap, the scheduler and the system calls,
  draws the boot screen, starts the timer, the keyboard, the disk, the file system and the console, and
  then polls the console for ever.  Between two polls interrupts arrive: the timer counts, and the
  keyboard turns scancodes into events of a ring buffer, which the console empties; the console edits a
  line, keeps a history and runs shell commands on the file system.

  \<^bold>\<open>The theories\<close>, in the order of their imports:
  \<^item> \<open>Minos_Prelude\<close>: word sizes, loops (\<open>for_each\<close>), the results of C code (\<open>c_result\<close>), lemmas on lists and words.
  \<^item> \<open>Minos_Input\<close> (\<^verbatim>\<open>input.c\<close>, \<^verbatim>\<open>input.h\<close>): keys, events and the 64-slot ring buffer; the locale
    \<open>bounded_fifo\<close> is its interface.  It refines a bounded list, and a push that interrupts a pop at any
    point loses nothing.
  \<^item> \<open>Minos_PortIO\<close>, \<open>Minos_Serial\<close> (\<^verbatim>\<open>kernel.h\<close>, \<^verbatim>\<open>serial.c\<close>): port instructions and the serial driver with
    \<^verbatim>\<open>serial_printf\<close>.  The driver sends exactly the formatted text; the decimal and hexadecimal texts read
    back to the number.
  \<^item> \<open>Minos_Boot\<close> (\<^verbatim>\<open>bootx64.c\<close>, \<^verbatim>\<open>efi.h\<close>, \<^verbatim>\<open>bootinfo.h\<close>): the memory map, its growing buffer and
    the exit from the firmware.  No buffer leaks and the totals saturate; the firmware's services are a parameter.
  \<^item> \<open>Minos_Pmm\<close> (\<^verbatim>\<open>pmm.c\<close>): the frame bitmap; the locale \<open>frame_allocator\<close> is its interface.
    Frames are handed out once, none overlaps what the kernel owns, the counter is exact.
  \<^item> \<open>Minos_Apic\<close>, \<open>Minos_Keyboard\<close> (\<^verbatim>\<open>apic.c\<close>, \<^verbatim>\<open>keyboard.c\<close>): timer and interrupt controllers, and the
    scancode decoder.  Typing any printable text on a US keyboard leaves that text in the queue.
  \<^item> \<open>Minos_Ata\<close>, \<open>Minos_Vfs\<close>, \<open>Minos_VfsPath\<close>, \<open>Minos_VfsTree\<close>, \<open>Minos_VfsDisk\<close> (\<^verbatim>\<open>ata.c\<close>, \<^verbatim>\<open>vfs.c\<close>):
    the disk driver and the file system.  Sectors read back what was written; paths are normalised as the
    resolution of their pieces; the table of files is always a tree and refines a map from paths; trees and file
    contents survive a reboot.
  \<^item> \<open>Minos_Fb\<close> (\<^verbatim>\<open>framebuffer.c\<close>): drawing.  Only visible pixels change; characters are their glyphs;
    scrolling moves rows.
  \<^item> \<open>Minos_Vmm\<close>, \<open>Minos_Heap\<close>, \<open>Minos_Cpu\<close>, \<open>Minos_Sched\<close>, \<open>Minos_Syscall\<close>, \<open>Minos_SyscallEntry\<close> (\<^verbatim>\<open>vmm.c\<close>, \<^verbatim>\<open>heap.c\<close>,
    \<^verbatim>\<open>scheduler.c\<close>, \<^verbatim>\<open>context_switch.s\<close>, \<^verbatim>\<open>syscall.c\<close>, \<^verbatim>\<open>syscall_entry.s\<close>): page tables and the processor's
    walk through them, slabs, threads and system calls on a small processor model.  The scheduler is a round robin;
    but the page tables map nothing, the heap never allocates, no thread is ever started, and a system call gives
    most registers back with the value of another one.
  \<^item> \<open>Minos_Idt\<close> (\<^verbatim>\<open>gdt.c\<close>, \<^verbatim>\<open>idt.c\<close>): tables and gates, and the interrupt entry, which gives every register back.
  \<^item> \<open>Minos_Power\<close>, \<open>Minos_Console\<close>, \<open>Minos_ConsoleEdit\<close>, \<open>Minos_Shell\<close>, \<open>Minos_Files\<close> (\<^verbatim>\<open>power.c\<close>, \<^verbatim>\<open>console.c\<close>): the
    console with all its commands.  \<open>edit_spec\<close> and \<open>shell_step\<close> are an abstract line editor and shell, and
    \<open>files_step\<close> adds a working directory and a tree of files.  \<^verbatim>\<open>console_poll\<close> refines the first for all key events whose
    submitted lines only print, and the second, on files in memory, for all lines but those that stop the machine.
  \<^item> \<open>Minos_Kernel\<close> (\<^verbatim>\<open>main.c\<close>, \<^verbatim>\<open>entry.c\<close>, \<^verbatim>\<open>irq_dispatch\<close>): the components together.  The kernel accepts
    what the loader hands over, with a map the firmware accepted, and runs on the stack that is declared in it.  The locale \<open>polled_shell\<close>
    states what the main loop needs of the console; both shells are instances.  A command typed on the
    keyboard is submitted once, and carried out on the files, in every order of keyboard interrupts, timer interrupts and polls; and
    \<^verbatim>\<open>kernel_main\<close> does not survive the load of its own page tables.

  \<^bold>\<open>How the code is modelled.\<close>  A C function is a function on a record of the statics it uses; records
  extend one another in the order the components use each other.  Integers are words of their C width.
  Undefined behaviour, an access outside an array and a loop that does not end are \<^term>\<open>None\<close> of
  \<open>c_result\<close>.  Null pointers are \<^term>\<open>None\<close> of an option, or the address 0 where addresses are computed with.
  Device drivers run in the state monad against a hardware parameter (\<open>hw\<close>, \<open>cpu_hw\<close>), which
  answers every access; properties hold for all hardware, or for the models \<open>disk_hw\<close>, \<open>script_hw\<close> and
  \<open>i8042_hw\<close> they name.  Firmware services are a parameter of the loader.

  \<^bold>\<open>Bounds.\<close>  Loops are structural or have measures.  Five may run for ever in principle and are partial
  functions, about which it is proved when they return: waiting for the serial port, the exit from the firmware,
  draining the keyboard controller, the search for a slab, and the event loop of the console.  The
  recursive walks of \<^verbatim>\<open>tree\<close> and \<^verbatim>\<open>find\<close> carry 16 minus the depth, the limit of the code.

  \<^bold>\<open>Not modelled.\<close>  \<^verbatim>\<open>chkstk.c\<close>, which is empty, and the Python tools.  Assembler runs on a processor of sixteen
  registers and a memory of separate eight-byte words; what compiled code does around a call is a parameter
  that obeys the calling convention.
  Messages of components other than the serial driver go to a log instead of the port.  Interrupts are
  taken between polls; that they may also come inside \<^verbatim>\<open>input_pop\<close> is treated in \<open>Minos_Input\<close>.
  Page faults are modelled only where \<^verbatim>\<open>kernel_main\<close> switches the page tables.
\<close>

end
